(* ===== verification/Prelude.thy ===== *)
theory Prelude
  imports Main "HOL-Library.Word" "HOL-Library.AList"
begin

text \<open>
  What the components share.
  \<^item> Machine integers are words.  The workspace is built with
    \<^verbatim>\<open>overflow-checks = true\<close> in the release profile (\<^verbatim>\<open>src/Cargo.toml\<close>), so an
    overflowing \<open>+\<close>, \<open>-\<close> or \<open>*\<close> of the source panics; it does not wrap.
    \<open>padd\<close>, \<open>psub\<close> and \<open>pmul\<close> are these operators.
  \<^item> \<open>Result<T, E>\<close> is a sum with the error on the left; \<open>bindR\<close> is the operator
    \<^verbatim>\<open>?\<close>.  A function of the source that can also panic (an unwrap, an index out of
    range, an overflow) has the error type \<open>'e fail\<close>, so that a panic is a value
    and its absence a theorem.
  \<^item> A \<^verbatim>\<open>for\<close> loop with early return is \<open>fold_result\<close>.
  \<^item> A \<open>HashMap\<close> is an association list with distinct keys; its iteration order, which
    Rust leaves unspecified, is the order of the list.
\<close>

section \<open>Integers\<close>

type_synonym u8 = "8 word"
type_synonym u16 = "16 word"
type_synonym u32 = "32 word"
type_synonym u64 = "64 word"
type_synonym bytes = "u8 list"

named_theorems result_simps \<open>rewriting of results, binds and loops over results\<close>
named_theorems hm_simps \<open>lookups after hash map operations\<close>

definition checked_add :: "'a::len word \<Rightarrow> 'a word \<Rightarrow> 'a word option" where
  "checked_add a b = (if unat a + unat b < 2 ^ LENGTH('a) then Some (a + b) else None)"

definition checked_sub :: "'a::len word \<Rightarrow> 'a word \<Rightarrow> 'a word option" where
  "checked_sub a b = (if b \<le> a then Some (a - b) else None)"

definition checked_mul :: "'a::len word \<Rightarrow> 'a word \<Rightarrow> 'a word option" where
  "checked_mul a b = (if unat a * unat b < 2 ^ LENGTH('a) then Some (a * b) else None)"

definition saturating_add :: "'a::len word \<Rightarrow> 'a word \<Rightarrow> 'a word" where
  "saturating_add a b = (case checked_add a b of Some c \<Rightarrow> c | None \<Rightarrow> - 1)"

definition saturating_sub :: "'a::len word \<Rightarrow> 'a word \<Rightarrow> 'a word" where
  "saturating_sub a b = (if b \<le> a then a - b else 0)"

definition saturating_mul :: "'a::len word \<Rightarrow> 'a word \<Rightarrow> 'a word" where
  "saturating_mul a b = (case checked_mul a b of Some c \<Rightarrow> c | None \<Rightarrow> - 1)"

definition div_ceil :: "'a::len word \<Rightarrow> 'a word \<Rightarrow> 'a word" where
  "div_ceil a b = (if a mod b = 0 then a div b else a div b + 1)"

lemma unat_less_two_power [simp, intro]: "unat (a :: 'a::len word) < 2 ^ LENGTH('a)"
  by (rule unsigned_less)

lemma unat_inject: "unat a = unat b \<longleftrightarrow> a = (b :: 'a::len word)"
  by (simp add: word_unat_eq_iff)

lemma foldl_invariant: "P s \<Longrightarrow> (\<And>s x. P s \<Longrightarrow> P (f s x)) \<Longrightarrow> P (foldl f s xs)"
  by (induction xs arbitrary: s) simp_all

lemma sorted_le_last: "sorted xs \<Longrightarrow> x \<in> set xs \<Longrightarrow> x \<le> last xs"
  by (induction xs) auto

lemma unat_add_no_overflow:
  fixes a b :: "'a::len word"
  shows "unat a + unat b < 2 ^ LENGTH('a) \<Longrightarrow> unat (a + b) = unat a + unat b"
  by (simp add: unat_word_ariths)

lemma unat_mul_no_overflow:
  fixes a b :: "'a::len word"
  shows "unat a * unat b < 2 ^ LENGTH('a) \<Longrightarrow> unat (a * b) = unat a * unat b"
  by (simp add: unat_word_ariths)

lemma checked_add_eq_Some:
  fixes a b c :: "'a::len word"
  shows "checked_add a b = Some c \<longleftrightarrow> unat a + unat b < 2 ^ LENGTH('a) \<and> unat c = unat a + unat b"
  by (auto simp: checked_add_def unat_add_no_overflow word_unat_eq_iff split: if_splits)

lemma checked_add_eq_None:
  fixes a b :: "'a::len word"
  shows "checked_add a b = None \<longleftrightarrow> 2 ^ LENGTH('a) \<le> unat a + unat b"
  by (auto simp: checked_add_def not_less)

lemma checked_mul_eq_Some:
  fixes a b c :: "'a::len word"
  shows "checked_mul a b = Some c \<longleftrightarrow> unat a * unat b < 2 ^ LENGTH('a) \<and> unat c = unat a * unat b"
  by (auto simp: checked_mul_def unat_mul_no_overflow word_unat_eq_iff split: if_splits)

lemma checked_mul_eq_None:
  fixes a b :: "'a::len word"
  shows "checked_mul a b = None \<longleftrightarrow> 2 ^ LENGTH('a) \<le> unat a * unat b"
  by (auto simp: checked_mul_def not_less)

lemma unat_saturating_add:
  fixes a b :: "'a::len word"
  shows "unat (saturating_add a b) = min (unat a + unat b) (2 ^ LENGTH('a) - 1)"
proof (cases "unat a + unat b < 2 ^ LENGTH('a)")
  case True
  then show ?thesis
    by (simp add: saturating_add_def checked_add_def unat_add_no_overflow)
next
  case False
  then show ?thesis
    by (simp add: saturating_add_def checked_add_def unsigned_minus_1_eq_mask mask_eq_exp_minus_1)
qed

lemma unat_saturating_sub:
  fixes a b :: "'a::len word"
  shows "unat (saturating_sub a b) = unat a - unat b"
  by (auto simp: saturating_sub_def unat_sub word_le_nat_alt)

section \<open>Results\<close>

text \<open>A panic of the source, next to the errors it returns.\<close>

datatype 'e fail = Err 'e | Panic

type_synonym ('e, 'a) result = "'e + 'a"
type_synonym ('e, 'a) outcome = "'e fail + 'a"

definition bindR :: "'e + 'a \<Rightarrow> ('a \<Rightarrow> 'e + 'b) \<Rightarrow> 'e + 'b" where
  "bindR m f = (case m of Inl e \<Rightarrow> Inl e | Inr x \<Rightarrow> f x)"

definition map_err :: "('e \<Rightarrow> 'f) \<Rightarrow> 'e + 'a \<Rightarrow> 'f + 'a" where
  "map_err g m = (case m of Inl e \<Rightarrow> Inl (g e) | Inr x \<Rightarrow> Inr x)"

definition ok_or :: "'e \<Rightarrow> 'a option \<Rightarrow> 'e + 'a" where
  "ok_or e m = (case m of None \<Rightarrow> Inl e | Some x \<Rightarrow> Inr x)"

definition unwrap :: "'a option \<Rightarrow> ('e, 'a) outcome" where
  "unwrap m = ok_or Panic m"

text \<open>An unwrap of a result: its error is a panic of the caller.\<close>

definition unwrapR :: "'f + 'a \<Rightarrow> ('e, 'a) outcome" where
  "unwrapR m = (case m of Inl _ \<Rightarrow> Inl Panic | Inr x \<Rightarrow> Inr x)"

definition guardR :: "bool \<Rightarrow> 'e \<Rightarrow> 'e + unit" where
  "guardR c e = (if c then Inr () else Inl e)"

definition is_ok :: "'e + 'a \<Rightarrow> bool" where
  "is_ok m = (case m of Inl _ \<Rightarrow> False | Inr _ \<Rightarrow> True)"

definition padd :: "'a::len word \<Rightarrow> 'a word \<Rightarrow> ('e, 'a word) outcome" where
  "padd a b = unwrap (checked_add a b)"

definition psub :: "'a::len word \<Rightarrow> 'a word \<Rightarrow> ('e, 'a word) outcome" where
  "psub a b = unwrap (checked_sub a b)"

definition pmul :: "'a::len word \<Rightarrow> 'a word \<Rightarrow> ('e, 'a word) outcome" where
  "pmul a b = unwrap (checked_mul a b)"

fun fold_result :: "('s \<Rightarrow> 'x \<Rightarrow> 'e + 's) \<Rightarrow> 's \<Rightarrow> 'x list \<Rightarrow> 'e + 's" where
  "fold_result f s [] = Inr s"
| "fold_result f s (x # xs) = bindR (f s x) (\<lambda>s'. fold_result f s' xs)"

text \<open>The sum of an iterator of integers; the additions are checked.\<close>

definition psum :: "'a::len word list \<Rightarrow> ('e, 'a word) outcome" where
  "psum xs = fold_result padd 0 xs"

lemma bindR_simps [simp, result_simps]:
  "bindR (Inl e) f = Inl e"
  "bindR (Inr x) f = f x"
  by (simp_all add: bindR_def)

lemma bindR_eq_Inr [result_simps]: "bindR m f = Inr y \<longleftrightarrow> (\<exists>x. m = Inr x \<and> f x = Inr y)"
  by (cases m) auto

lemma bindR_eq_Inl [result_simps]:
  "bindR m f = Inl e \<longleftrightarrow> m = Inl e \<or> (\<exists>x. m = Inr x \<and> f x = Inl e)"
  by (cases m) auto

lemma map_err_simps [simp, result_simps]:
  "map_err g (Inl e) = Inl (g e)"
  "map_err g (Inr x) = Inr x"
  by (simp_all add: map_err_def)

lemma map_err_eq [result_simps]:
  "map_err g m = Inr y \<longleftrightarrow> m = Inr y"
  "map_err g m = Inl e \<longleftrightarrow> (\<exists>e'. m = Inl e' \<and> e = g e')"
  by (cases m; auto)+

lemma ok_or_simps [simp, result_simps]:
  "ok_or e None = Inl e"
  "ok_or e (Some x) = Inr x"
  by (simp_all add: ok_or_def)

lemma ok_or_eq [result_simps]:
  "ok_or e m = Inr y \<longleftrightarrow> m = Some y"
  "ok_or e m = Inl e' \<longleftrightarrow> m = None \<and> e' = e"
  by (cases m; auto)+

lemma unwrap_eq [result_simps]:
  "unwrap m = Inr y \<longleftrightarrow> m = Some y"
  "unwrap m = Inl e \<longleftrightarrow> m = None \<and> e = Panic"
  by (auto simp: unwrap_def ok_or_eq)

lemma unwrapR_eq [result_simps]:
  "unwrapR m = Inr y \<longleftrightarrow> m = Inr y"
  "unwrapR m = Inl e \<longleftrightarrow> (\<exists>e'. m = Inl e') \<and> e = Panic"
  by (auto simp: unwrapR_def split: sum.splits)

lemma guardR_eq [result_simps]:
  "guardR c e = Inr u \<longleftrightarrow> c"
  "guardR c e = Inl e' \<longleftrightarrow> \<not> c \<and> e' = e"
  by (auto simp: guardR_def)

lemma guardR_simps [simp]: "guardR True e = Inr ()" "guardR False e = Inl e"
  by (simp_all add: guardR_def)

lemma is_ok_simps [simp]: "is_ok (Inr x)" "\<not> is_ok (Inl e)"
  by (simp_all add: is_ok_def)

lemma is_ok_iff: "is_ok m \<longleftrightarrow> (\<exists>x. m = Inr x)"
  by (cases m) auto

lemma padd_eq [result_simps]:
  fixes a b c :: "'a::len word"
  shows "padd a b = Inr c \<longleftrightarrow> unat a + unat b < 2 ^ LENGTH('a) \<and> unat c = unat a + unat b"
    and "padd a b = Inl e \<longleftrightarrow> 2 ^ LENGTH('a) \<le> unat a + unat b \<and> e = Panic"
  by (auto simp: padd_def unwrap_eq checked_add_eq_Some checked_add_eq_None)

lemma padd_ok:
  fixes a b :: "'a::len word"
  shows "unat a + unat b < 2 ^ LENGTH('a) \<Longrightarrow> padd a b = Inr (a + b)"
  by (simp add: padd_eq unat_add_no_overflow)

lemma psub_eq [result_simps]:
  fixes a b c :: "'a::len word"
  shows "psub a b = Inr c \<longleftrightarrow> b \<le> a \<and> c = a - b"
    and "psub a b = Inl e \<longleftrightarrow> a < b \<and> e = Panic"
  by (auto simp: psub_def unwrap_eq checked_sub_def not_le split: if_splits)

lemma pmul_eq [result_simps]:
  fixes a b c :: "'a::len word"
  shows "pmul a b = Inr c \<longleftrightarrow> unat a * unat b < 2 ^ LENGTH('a) \<and> unat c = unat a * unat b"
    and "pmul a b = Inl e \<longleftrightarrow> 2 ^ LENGTH('a) \<le> unat a * unat b \<and> e = Panic"
  by (auto simp: pmul_def unwrap_eq checked_mul_eq_Some checked_mul_eq_None)

text \<open>\<open>holds P r\<close>: the computation does not panic, and if it succeeds its result satisfies \<open>P\<close>.\<close>

definition holds :: "('a \<Rightarrow> bool) \<Rightarrow> ('e, 'a) outcome \<Rightarrow> bool" where
  "holds P r \<longleftrightarrow> r \<noteq> Inl Panic \<and> (\<forall>x. r = Inr x \<longrightarrow> P x)"

lemma holds_simps [simp]:
  "holds P (Inr x) \<longleftrightarrow> P x"
  "holds P (Inl (Err e))"
  "\<not> holds P (Inl Panic)"
  by (simp_all add: holds_def)

lemma holds_bindR [simp]: "holds P (bindR m f) \<longleftrightarrow> holds (\<lambda>x. holds P (f x)) m"
  by (cases m) (auto simp: holds_def)

lemma holds_map_err [simp]: "holds P (map_err Err m) \<longleftrightarrow> (\<forall>x. m = Inr x \<longrightarrow> P x)"
  by (cases m) auto

lemma holds_mono: "holds P m \<Longrightarrow> (\<And>x. P x \<Longrightarrow> Q x) \<Longrightarrow> holds Q m"
  by (auto simp: holds_def)

lemma holds_Inr: "holds P m \<Longrightarrow> m = Inr x \<Longrightarrow> P x"
  by (simp add: holds_def)

lemma holds_bindI: "holds P m \<Longrightarrow> (\<And>x. P x \<Longrightarrow> holds Q (f x)) \<Longrightarrow> holds Q (bindR m f)"
  by (simp add: holds_mono)

lemma holds_fold_result: "(\<And>s x. P s \<Longrightarrow> holds P (f s x)) \<Longrightarrow> P s \<Longrightarrow> holds P (fold_result f s xs)"
proof (induction xs arbitrary: s)
  case (Cons x xs)
  show ?case unfolding fold_result.simps holds_bindR by (rule holds_mono [OF Cons.prems(1) [OF Cons.prems(2)]]) (use Cons in blast)
qed simp

lemma fold_result_append [result_simps]:
  "fold_result f s (xs @ ys) = bindR (fold_result f s xs) (\<lambda>s'. fold_result f s' ys)"
proof (induction xs arbitrary: s)
  case Nil
  then show ?case by simp
next
  case (Cons x xs)
  then show ?case by (cases "f s x") simp_all
qed

text \<open>The loop rule: an invariant of the state and of what is left of the list.\<close>

lemma fold_result_invariant [consumes 2, case_names step]:
  assumes "fold_result f s xs = Inr s'" and "I s xs"
    and "\<And>s x xs s'. I s (x # xs) \<Longrightarrow> f s x = Inr s' \<Longrightarrow> I s' xs"
  shows "I s' []"
  using assms(1,2)
proof (induction xs arbitrary: s)
  case Nil
  then show ?case by simp
next
  case (Cons x xs)
  then obtain t where "f s x = Inr t" "fold_result f t xs = Inr s'"
    by (auto simp: bindR_eq_Inr)
  with Cons.IH Cons.prems(2) assms(3) show ?case by blast
qed

lemma fold_result_ok [case_names step inv]:
  assumes "\<And>s x ys. I s (x # ys) \<Longrightarrow> \<exists>s'. f s x = Inr s' \<and> I s' ys" and "I s xs"
  shows "\<exists>s'. fold_result f s xs = Inr s' \<and> I s' []"
  using assms(2)
proof (induction xs arbitrary: s)
  case Nil
  then show ?case by simp
next
  case (Cons x xs)
  from assms(1) [OF Cons.prems] obtain t where "f s x = Inr t" "I t xs" by blast
  with Cons.IH show ?case by auto
qed

lemma psum_Inr:
  fixes xs :: "'a::len word list"
  shows "(psum xs :: ('e, 'a word) outcome) = Inr c \<longleftrightarrow>
    sum_list (map unat xs) < 2 ^ LENGTH('a) \<and> unat c = sum_list (map unat xs)"
proof -
  have "(fold_result padd s xs :: ('e, 'a word) outcome) = Inr c \<longleftrightarrow>
      unat s + sum_list (map unat xs) < 2 ^ LENGTH('a) \<and> unat c = unat s + sum_list (map unat xs)" for s
  proof (induction xs arbitrary: s)
    case Nil
    have "unat s < 2 ^ LENGTH('a)" by (rule unat_less_two_power)
    then show ?case by (auto simp: word_unat_eq_iff)
  next
    case (Cons x xs)
    show ?case
    proof (cases "unat s + unat x < 2 ^ LENGTH('a)")
      case True
      then have "(padd s x :: ('e, 'a word) outcome) = Inr (s + x)" by (rule padd_ok)
      with Cons.IH [of "s + x"] True show ?thesis
        by (simp add: unat_add_no_overflow add.assoc)
    next
      case False
      then have "(padd s x :: ('e, 'a word) outcome) = Inl Panic"
        by (simp add: padd_eq)
      with False show ?thesis by simp
    qed
  qed
  from this [of 0] show ?thesis by (simp add: psum_def)
qed

lemma psum_Inl:
  fixes xs :: "'a::len word list"
  shows "(psum xs :: ('e, 'a word) outcome) = Inl e \<longleftrightarrow>
    2 ^ LENGTH('a) \<le> sum_list (map unat xs) \<and> e = Panic"
proof (cases "(psum xs :: ('e, 'a word) outcome)")
  case (Inl e')
  have "e' = Panic"
    using Inl unfolding psum_def
  proof (induction xs arbitrary: e' rule: rev_induct)
    case Nil
    then show ?case by simp
  next
    case (snoc x xs)
    then show ?case by (auto simp: fold_result_append bindR_eq_Inl padd_eq)
  qed
  moreover have "2 ^ LENGTH('a) \<le> sum_list (map unat xs)"
  proof (rule ccontr)
    assume "\<not> ?thesis"
    then have "(psum xs :: ('e, 'a word) outcome) = Inr (of_nat (sum_list (map unat xs)))"
      by (simp add: psum_Inr unat_of_nat)
    with Inl show False by simp
  qed
  ultimately show ?thesis using Inl by auto
next
  case (Inr c)
  then have "sum_list (map unat xs) < 2 ^ LENGTH('a)" by (simp add: psum_Inr)
  with Inr show ?thesis by auto
qed

section \<open>Little-endian bytes\<close>

text \<open>\<^verbatim>\<open>to_le_bytes\<close> and \<^verbatim>\<open>from_le_bytes\<close> of the unsigned integers: \<open>n\<close> bytes, least
  significant first.\<close>

fun le_bytes :: "nat \<Rightarrow> nat \<Rightarrow> bytes" where
  "le_bytes 0 v = []"
| "le_bytes (Suc n) v = of_nat (v mod 256) # le_bytes n (v div 256)"

fun from_le_bytes :: "bytes \<Rightarrow> nat" where
  "from_le_bytes [] = 0"
| "from_le_bytes (b # bs) = unat b + 256 * from_le_bytes bs"

definition u16_to_le_bytes :: "u16 \<Rightarrow> bytes" where "u16_to_le_bytes w = le_bytes 2 (unat w)"
definition u32_to_le_bytes :: "u32 \<Rightarrow> bytes" where "u32_to_le_bytes w = le_bytes 4 (unat w)"
definition u64_to_le_bytes :: "u64 \<Rightarrow> bytes" where "u64_to_le_bytes w = le_bytes 8 (unat w)"
definition u16_from_le_bytes :: "bytes \<Rightarrow> u16" where "u16_from_le_bytes bs = of_nat (from_le_bytes bs)"
definition u64_from_le_bytes :: "bytes \<Rightarrow> u64" where "u64_from_le_bytes bs = of_nat (from_le_bytes bs)"

lemma length_le_bytes [simp]: "length (le_bytes n v) = n"
  by (induction n arbitrary: v) auto

lemma length_to_le_bytes [simp]:
  "length (u16_to_le_bytes a) = 2" "length (u32_to_le_bytes b) = 4" "length (u64_to_le_bytes c) = 8"
  by (simp_all add: u16_to_le_bytes_def u32_to_le_bytes_def u64_to_le_bytes_def)

lemma from_le_bytes_le_bytes: "from_le_bytes (le_bytes n v) = v mod 256 ^ n"
proof (induction n arbitrary: v)
  case 0
  then show ?case by simp
next
  case (Suc n)
  have "unat (of_nat (v mod 256) :: u8) = v mod 256" by (simp add: unat_of_nat)
  with Suc show ?case by (simp add: mod_mult2_eq)
qed

lemma from_to_le_bytes [simp]:
  "u16_from_le_bytes (u16_to_le_bytes a) = a"
  "u64_from_le_bytes (u64_to_le_bytes c) = c"
proof -
  have "unat a mod 256 ^ 2 = unat a" using unat_less_two_power [of a] by simp
  then show "u16_from_le_bytes (u16_to_le_bytes a) = a"
    by (simp add: u16_from_le_bytes_def u16_to_le_bytes_def from_le_bytes_le_bytes)
  have "unat c mod 256 ^ 8 = unat c" using unat_less_two_power [of c] by simp
  then show "u64_from_le_bytes (u64_to_le_bytes c) = c"
    by (simp add: u64_from_le_bytes_def u64_to_le_bytes_def from_le_bytes_le_bytes)
qed

lemma from_le_bytes_less: "from_le_bytes bs < 256 ^ length bs"
proof (induction bs)
  case (Cons b bs)
  have "unat b < 256" using unat_less_two_power [of b] by simp
  with Cons show ?case by simp
qed simp

lemma le_bytes_from_le_bytes: "le_bytes (length bs) (from_le_bytes bs) = bs"
proof (induction bs)
  case (Cons b bs)
  have "unat b < 256" using unat_less_two_power [of b] by simp
  with Cons show ?case by simp
qed simp

lemma to_from_le_bytes:
  "length bs = 8 \<Longrightarrow> u64_to_le_bytes (u64_from_le_bytes bs) = bs"
  "length bs = 2 \<Longrightarrow> u16_to_le_bytes (u16_from_le_bytes bs) = bs"
  using from_le_bytes_less [of bs] le_bytes_from_le_bytes [of bs]
  by (simp_all add: u64_to_le_bytes_def u64_from_le_bytes_def u16_to_le_bytes_def u16_from_le_bytes_def unat_of_nat)

lemma from_le_bytes_append: "from_le_bytes (xs @ ys) = from_le_bytes xs + 256 ^ length xs * from_le_bytes ys"
  by (induction xs) (simp_all add: algebra_simps)

lemma from_le_bytes_zeros [simp]: "from_le_bytes (replicate k 0) = 0"
  by (induction k) simp_all

lemma u16_to_le_bytes_inject [simp]: "u16_to_le_bytes a = u16_to_le_bytes b \<longleftrightarrow> a = b"
  by (metis from_to_le_bytes(1))

lemma u64_to_le_bytes_inject [simp]: "u64_to_le_bytes a = u64_to_le_bytes b \<longleftrightarrow> a = b"
  by (metis from_to_le_bytes(2))

lemma u32_to_le_bytes_inject [simp]: "u32_to_le_bytes a = u32_to_le_bytes b \<longleftrightarrow> a = b"
proof
  assume "u32_to_le_bytes a = u32_to_le_bytes b"
  then have "unat a mod 256 ^ 4 = unat b mod 256 ^ 4"
    by (metis from_le_bytes_le_bytes u32_to_le_bytes_def)
  then show "a = b" using unat_less_two_power [of a] unat_less_two_power [of b]
    by (simp add: word_unat_eq_iff)
qed simp

section \<open>Hash maps\<close>

type_synonym ('k, 'v) hash_map = "('k \<times> 'v) list"

definition hm_get :: "('k, 'v) hash_map \<Rightarrow> 'k \<Rightarrow> 'v option" where
  "hm_get m k = map_of m k"

definition hm_contains :: "('k, 'v) hash_map \<Rightarrow> 'k \<Rightarrow> bool" where
  "hm_contains m k = (hm_get m k \<noteq> None)"

definition hm_insert :: "'k \<Rightarrow> 'v \<Rightarrow> ('k, 'v) hash_map \<Rightarrow> ('k, 'v) hash_map" where
  "hm_insert k v m = AList.update k v m"

definition hm_remove :: "'k \<Rightarrow> ('k, 'v) hash_map \<Rightarrow> ('k, 'v) hash_map" where
  "hm_remove k m = AList.delete k m"

definition hm_keys :: "('k, 'v) hash_map \<Rightarrow> 'k list" where
  "hm_keys m = map fst m"

definition hm_wf :: "('k, 'v) hash_map \<Rightarrow> bool" where
  "hm_wf m = distinct (map fst m)"

lemma hm_get_Nil [simp, hm_simps]: "hm_get [] k = None"
  by (simp add: hm_get_def)

lemma hm_get_insert [simp, hm_simps]: "hm_get (hm_insert k v m) = (hm_get m)(k \<mapsto> v)"
  by (rule ext) (simp add: hm_get_def hm_insert_def update_conv')

lemma hm_get_remove [simp, hm_simps]: "hm_get (hm_remove k m) = (hm_get m)(k := None)"
  by (rule ext) (simp add: hm_get_def hm_remove_def delete_conv')

lemma hm_contains_iff [simp, hm_simps]: "hm_contains m k \<longleftrightarrow> hm_get m k \<noteq> None"
  by (auto simp: hm_contains_def hm_get_def)

lemma set_hm_keys [simp, hm_simps]: "set (hm_keys m) = dom (hm_get m)"
  unfolding hm_keys_def hm_get_def [abs_def] by (simp add: dom_map_of_conv_image_fst)

lemma hm_wf_Nil [simp]: "hm_wf []"
  by (simp add: hm_wf_def)

lemma hm_wf_insert [simp, intro]: "hm_wf m \<Longrightarrow> hm_wf (hm_insert k v m)"
  by (simp add: hm_wf_def hm_insert_def distinct_update)

lemma hm_wf_remove [simp, intro]: "hm_wf m \<Longrightarrow> hm_wf (hm_remove k m)"
  by (simp add: hm_wf_def hm_remove_def distinct_delete)

lemma hm_get_in_set: "hm_wf m \<Longrightarrow> hm_get m k = Some v \<longleftrightarrow> (k, v) \<in> set m"
  by (simp add: hm_wf_def hm_get_def)

lemma finite_dom_hm_get [simp, intro]: "finite (dom (hm_get m))"
  unfolding hm_get_def [abs_def] by (rule finite_dom_map_of)

text \<open>\<^verbatim>\<open>HashSet::insert\<close> in a loop that stops at the first repeated element.\<close>

fun first_dup :: "'a set \<Rightarrow> 'a list \<Rightarrow> 'a option" where
  "first_dup seen [] = None"
| "first_dup seen (x # xs) = (if x \<in> seen then Some x else first_dup (insert x seen) xs)"

lemma first_dup_None: "first_dup seen xs = None \<longleftrightarrow> distinct xs \<and> set xs \<inter> seen = {}"
  by (induction xs arbitrary: seen) auto

lemma first_dup_Some: "first_dup seen xs = Some x \<Longrightarrow> x \<in> set xs \<and> (x \<in> seen \<or> \<not> distinct xs)"
  by (induction xs arbitrary: seen) (auto split: if_splits)

section \<open>Sums over finite maps\<close>

text \<open>The total of a weight over the values of a finite map: the value held by a UTXO set or
  by the note pool.\<close>

definition total_value :: "('v \<Rightarrow> nat) \<Rightarrow> ('k \<rightharpoonup> 'v) \<Rightarrow> nat" where
  "total_value w m = (\<Sum>k \<in> dom m. w (the (m k)))"

lemma total_value_empty [simp]: "total_value w Map.empty = 0"
  by (simp add: total_value_def)

lemma total_value_upd:
  assumes "finite (dom m)" and "m k = None"
  shows "total_value w (m(k \<mapsto> v)) = w v + total_value w m"
proof -
  have "(\<Sum>x \<in> dom m. w (the ((m(k \<mapsto> v)) x))) = (\<Sum>x \<in> dom m. w (the (m x)))"
    using assms(2) by (intro sum.cong) auto
  with assms show ?thesis by (simp add: total_value_def domIff)
qed

lemma total_value_del:
  assumes "finite (dom m)" and "m k = Some v"
  shows "total_value w m = w v + total_value w (m(k := None))"
proof -
  have "m = (m(k := None))(k \<mapsto> v)" using assms(2) by auto
  then have "total_value w m = total_value w ((m(k := None))(k \<mapsto> v))" by simp
  also have "\<dots> = w v + total_value w (m(k := None))"
    using assms(1) by (intro total_value_upd) auto
  finally show ?thesis .
qed

lemma total_value_hm_get:
  assumes "hm_wf m"
  shows "total_value w (hm_get m) = sum_list (map (\<lambda>(k, v). w v) m)"
  using assms
proof (induction m)
  case Nil
  then have "hm_get ([] :: ('a, 'b) hash_map) = Map.empty" by (auto simp: hm_get_def)
  then show ?case by simp
next
  case (Cons p m)
  obtain k v where p: "p = (k, v)" by (cases p)
  from Cons.prems p have wf: "hm_wf m" and "k \<notin> fst ` set m" by (auto simp: hm_wf_def)
  then have "hm_get m k = None" by (simp add: hm_get_def map_of_eq_None_iff)
  then have "total_value w ((hm_get m)(k \<mapsto> v)) = w v + total_value w (hm_get m)"
    by (intro total_value_upd) auto
  moreover have "hm_get (p # m) = (hm_get m)(k \<mapsto> v)" by (rule ext) (simp add: hm_get_def p)
  ultimately show ?case using Cons.IH [OF wf] p by (simp del: fun_upd_apply)
qed

lemma total_value_restrict:
  assumes "finite (dom m)" and "distinct ks" and "\<forall>k \<in> set ks. m k \<noteq> None"
  shows "total_value w m = sum_list (map (\<lambda>k. w (the (m k))) ks) + total_value w (m |` (- set ks))"
  using assms
proof (induction ks)
  case (Cons k ks)
  then obtain v where "m k = Some v" "k \<notin> set ks" by auto
  then have "(m |` (- set ks)) k = Some v" by (simp add: restrict_map_def)
  moreover have "finite (dom (m |` (- set ks)))" using Cons.prems(1) by simp
  ultimately have "total_value w (m |` (- set ks)) = w v + total_value w ((m |` (- set ks))(k := None))"
    by (intro total_value_del)
  moreover have "(m |` (- set ks))(k := None) = m |` (- set (k # ks))"
    by (auto simp: restrict_map_def)
  ultimately show ?case using Cons \<open>m k = Some v\<close> by simp
qed (simp add: restrict_map_def)

lemma total_value_map_add:
  assumes "finite (dom m)" and "distinct (map fst xs)" and "\<forall>(k, v) \<in> set xs. m k = None"
  shows "total_value w (m ++ map_of xs) = sum_list (map (\<lambda>(k, v). w v) xs) + total_value w m"
  using assms
proof (induction xs)
  case (Cons x xs)
  obtain k v where x: "x = (k, v)" by fastforce
  have "(m ++ map_of xs) k = None"
    using Cons.prems(2,3) by (auto simp: x map_add_None map_of_eq_None_iff)
  moreover have "finite (dom (m ++ map_of xs))" using Cons.prems(1) by (simp add: finite_dom_map_of)
  ultimately have "total_value w ((m ++ map_of xs)(k \<mapsto> v)) = w v + total_value w (m ++ map_of xs)"
    by (intro total_value_upd)
  moreover have "m ++ map_of (x # xs) = (m ++ map_of xs)(k \<mapsto> v)" by (simp add: x)
  ultimately show ?case using Cons by (simp add: x del: fun_upd_apply map_of.simps)
qed simp

end
