(* ===== verification/Pool_Types.thy ===== *)
theory Pool_Types
  imports Prelude
begin

text \<open>
  The data of the note pool: \<^verbatim>\<open>src/consensus/core/src/notepool/mod.rs\<close> and the error types
  of \<^verbatim>\<open>src/consensus/core/src/errors/notepool.rs\<close>.  A 32-byte array, a 64-byte array and
  a hash are byte lists; where a statement needs the length, it says so.  Decoding a
  payload is the borsh crate's derived code, so the components that decode take the
  decoder as an argument.
\<close>

type_synonym hash = bytes

section \<open>Denominations\<close>

datatype DenominationTag = D0_01 | D0_1 | D1 | D10 | D100 | D1000 | D10000 | D100000

definition DENOMINATION_PETALS :: "u64 list" where
  "DENOMINATION_PETALS =
     [1000000, 10000000, 100000000, 1000000000, 10000000000, 100000000000,
      1000000000000, 10000000000000]"

text \<open>\<^verbatim>\<open>self as usize\<close> of the fieldless enum.\<close>

fun tag_index :: "DenominationTag \<Rightarrow> nat" where
  "tag_index D0_01 = 0"
| "tag_index D0_1 = 1"
| "tag_index D1 = 2"
| "tag_index D10 = 3"
| "tag_index D100 = 4"
| "tag_index D1000 = 5"
| "tag_index D10000 = 6"
| "tag_index D100000 = 7"

definition tag_byte :: "DenominationTag \<Rightarrow> u8" where
  "tag_byte d = of_nat (tag_index d)"

definition petals :: "DenominationTag \<Rightarrow> u64" where
  "petals d = DENOMINATION_PETALS ! tag_index d"

definition DenominationTag_try_from :: "u8 \<Rightarrow> unit + DenominationTag" where
  "DenominationTag_try_from v =
     (if v = 0 then Inr D0_01
      else if v = 1 then Inr D0_1
      else if v = 2 then Inr D1
      else if v = 3 then Inr D10
      else if v = 4 then Inr D100
      else if v = 5 then Inr D1000
      else if v = 6 then Inr D10000
      else if v = 7 then Inr D100000
      else Inl ())"

record PoolStats =
  stat_counts :: "u64 list"

definition total_notes :: "PoolStats \<Rightarrow> ('e, u64) outcome" where
  "total_notes st = psum (stat_counts st)"

section \<open>Notes, locks and entries\<close>

record Note =
  note_d :: DenominationTag
  note_pk :: bytes
  note_sn :: hash

record NewNote =
  nn_d :: DenominationTag
  nn_pk :: bytes

record NoteLock =
  refund_pk :: bytes
  until_daa :: u64

record PoolEntry =
  entry_note :: NewNote
  entry_lock :: "NoteLock option"

definition unlocked :: "NewNote \<Rightarrow> PoolEntry" where
  "unlocked n = \<lparr>entry_note = n, entry_lock = None\<rparr>"

definition locked :: "NewNote \<Rightarrow> NoteLock \<Rightarrow> PoolEntry" where
  "locked n l = \<lparr>entry_note = n, entry_lock = Some l\<rparr>"

definition entry_d :: "PoolEntry \<Rightarrow> DenominationTag" where
  "entry_d e = nn_d (entry_note e)"

definition entry_pk :: "PoolEntry \<Rightarrow> bytes" where
  "entry_pk e = nn_pk (entry_note e)"

definition spending_pk :: "PoolEntry \<Rightarrow> u64 \<Rightarrow> bytes" where
  "spending_pk e pov_daa_score =
     (case entry_lock e of
        Some l \<Rightarrow> if until_daa l \<le> pov_daa_score then refund_pk l else nn_pk (entry_note e)
      | None \<Rightarrow> nn_pk (entry_note e))"

record ProducedLock =
  lock_index :: u32
  lock_lock :: NoteLock

section \<open>Operations\<close>

record SignedGroup =
  serials :: "hash list"
  signature :: bytes

record FreshnessAnchor =
  anchor_daa_score :: u64

record MintOp =
  new_notes :: "NewNote list"

record TransferOp =
  t_consumed :: "SignedGroup list"
  t_produced :: "NewNote list"
  t_freshness :: FreshnessAnchor

record TransferLockedOp =
  tl_consumed :: "SignedGroup list"
  tl_produced :: "NewNote list"
  tl_locks :: "ProducedLock list"
  tl_freshness :: FreshnessAnchor

record RedeemOp =
  r_consumed :: "SignedGroup list"
  r_freshness :: FreshnessAnchor

datatype PoolOp =
    Mint MintOp
  | Transfer TransferOp
  | Redeem RedeemOp
  | TransferLocked TransferLockedOp

definition set_entry_lock :: "PoolEntry list \<Rightarrow> ProducedLock \<Rightarrow> PoolEntry list" where
  "set_entry_lock es l =
     (let i = unat (lock_index l) in
      if i < length es then es[i := (es ! i)\<lparr>entry_lock := Some (lock_lock l)\<rparr>] else es)"

definition produced_entries :: "TransferLockedOp \<Rightarrow> PoolEntry list" where
  "produced_entries op = foldl set_entry_lock (map unlocked (tl_produced op)) (tl_locks op)"

fun op_type :: "PoolOp \<Rightarrow> u8" where
  "op_type (Mint _) = 0"
| "op_type (Transfer _) = 1"
| "op_type (Redeem _) = 2"
| "op_type (TransferLocked _) = 3"

definition group_serials :: "SignedGroup list \<Rightarrow> hash list" where
  "group_serials gs = concat (map serials gs)"

fun consumed_serials :: "PoolOp \<Rightarrow> hash list" where
  "consumed_serials (Mint _) = []"
| "consumed_serials (Transfer op) = group_serials (t_consumed op)"
| "consumed_serials (Redeem op) = group_serials (r_consumed op)"
| "consumed_serials (TransferLocked op) = group_serials (tl_consumed op)"

section \<open>Errors\<close>

datatype PoolOpValidationError =
    EmptyCollection string
  | TooManyItems nat string nat
  | EmptySignedGroup nat
  | DuplicateSerial hash
  | LockIndexOutOfRange u32 nat
  | LockIndicesNotAscending

datatype PoolAlgebraError =
    DuplicateAdd hash
  | DuplicateRemove hash

datatype PoolOpContextError =
    MalformedPayload
  | SerialNotFound hash
  | SerialAlreadyExists hash
  | MixedKeysInGroup nat
  | BadPublicKey nat
  | BadSignature nat
  | AnchorInFuture u64 u64
  | StaleAnchor u64 u64 u64
  | InsufficientConsumedValue u64 u64
  | LocksNotActive u64
  | Algebra PoolAlgebraError

section \<open>Lemmas\<close>

lemma tag_index_less: "tag_index d < length DENOMINATION_PETALS"
  by (cases d) (simp_all add: DENOMINATION_PETALS_def)

lemma tag_index_inject: "tag_index d = tag_index d' \<longleftrightarrow> d = d'"
  by (cases d; cases d') simp_all

lemma tag_byte_inject [simp]: "tag_byte d = tag_byte d' \<longleftrightarrow> d = d'"
  by (cases d; cases d') (simp_all add: tag_byte_def)

text \<open>The ladder is a factor ten per step, from a million petals.\<close>

lemma unat_petals: "unat (petals d) = 10 ^ (tag_index d + 6)"
  by (cases d) (simp_all add: petals_def DENOMINATION_PETALS_def)

lemma petals_bounds: "0 < unat (petals d)" "unat (petals d) \<le> 10 ^ 13"
proof -
  have "tag_index d + 6 \<le> 13" by (cases d) simp_all
  then show "unat (petals d) \<le> 10 ^ 13"
    unfolding unat_petals by (rule power_increasing) simp
qed (simp add: unat_petals)

lemma try_from_tag_byte: "DenominationTag_try_from (tag_byte d) = Inr d"
  by (cases d) (simp_all add: DenominationTag_try_from_def tag_byte_def)

lemma try_from_Inr: "DenominationTag_try_from v = Inr d \<longleftrightarrow> v = tag_byte d"
proof
  assume "DenominationTag_try_from v = Inr d"
  then show "v = tag_byte d"
    by (auto simp: DenominationTag_try_from_def tag_byte_def split: if_splits)
qed (simp add: try_from_tag_byte)

lemma entry_note_unlocked [simp]:
  "entry_note (unlocked n) = n" "entry_lock (unlocked n) = None"
  "entry_note (locked n l) = n" "entry_lock (locked n l) = Some l"
  by (simp_all add: unlocked_def locked_def)

lemma length_set_entry_lock [simp]: "length (set_entry_lock es l) = length es"
  by (simp add: set_entry_lock_def Let_def)

lemma length_foldl_set_entry_lock [simp]:
  "length (foldl set_entry_lock es ls) = length es"
  by (induction ls arbitrary: es) simp_all

lemma map_note_set_entry_lock [simp]: "map entry_note (set_entry_lock es l) = map entry_note es"
  by (auto simp: set_entry_lock_def Let_def nth_list_update intro!: nth_equalityI)

lemma map_note_foldl_set_entry_lock [simp]:
  "map entry_note (foldl set_entry_lock es ls) = map entry_note es"
  by (induction ls arbitrary: es) simp_all

text \<open>Joining the locks changes no note: only the lock field of an entry is written.\<close>

lemma map_note_produced_entries: "map entry_note (produced_entries op) = tl_produced op"
  by (simp add: produced_entries_def comp_def)

text \<open>With the canonical lock list (pairwise different indices in range), entry \<open>i\<close> carries
  the lock naming it, and no lock when none does.\<close>

lemma foldl_set_entry_lock_nth:
  assumes "distinct (map lock_index ls)" and "i < length es"
    and "\<forall>l \<in> set ls. unat (lock_index l) < length es"
  shows "foldl set_entry_lock es ls ! i =
    (case find (\<lambda>l. unat (lock_index l) = i) ls of
       None \<Rightarrow> es ! i | Some l \<Rightarrow> (es ! i)\<lparr>entry_lock := Some (lock_lock l)\<rparr>)"
  using assms
proof (induction ls arbitrary: es)
  case Nil
  then show ?case by simp
next
  case (Cons l ls)
  let ?es = "set_entry_lock es l"
  have IH: "foldl set_entry_lock ?es ls ! i =
      (case find (\<lambda>l. unat (lock_index l) = i) ls of
         None \<Rightarrow> ?es ! i | Some l \<Rightarrow> (?es ! i)\<lparr>entry_lock := Some (lock_lock l)\<rparr>)"
    using Cons by (intro Cons.IH) auto
  show ?case
  proof (cases "unat (lock_index l) = i")
    case True
    have "find (\<lambda>l. unat (lock_index l) = i) ls = None"
      unfolding find_None_iff
    proof
      assume "\<exists>x. x \<in> set ls \<and> unat (lock_index x) = i"
      then obtain x where "x \<in> set ls" "lock_index x = lock_index l"
        using True by (metis word_unat_eq_iff)
      with Cons.prems(1) show False by (metis distinct.simps(2) image_eqI list.map(2) list.set_map)
    qed
    moreover have "?es ! i = (es ! i)\<lparr>entry_lock := Some (lock_lock l)\<rparr>"
      using True Cons.prems(2) by (simp add: set_entry_lock_def)
    ultimately show ?thesis using IH True by simp
  next
    case False
    then have "?es ! i = es ! i" by (simp add: set_entry_lock_def Let_def)
    with IH False show ?thesis by (simp split: option.split)
  qed
qed

lemma spending_pk_monotone:
  assumes "spending_pk e s \<noteq> nn_pk (entry_note e)" and "s \<le> s'"
  shows "spending_pk e s' = spending_pk e s"
  using assms by (auto simp: spending_pk_def split: option.splits if_splits)

end
