(* ===== verification/Tx_Types.thy ===== *)
theory Tx_Types
  imports Pool_Types
begin

text \<open>
  Transactions and their constants: \<^verbatim>\<open>src/consensus/core/src/tx.rs\<close>,
  \<^verbatim>\<open>src/consensus/core/src/utxo/utxo_entry.rs\<close>, \<^verbatim>\<open>src/consensus/core/src/subnets.rs\<close>,
  \<^verbatim>\<open>src/consensus/core/src/constants.rs\<close> and \<^verbatim>\<open>src/consensus/core/src/mass/units.rs\<close>.
  A transaction carries its cached id; computing it is the hasher's.
\<close>

section \<open>Constants\<close>

definition TX_VERSION :: u16 where "TX_VERSION = 0"
definition TX_VERSION_TOCCATA :: u16 where "TX_VERSION_TOCCATA = 1"
definition LOCK_TIME_THRESHOLD :: u64 where "LOCK_TIME_THRESHOLD = 500000000000"
definition MAX_SCRIPT_PUBLIC_KEY_VERSION :: u16 where "MAX_SCRIPT_PUBLIC_KEY_VERSION = 0"
definition SOMPI_PER_KASPA :: u64 where "SOMPI_PER_KASPA = 100000000"
definition STORAGE_MASS_PARAMETER :: u64 where "STORAGE_MASS_PARAMETER = SOMPI_PER_KASPA * 10000"
definition TRANSIENT_BYTE_TO_MASS_FACTOR :: u64 where "TRANSIENT_BYTE_TO_MASS_FACTOR = 4"
definition MAX_SOMPI :: u64 where "MAX_SOMPI = 210000000 * SOMPI_PER_KASPA"
definition MAX_TX_IN_SEQUENCE_NUM :: u64 where "MAX_TX_IN_SEQUENCE_NUM = - 1"
definition SEQUENCE_LOCK_TIME_MASK :: u64 where "SEQUENCE_LOCK_TIME_MASK = 0xffffffff"
definition SEQUENCE_LOCK_TIME_DISABLED :: u64 where "SEQUENCE_LOCK_TIME_DISABLED = 0x8000000000000000"

section \<open>Subnetworks\<close>

type_synonym SubnetworkId = bytes

definition SUBNETWORK_ID_SIZE :: nat where "SUBNETWORK_ID_SIZE = 20"
definition SUBNETWORK_NAMESPACE_LEN :: nat where "SUBNETWORK_NAMESPACE_LEN = 4"
definition SUBNETWORK_TAG_LEN :: nat where "SUBNETWORK_TAG_LEN = 5"

definition from_byte :: "u8 \<Rightarrow> SubnetworkId" where
  "from_byte b = (replicate SUBNETWORK_ID_SIZE 0)[0 := b]"

definition from_tag :: "bytes \<Rightarrow> SubnetworkId option" where
  "from_tag t =
     (if t = [] \<or> SUBNETWORK_TAG_LEN < length t \<or> (\<forall>b \<in> set t. b = 0) then None
      else Some (t @ replicate (SUBNETWORK_ID_SIZE - length t) 0))"

text \<open>\<^verbatim>\<open>iter().rposition(p)\<close>: the last index whose element satisfies the predicate.\<close>

fun rposition :: "('a \<Rightarrow> bool) \<Rightarrow> 'a list \<Rightarrow> nat option" where
  "rposition p [] = None"
| "rposition p (x # xs) =
     (case rposition p xs of Some i \<Rightarrow> Some (Suc i) | None \<Rightarrow> if p x then Some 0 else None)"

definition subnet_tag :: "SubnetworkId \<Rightarrow> bytes" where
  "subnet_tag s =
     (let stop = (case rposition (\<lambda>b. b \<noteq> 0) (take SUBNETWORK_TAG_LEN s) of
                    Some i \<Rightarrow> i + 1 | None \<Rightarrow> 0)
      in take stop s)"

definition from_namespace :: "bytes \<Rightarrow> SubnetworkId" where
  "from_namespace ns =
     foldl (\<lambda>bs i. bs[i := ns ! i]) (replicate SUBNETWORK_ID_SIZE 0) [0..<SUBNETWORK_NAMESPACE_LEN]"

definition SUBNETWORK_ID_NATIVE :: SubnetworkId where "SUBNETWORK_ID_NATIVE = from_byte 0"
definition SUBNETWORK_ID_COINBASE :: SubnetworkId where "SUBNETWORK_ID_COINBASE = from_byte 1"
definition SUBNETWORK_ID_REGISTRY :: SubnetworkId where "SUBNETWORK_ID_REGISTRY = from_byte 2"
definition SUBNETWORK_ID_NOTE_POOL :: SubnetworkId where
  "SUBNETWORK_ID_NOTE_POOL = from_namespace [0x50, 0x4f, 0x4f, 0x4c]"
definition SUBNETWORK_ID_FINALITY_ANCHOR :: SubnetworkId where
  "SUBNETWORK_ID_FINALITY_ANCHOR = from_namespace [0x41, 0x4e, 0x43, 0x52]"
definition SUBNETWORK_ID_LANE_REGISTRY :: SubnetworkId where
  "SUBNETWORK_ID_LANE_REGISTRY = from_namespace [0x4c, 0x41, 0x4e, 0x45]"

definition is_native :: "SubnetworkId \<Rightarrow> bool" where
  "is_native s \<longleftrightarrow> s = SUBNETWORK_ID_NATIVE"

definition is_builtin :: "SubnetworkId \<Rightarrow> bool" where
  "is_builtin s \<longleftrightarrow> s = SUBNETWORK_ID_COINBASE \<or> s = SUBNETWORK_ID_REGISTRY"

definition is_builtin_or_native :: "SubnetworkId \<Rightarrow> bool" where
  "is_builtin_or_native s \<longleftrightarrow> is_native s \<or> is_builtin s"

section \<open>Script units and compute budgets\<close>

type_synonym ScriptUnits = u64

definition GRAMS_PER_COMPUTE_BUDGET_UNIT :: u64 where "GRAMS_PER_COMPUTE_BUDGET_UNIT = 100"
definition GRAMS_PER_SIGOP_COUNT_UNIT :: u64 where "GRAMS_PER_SIGOP_COUNT_UNIT = 1000"
definition SCRIPT_UNITS_PER_GRAM :: u64 where "SCRIPT_UNITS_PER_GRAM = 100"
definition SCRIPT_UNITS_PER_COMPUTE_BUDGET_UNIT :: u64 where
  "SCRIPT_UNITS_PER_COMPUTE_BUDGET_UNIT = GRAMS_PER_COMPUTE_BUDGET_UNIT * SCRIPT_UNITS_PER_GRAM"
definition SCRIPT_UNITS_PER_SIGOP_COUNT_UNIT :: u64 where
  "SCRIPT_UNITS_PER_SIGOP_COUNT_UNIT = GRAMS_PER_SIGOP_COUNT_UNIT * SCRIPT_UNITS_PER_GRAM"

definition free_script_units_per_input :: ScriptUnits where
  "free_script_units_per_input = saturating_sub SCRIPT_UNITS_PER_COMPUTE_BUDGET_UNIT 1"

text \<open>The products below stay far under \<open>2 ^ 64\<close>, see \<open>script_units_exact\<close>.\<close>

definition SigopCount_script_units :: "u8 \<Rightarrow> ScriptUnits" where
  "SigopCount_script_units n = ucast n * SCRIPT_UNITS_PER_SIGOP_COUNT_UNIT"

definition ComputeBudget_script_units :: "u16 \<Rightarrow> ScriptUnits" where
  "ComputeBudget_script_units n = ucast n * SCRIPT_UNITS_PER_COMPUTE_BUDGET_UNIT"

definition to_grams :: "u16 \<Rightarrow> u64" where
  "to_grams n = ucast n * GRAMS_PER_COMPUTE_BUDGET_UNIT"

definition u16_try_from :: "u64 \<Rightarrow> u16 option" where
  "u16_try_from v = (if v \<le> 65535 then Some (ucast v) else None)"

definition ComputeBudget_try_from :: "ScriptUnits \<Rightarrow> u16 option" where
  "ComputeBudget_try_from units = u16_try_from (div_ceil units SCRIPT_UNITS_PER_COMPUTE_BUDGET_UNIT)"

definition checked_covering_script_units :: "ScriptUnits \<Rightarrow> u16 option" where
  "checked_covering_script_units required =
     ComputeBudget_try_from (saturating_sub required free_script_units_per_input)"

datatype ComputeCommit = SigopCount u8 | ComputeBudget u16

fun sig_op_count :: "ComputeCommit \<Rightarrow> u8 option" where
  "sig_op_count (SigopCount n) = Some n"
| "sig_op_count (ComputeBudget _) = None"

fun compute_budget :: "ComputeCommit \<Rightarrow> u16 option" where
  "compute_budget (ComputeBudget n) = Some n"
| "compute_budget (SigopCount _) = None"

definition version_expects_compute_budget_field :: "u16 \<Rightarrow> bool" where
  "version_expects_compute_budget_field v \<longleftrightarrow> 1 \<le> v"

definition version_expects_sig_op_count_field :: "u16 \<Rightarrow> bool" where
  "version_expects_sig_op_count_field v \<longleftrightarrow> \<not> version_expects_compute_budget_field v"

fun commit_script_units :: "ComputeCommit \<Rightarrow> ScriptUnits" where
  "commit_script_units (SigopCount n) = SigopCount_script_units n"
| "commit_script_units (ComputeBudget n) = ComputeBudget_script_units n"

definition allowed_script_units :: "ComputeCommit \<Rightarrow> ScriptUnits" where
  "allowed_script_units c = saturating_add (commit_script_units c) free_script_units_per_input"

section \<open>Transactions\<close>

definition ZERO_HASH :: hash where "ZERO_HASH = replicate 32 0"

record TransactionOutpoint =
  transaction_id :: hash
  outpoint_index :: u32

record ScriptPublicKey =
  spk_version :: u16
  spk_script :: bytes

record TransactionInput =
  previous_outpoint :: TransactionOutpoint
  signature_script :: bytes
  sequence :: u64
  compute_commit :: ComputeCommit

record CovenantBinding =
  authorizing_input :: u16
  binding_covenant_id :: hash

record TransactionOutput =
  out_value :: u64
  out_spk :: ScriptPublicKey
  covenant :: "CovenantBinding option"

record Transaction =
  version :: u16
  inputs :: "TransactionInput list"
  outputs :: "TransactionOutput list"
  lock_time :: u64
  subnetwork_id :: SubnetworkId
  gas :: u64
  payload :: bytes
  storage_mass :: u64
  tx_id :: hash

record UtxoEntry =
  amount :: u64
  entry_spk :: ScriptPublicKey
  block_daa_score :: u64
  entry_is_coinbase :: bool
  covenant_id :: "hash option"

definition is_coinbase :: "Transaction \<Rightarrow> bool" where
  "is_coinbase t \<longleftrightarrow> subnetwork_id t = SUBNETWORK_ID_COINBASE"

record PopulatedTransaction =
  ptx :: Transaction
  entries :: "UtxoEntry list"

text \<open>\<^verbatim>\<open>PopulatedTransaction::new\<close> asserts one entry per input.\<close>

definition PopulatedTransaction_new :: "Transaction \<Rightarrow> UtxoEntry list \<Rightarrow> ('e, PopulatedTransaction) outcome" where
  "PopulatedTransaction_new t es =
     (if length (inputs t) = length es then Inr \<lparr>ptx = t, entries = es\<rparr> else Inl Panic)"

definition populated_inputs :: "PopulatedTransaction \<Rightarrow> (TransactionInput \<times> UtxoEntry) list" where
  "populated_inputs p = zip (inputs (ptx p)) (entries p)"

section \<open>Genesis covenants\<close>

record GenesisCovenantGroup =
  group_input :: u16
  group_outputs :: "u32 list"

datatype PopulateGenesisCovenantsError =
    EmptyOutputs
  | NoSuchInput nat nat
  | NoSuchOutput u32 nat
  | OutputsNotOrdered
  | OutputsNotDisjoint u32
  | CovenantAlreadyPopulated u32

text \<open>The inner loop of the first phase: marks the outputs of one group as seen.\<close>

definition check_group_output ::
    "TransactionOutput list \<Rightarrow> bool list \<Rightarrow> u32 \<Rightarrow> PopulateGenesisCovenantsError + bool list" where
  "check_group_output outs seen out =
     (if seen ! unat out then Inl (OutputsNotDisjoint out)
      else if covenant (outs ! unat out) \<noteq> None then Inl (CovenantAlreadyPopulated out)
      else Inr (seen[unat out := True]))"

definition check_genesis_group ::
    "Transaction \<Rightarrow> bool list \<Rightarrow> GenesisCovenantGroup \<Rightarrow> PopulateGenesisCovenantsError + bool list" where
  "check_genesis_group t seen g =
     (let auth_input = unat (group_input g); outs = group_outputs g in
      if length (inputs t) \<le> auth_input then Inl (NoSuchInput auth_input (length (inputs t)))
      else if outs = [] then Inl EmptyOutputs
      else if \<not> sorted outs then Inl OutputsNotOrdered
      else if length (outputs t) \<le> unat (last outs) then
        Inl (NoSuchOutput (last outs) (length (outputs t)))
      else fold_result (check_group_output (outputs t)) seen outs)"

text \<open>The second phase; \<open>covenant_id_of\<close> is \<open>hashing::covenant_id\<close>, a hash of the
  outpoint and the authorised outputs.\<close>

definition bind_genesis_group ::
    "(TransactionOutpoint \<Rightarrow> (u32 \<times> TransactionOutput) list \<Rightarrow> hash) \<Rightarrow>
     Transaction \<Rightarrow> GenesisCovenantGroup \<Rightarrow> Transaction" where
  "bind_genesis_group covenant_id_of t g =
     (let input_outpoint = previous_outpoint (inputs t ! unat (group_input g));
          cid = covenant_id_of input_outpoint
                  (map (\<lambda>out. (out, outputs t ! unat out)) (group_outputs g));
          binding = \<lparr>authorizing_input = group_input g, binding_covenant_id = cid\<rparr>
      in t\<lparr>outputs := foldl (\<lambda>os out. os[unat out := (os ! unat out)\<lparr>covenant := Some binding\<rparr>])
                        (outputs t) (group_outputs g)\<rparr>)"

definition populate_genesis_covenants ::
    "(TransactionOutpoint \<Rightarrow> (u32 \<times> TransactionOutput) list \<Rightarrow> hash) \<Rightarrow>
     Transaction \<Rightarrow> GenesisCovenantGroup list \<Rightarrow> PopulateGenesisCovenantsError + Transaction" where
  "populate_genesis_covenants covenant_id_of t groups =
     bindR (fold_result (check_genesis_group t) (replicate (length (outputs t)) False) groups)
       (\<lambda>_. Inr (foldl (bind_genesis_group covenant_id_of) t groups))"

section \<open>Lemmas: script units\<close>

lemmas script_unit_consts =
  SCRIPT_UNITS_PER_COMPUTE_BUDGET_UNIT_def SCRIPT_UNITS_PER_SIGOP_COUNT_UNIT_def
  GRAMS_PER_COMPUTE_BUDGET_UNIT_def GRAMS_PER_SIGOP_COUNT_UNIT_def SCRIPT_UNITS_PER_GRAM_def

lemma unat_ucast_mul:
  fixes n :: "'a::len word" and c :: u64
  assumes "LENGTH('a) \<le> 64" and "unat n * unat c < 2 ^ 64"
  shows "unat (ucast n * c) = unat n * unat c"
proof -
  have "unat (ucast n :: u64) = unat n"
    using assms(1) less_le_trans [OF unat_less_two_power [of n] power_increasing, of 64]
    by (simp add: unsigned_ucast_eq take_bit_nat_eq_self)
  then show ?thesis using assms(2) by (simp add: unat_mul_no_overflow)
qed

lemma script_units_exact:
  "unat (SigopCount_script_units n) = 100000 * unat n"
  "unat (ComputeBudget_script_units m) = 10000 * unat m"
  "unat (to_grams m) = 100 * unat m"
  using unat_less_two_power [of n] unat_less_two_power [of m]
  by (simp_all add: SigopCount_script_units_def ComputeBudget_script_units_def to_grams_def
      script_unit_consts unat_ucast_mul)

lemma unat_allowed_script_units:
  "unat (allowed_script_units (ComputeBudget b)) = 10000 * unat b + 9999"
  using unat_less_two_power [of b]
  by (simp add: allowed_script_units_def unat_saturating_add script_units_exact
      free_script_units_per_input_def saturating_sub_def script_unit_consts)

lemma unat_div_ceil:
  "unat (div_ceil a b) = (if unat a mod unat b = 0 then unat a div unat b else unat a div unat b + 1)"
proof (cases "unat a mod unat b = 0")
  case True
  then have "a mod b = 0" by (simp add: word_unat_eq_iff unat_mod_distrib)
  with True show ?thesis by (simp add: div_ceil_def unat_div_distrib)
next
  case False
  then have "a mod b \<noteq> 0" by (metis unat_mod_distrib unat_0)
  moreover have "unat a div unat b + 1 < 2 ^ LENGTH('a)"
  proof (cases "unat b = 1 \<or> unat b = 0")
    case False
    with \<open>unat a mod unat b \<noteq> 0\<close> have "unat a div unat b < unat a"
      by (intro div_less_dividend) (auto intro: gr0I)
    then show ?thesis using unat_less_two_power [of a] by linarith
  next
    case True
    with False have "unat a div unat b = 0" "1 \<le> unat a" by auto
    then show ?thesis using unat_less_two_power [of a] by linarith
  qed
  ultimately show ?thesis using False
    by (simp add: div_ceil_def unat_div_distrib unat_word_ariths)
qed

lemma covering_nat:
  "(if (n - 9999) mod 10000 = 0 then (n - 9999) div 10000 else (n - 9999) div 10000 + 1)
    = n div (10000 :: nat)"
proof -
  obtain q m where n: "n = 10000 * q + m" "m < 10000"
    by (metis mult_div_mod_eq mod_less_divisor zero_less_numeral)
  show ?thesis
  proof (cases q)
    case 0
    then have "n - 9999 = 0" "n div 10000 = 0" using n by simp_all
    then show ?thesis by simp
  next
    case (Suc p)
    then have d: "n - 9999 = 10000 * p + (m + 1)" using n by simp
    have dm: "(10000 * a + k) div 10000 = a" "(10000 * a + k) mod 10000 = k"
      if "k < 10000" for a k :: nat using that by simp_all
    have q: "n div 10000 = q" using n dm(1) by simp
    show ?thesis
    proof (cases "m = 9999")
      case True
      then have "n - 9999 = 10000 * q" using d Suc by simp
      then show ?thesis using q by simp
    next
      case False
      then have "m + 1 < 10000" using n by simp
      then show ?thesis unfolding d q using dm [of "m + 1" p] Suc by simp
    qed
  qed
qed

lemma unat_covering_units:
  "unat (div_ceil (saturating_sub r free_script_units_per_input) SCRIPT_UNITS_PER_COMPUTE_BUDGET_UNIT)
    = unat r div 10000"
proof -
  have free: "unat free_script_units_per_input = 9999"
    "unat SCRIPT_UNITS_PER_COMPUTE_BUDGET_UNIT = 10000"
    by (simp_all add: free_script_units_per_input_def saturating_sub_def script_unit_consts)
  show ?thesis
    by (simp only: unat_div_ceil unat_saturating_sub free covering_nat)
qed

lemma checked_covering_eq:
  "checked_covering_script_units r =
    (if unat r div 10000 \<le> 65535 then Some (of_nat (unat r div 10000)) else None)"
proof -
  define q where
    "q = div_ceil (saturating_sub r free_script_units_per_input) SCRIPT_UNITS_PER_COMPUTE_BUDGET_UNIT"
  have "unat q = unat r div 10000" by (simp add: q_def unat_covering_units)
  moreover have "(ucast q :: u16) = of_nat (unat q)" by simp
  moreover have "q \<le> 65535 \<longleftrightarrow> unat q \<le> 65535" by (simp add: word_le_nat_alt)
  ultimately show ?thesis
    unfolding checked_covering_script_units_def ComputeBudget_try_from_def u16_try_from_def
    by (simp add: q_def [symmetric])
qed

section \<open>Lemmas: lane tags\<close>

lemma rposition_append:
  "rposition p (xs @ ys) =
    (case rposition p ys of Some i \<Rightarrow> Some (length xs + i) | None \<Rightarrow> rposition p xs)"
  by (induction xs) (auto split: option.splits)

lemma rposition_replicate: "\<not> p x \<Longrightarrow> rposition p (replicate n x) = None"
  by (induction n) simp_all

lemma rposition_last: "xs \<noteq> [] \<Longrightarrow> p (last xs) \<Longrightarrow> rposition p xs = Some (length xs - 1)"
  using rposition_append [of p "butlast xs" "[last xs]"] by simp

lemma subnet_tag_from_tag:
  assumes "from_tag t = Some s" and "last t \<noteq> 0"
  shows "subnet_tag s = t"
proof -
  have t: "t \<noteq> []" "length t \<le> 5" "s = t @ replicate (20 - length t) 0"
    using assms(1) by (auto simp: from_tag_def SUBNETWORK_TAG_LEN_def SUBNETWORK_ID_SIZE_def
        split: if_splits)
  then have "take 5 s = t @ replicate (5 - length t) 0" by (simp add: min_def)
  then show ?thesis
    using t assms(2)
    by (simp add: subnet_tag_def SUBNETWORK_TAG_LEN_def rposition_append rposition_replicate
        rposition_last Suc_pred)
qed

section \<open>Lemmas: genesis covenants\<close>

lemma check_group_outputs:
  assumes "fold_result (check_group_output outs) seen xs = Inr seen'"
    and "\<forall>x \<in> set xs. unat x < length seen"
  shows "length seen' = length seen" and "distinct xs"
    and "\<forall>x \<in> set xs. \<not> seen ! unat x \<and> covenant (outs ! unat x) = None"
    and "\<forall>i < length seen. seen' ! i = (seen ! i \<or> i \<in> unat ` set xs)"
proof -
  have "length seen' = length seen \<and> distinct xs \<and>
      (\<forall>x \<in> set xs. \<not> seen ! unat x \<and> covenant (outs ! unat x) = None) \<and>
      (\<forall>i < length seen. seen' ! i = (seen ! i \<or> i \<in> unat ` set xs))"
    using assms
  proof (induction xs arbitrary: seen)
    case (Cons x xs)
    let ?s = "seen[unat x := True]"
    from Cons.prems(1) obtain s where "check_group_output outs seen x = Inr s"
      and "fold_result (check_group_output outs) s xs = Inr seen'"
      by (auto simp: bindR_eq_Inr)
    then have x: "\<not> seen ! unat x" "covenant (outs ! unat x) = None"
      and rest: "fold_result (check_group_output outs) ?s xs = Inr seen'"
      by (simp_all add: check_group_output_def split: if_splits)
    note IH = Cons.IH [OF rest]
    have len: "\<forall>y \<in> set xs. unat y < length ?s" "unat x < length seen"
      using Cons.prems(2) by simp_all
    have "x \<notin> set xs" using IH len by auto
    moreover have "\<not> seen ! unat y" if "y \<in> set xs" for y
      using IH len that by (cases "unat y = unat x") auto
    moreover have "seen' ! i = (seen ! i \<or> i \<in> unat ` set (x # xs))" if "i < length seen" for i
      using IH len that by (cases "i = unat x") simp_all
    ultimately show ?case using IH len x by simp
  qed simp
  then show "length seen' = length seen" and "distinct xs"
    and "\<forall>x \<in> set xs. \<not> seen ! unat x \<and> covenant (outs ! unat x) = None"
    and "\<forall>i < length seen. seen' ! i = (seen ! i \<or> i \<in> unat ` set xs)" by blast+
qed

definition genesis_binding ::
    "(TransactionOutpoint \<Rightarrow> (u32 \<times> TransactionOutput) list \<Rightarrow> hash) \<Rightarrow>
     Transaction \<Rightarrow> GenesisCovenantGroup \<Rightarrow> CovenantBinding" where
  "genesis_binding covenant_id_of t g =
     \<lparr>authorizing_input = group_input g,
      binding_covenant_id = covenant_id_of (previous_outpoint (inputs t ! unat (group_input g)))
        (map (\<lambda>out. (out, outputs t ! unat out)) (group_outputs g))\<rparr>"

definition groups_well_formed :: "Transaction \<Rightarrow> GenesisCovenantGroup list \<Rightarrow> bool" where
  "groups_well_formed t gs \<longleftrightarrow>
     distinct (concat (map group_outputs gs)) \<and>
     (\<forall>g \<in> set gs. group_outputs g \<noteq> [] \<and> unat (group_input g) < length (inputs t) \<and>
        (\<forall>out \<in> set (group_outputs g).
           unat out < length (outputs t) \<and> covenant (outputs t ! unat out) = None))"

lemma check_genesis_group_Inr:
  assumes "check_genesis_group t seen g = Inr s" and "length seen = length (outputs t)"
  shows "group_outputs g \<noteq> []" and "unat (group_input g) < length (inputs t)"
    and "\<forall>out \<in> set (group_outputs g). unat out < length (outputs t)"
    and "fold_result (check_group_output (outputs t)) seen (group_outputs g) = Inr s"
proof -
  show *: "group_outputs g \<noteq> []" "unat (group_input g) < length (inputs t)"
    "fold_result (check_group_output (outputs t)) seen (group_outputs g) = Inr s"
    using assms by (simp_all add: check_genesis_group_def Let_def not_le split: if_splits)
  have sorted: "sorted (group_outputs g)" "unat (last (group_outputs g)) < length (outputs t)"
    using assms by (simp_all add: check_genesis_group_def Let_def not_le split: if_splits)
  have "out \<le> last (group_outputs g)" if "out \<in> set (group_outputs g)" for out
    using sorted(1) that by (rule sorted_le_last)
  then show "\<forall>out \<in> set (group_outputs g). unat out < length (outputs t)"
    using sorted(2) by (metis le_less_trans word_le_nat_alt)
qed

lemma check_genesis_groups:
  assumes "fold_result (check_genesis_group t) seen gs = Inr seen'"
    and "length seen = length (outputs t)"
  shows "groups_well_formed t gs \<and>
    (\<forall>g \<in> set gs. \<forall>out \<in> set (group_outputs g). \<not> seen ! unat out)"
  using assms
proof (induction gs arbitrary: seen)
  case (Cons g gs)
  from Cons.prems(1) obtain s where s: "check_genesis_group t seen g = Inr s"
    and rest: "fold_result (check_genesis_group t) s gs = Inr seen'"
    by (auto simp: bindR_eq_Inr)
  note g = check_genesis_group_Inr [OF s Cons.prems(2)]
  then have rng: "\<forall>x \<in> set (group_outputs g). unat x < length seen" using Cons.prems(2) by simp
  note grp = check_group_outputs [OF g(4) rng]
  have IH: "groups_well_formed t gs"
    "\<And>g' out. g' \<in> set gs \<Longrightarrow> out \<in> set (group_outputs g') \<Longrightarrow> \<not> s ! unat out"
    using Cons.IH [OF rest] grp(1) Cons.prems(2) by auto
  have new: "\<not> seen ! unat out" "out \<notin> set (group_outputs g)"
    if "g' \<in> set gs" "out \<in> set (group_outputs g')" for g' out
  proof -
    have "unat out < length seen"
      using IH(1) that Cons.prems(2) by (auto simp: groups_well_formed_def)
    with IH(2) [OF that] grp(4) show "\<not> seen ! unat out" "out \<notin> set (group_outputs g)" by auto
  qed
  have "set (group_outputs g) \<inter> set (concat (map group_outputs gs)) = {}"
    using new(2) by auto
  then have "groups_well_formed t (g # gs)"
    using IH(1) g grp unfolding groups_well_formed_def by auto
  with new(1) grp(3) show ?case by auto
qed (simp add: groups_well_formed_def)

lemma foldl_update_nth:
  assumes "\<forall>x \<in> set xs. unat x < length os" and "distinct xs"
  shows "foldl (\<lambda>os x. os[unat x := f (os ! unat x)]) os xs ! i =
    (if i \<in> unat ` set xs then f (os ! i) else os ! i)"
    and "length (foldl (\<lambda>os x. os[unat x := f (os ! unat x)]) os xs) = length os"
proof -
  have "foldl (\<lambda>os x. os[unat x := f (os ! unat x)]) os xs ! i =
      (if i \<in> unat ` set xs then f (os ! i) else os ! i) \<and>
      length (foldl (\<lambda>os x. os[unat x := f (os ! unat x)]) os xs) = length os"
    using assms
  proof (induction xs arbitrary: os)
    case (Cons x xs)
    have "unat x \<notin> unat ` set xs" using Cons.prems(2) by (auto simp: unat_inject)
    then show ?case using Cons by (cases "i = unat x") simp_all
  qed simp
  then show "foldl (\<lambda>os x. os[unat x := f (os ! unat x)]) os xs ! i =
      (if i \<in> unat ` set xs then f (os ! i) else os ! i)"
    and "length (foldl (\<lambda>os x. os[unat x := f (os ! unat x)]) os xs) = length os" by blast+
qed

lemma bind_genesis_group_simps [simp]:
  "inputs (bind_genesis_group c t g) = inputs t"
  "(bind_genesis_group c t g)\<lparr>outputs := os\<rparr> = t\<lparr>outputs := os\<rparr>"
  by (simp_all add: bind_genesis_group_def Let_def)

lemma bind_genesis_group_nth:
  assumes "\<forall>x \<in> set (group_outputs g). unat x < length (outputs t)" and "distinct (group_outputs g)"
  shows "outputs (bind_genesis_group c t g) ! i =
    (if i \<in> unat ` set (group_outputs g)
     then (outputs t ! i)\<lparr>covenant := Some (genesis_binding c t g)\<rparr> else outputs t ! i)"
    and "length (outputs (bind_genesis_group c t g)) = length (outputs t)"
  using foldl_update_nth [OF assms, of "\<lambda>out. out\<lparr>covenant := Some (genesis_binding c t g)\<rparr>"]
  by (simp_all add: bind_genesis_group_def Let_def genesis_binding_def)

lemma groups_well_formed_tl: "groups_well_formed t (g # gs) \<Longrightarrow> groups_well_formed t gs"
  by (simp add: groups_well_formed_def)

lemma bind_genesis_group_other:
  assumes wf: "groups_well_formed t (g # gs)" and "g' \<in> set gs" and "out \<in> set (group_outputs g')"
  shows "outputs (bind_genesis_group c t g) ! unat out = outputs t ! unat out"
proof -
  have "out \<notin> set (group_outputs g)" using assms by (auto simp: groups_well_formed_def)
  then have "unat out \<notin> unat ` set (group_outputs g)" by (auto simp: unat_inject)
  then show ?thesis
    using wf by (simp add: bind_genesis_group_nth(1) groups_well_formed_def)
qed

lemma genesis_binding_other:
  assumes "groups_well_formed t (g # gs)" and "g' \<in> set gs"
  shows "genesis_binding c (bind_genesis_group c t g) g' = genesis_binding c t g'"
  using bind_genesis_group_other [OF assms]
  by (auto simp: genesis_binding_def intro!: arg_cong [where f = "c _"])

lemma groups_well_formed_bind:
  assumes wf: "groups_well_formed t (g # gs)"
  shows "groups_well_formed (bind_genesis_group c t g) gs"
proof -
  have "length (outputs (bind_genesis_group c t g)) = length (outputs t)"
    using wf by (simp add: bind_genesis_group_nth(2) groups_well_formed_def)
  then show ?thesis
    using groups_well_formed_tl [OF wf] bind_genesis_group_other [OF wf]
    by (simp add: groups_well_formed_def)
qed

lemma bind_genesis_groups_nth:
  assumes "groups_well_formed t gs"
  shows "outputs (foldl (bind_genesis_group c) t gs) ! i =
    (case find (\<lambda>g. i \<in> unat ` set (group_outputs g)) gs of
       None \<Rightarrow> outputs t ! i
     | Some g \<Rightarrow> (outputs t ! i)\<lparr>covenant := Some (genesis_binding c t g)\<rparr>)"
  using assms
proof (induction gs arbitrary: t)
  case (Cons g gs)
  let ?t = "bind_genesis_group c t g"
  note IH = Cons.IH [OF groups_well_formed_bind [OF Cons.prems], of c]
  have nth: "outputs ?t ! i = (if i \<in> unat ` set (group_outputs g)
     then (outputs t ! i)\<lparr>covenant := Some (genesis_binding c t g)\<rparr> else outputs t ! i)"
    using Cons.prems by (intro bind_genesis_group_nth) (simp_all add: groups_well_formed_def)
  show ?case
  proof (cases "i \<in> unat ` set (group_outputs g)")
    case True
    have "i \<notin> unat ` set (group_outputs g')" if "g' \<in> set gs" for g'
      using Cons.prems that True by (auto simp: groups_well_formed_def unat_inject)
    then have "find (\<lambda>g. i \<in> unat ` set (group_outputs g)) gs = None"
      by (auto simp: find_None_iff)
    with IH nth True show ?thesis by simp
  next
    case False
    have "genesis_binding c ?t g' = genesis_binding c t g'"
      if "find (\<lambda>g. i \<in> unat ` set (group_outputs g)) gs = Some g'" for g'
      using that genesis_binding_other [OF Cons.prems] by (metis find_Some_iff nth_mem)
    with IH nth False show ?thesis by (simp split: option.splits)
  qed
qed simp

lemma distinct_concat_unique:
  "distinct (concat (map f gs)) \<Longrightarrow> g \<in> set gs \<Longrightarrow> g' \<in> set gs \<Longrightarrow> x \<in> set (f g) \<Longrightarrow> x \<in> set (f g')
    \<Longrightarrow> g = g'"
  by (induction gs) auto

lemma bind_genesis_groups_frame:
  "(foldl (bind_genesis_group c) t gs)\<lparr>outputs := os\<rparr> = t\<lparr>outputs := os\<rparr>"
  by (induction gs arbitrary: t) simp_all

lemma populate_genesis_covenants_Inr:
  assumes "populate_genesis_covenants c t gs = Inr t'"
  shows "groups_well_formed t gs" and "t' = foldl (bind_genesis_group c) t gs"
  using assms check_genesis_groups [of t "replicate (length (outputs t)) False" gs]
  by (auto simp: populate_genesis_covenants_def bindR_eq_Inr)

section \<open>Properties\<close>

text \<open>When \<open>populate_genesis_covenants\<close> succeeds, every output named by a group was unbound
  and is now bound to the group's input and to the covenant id of the \<^emph>\<open>original\<close> outputs of
  the group, whatever the other groups are; no other output and no other field changes.\<close>

lemma populate_genesis_covenants_binds:
  assumes "populate_genesis_covenants c t gs = Inr t'"
  shows "t'\<lparr>outputs := []\<rparr> = t\<lparr>outputs := []\<rparr> \<and>
    (\<forall>i. (\<forall>g \<in> set gs. i \<notin> unat ` set (group_outputs g)) \<longrightarrow> outputs t' ! i = outputs t ! i) \<and>
    (\<forall>g \<in> set gs. \<forall>out \<in> set (group_outputs g).
      unat out < length (outputs t) \<and> unat (group_input g) < length (inputs t) \<and>
      covenant (outputs t ! unat out) = None \<and>
      outputs t' ! unat out = (outputs t ! unat out)\<lparr>covenant := Some (genesis_binding c t g)\<rparr>)"
proof (intro conjI allI impI ballI)
  note wf = populate_genesis_covenants_Inr [OF assms]
  show "t'\<lparr>outputs := []\<rparr> = t\<lparr>outputs := []\<rparr>" by (simp add: wf(2) bind_genesis_groups_frame)
  show "outputs t' ! i = outputs t ! i" if "\<forall>g \<in> set gs. i \<notin> unat ` set (group_outputs g)" for i
  proof -
    have "find (\<lambda>g. i \<in> unat ` set (group_outputs g)) gs = None"
      using that by (auto simp: find_None_iff)
    then show ?thesis by (simp add: wf(2) bind_genesis_groups_nth [OF wf(1)])
  qed
  fix g out
  assume g: "g \<in> set gs" "out \<in> set (group_outputs g)"
  then show "unat out < length (outputs t)" "unat (group_input g) < length (inputs t)"
    "covenant (outputs t ! unat out) = None"
    using wf(1) by (auto simp: groups_well_formed_def)
  have "find (\<lambda>g. unat out \<in> unat ` set (group_outputs g)) gs \<noteq> None"
    using g by (auto simp: find_None_iff)
  then obtain g' where find: "find (\<lambda>g. unat out \<in> unat ` set (group_outputs g)) gs = Some g'"
    by blast
  then have "g' \<in> set gs" "out \<in> set (group_outputs g')"
    by (auto simp: find_Some_iff unat_inject)
  then have "g' = g"
    using wf(1) g by (auto simp: groups_well_formed_def intro: distinct_concat_unique)
  then show "outputs t' ! unat out = (outputs t ! unat out)\<lparr>covenant := Some (genesis_binding c t g)\<rparr>"
    using wf find by (simp add: bind_genesis_groups_nth)
qed

definition sample_covenant_tx :: Transaction where
  "sample_covenant_tx =
     \<lparr>version = 1, inputs = [\<lparr>previous_outpoint = \<lparr>transaction_id = [7], outpoint_index = 0\<rparr>,
        signature_script = [], sequence = 0, compute_commit = ComputeBudget 0\<rparr>],
      outputs = [\<lparr>out_value = 5, out_spk = \<lparr>spk_version = 0, spk_script = []\<rparr>, covenant = None\<rparr>,
                 \<lparr>out_value = 6, out_spk = \<lparr>spk_version = 0, spk_script = []\<rparr>, covenant = None\<rparr>],
      lock_time = 0, subnetwork_id = SUBNETWORK_ID_NATIVE, gas = 0, payload = [],
      storage_mass = 0, tx_id = [9]\<rparr>"

theorem populate_genesis_covenants_witness:
  "\<exists>t'. populate_genesis_covenants (\<lambda>pt xs. transaction_id pt) sample_covenant_tx
      [\<lparr>group_input = 0, group_outputs = [1]\<rparr>] = Inr t' \<and>
    outputs t' ! 0 = outputs sample_covenant_tx ! 0 \<and>
    covenant (outputs t' ! 1) = Some \<lparr>authorizing_input = 0, binding_covenant_id = [7]\<rparr>"
proof -
  let ?gs = "[\<lparr>group_input = 0, group_outputs = [1]\<rparr>]"
  obtain t' where t': "populate_genesis_covenants (\<lambda>pt xs. transaction_id pt) sample_covenant_tx ?gs = Inr t'"
    by (simp add: populate_genesis_covenants_def check_genesis_group_def sample_covenant_tx_def
        check_group_output_def)
  from populate_genesis_covenants_binds [OF t'] show ?thesis
    using t' by (auto simp: genesis_binding_def sample_covenant_tx_def)
qed

text \<open>\<open>checked_covering_script_units\<close> finds the least compute budget whose allowance (the
  budget plus the free units of an input) covers the required script units, and fails only
  when no 16-bit budget does.\<close>

lemma covering_budget_is_least:
  "(\<forall>b. checked_covering_script_units r = Some b \<longleftrightarrow>
      r \<le> allowed_script_units (ComputeBudget b) \<and>
      (\<forall>b'. r \<le> allowed_script_units (ComputeBudget b') \<longrightarrow> b \<le> b')) \<and>
   (checked_covering_script_units r = None \<longleftrightarrow>
      (\<forall>b. \<not> r \<le> allowed_script_units (ComputeBudget b)))"
proof (intro conjI allI)
  let ?q = "unat r div 10000"
  have covers: "r \<le> allowed_script_units (ComputeBudget b) \<longleftrightarrow> ?q \<le> unat b" for b
    unfolding word_le_nat_alt unat_allowed_script_units by linarith
  have fits: "?q \<le> unat (b :: u16) \<Longrightarrow> ?q \<le> 65535" for b
    using unat_less_two_power [of b] by simp
  have q: "?q \<le> 65535 \<Longrightarrow> unat (of_nat ?q :: u16) = ?q"
    by (simp add: unsigned_of_nat take_bit_nat_eq_self)
  show "checked_covering_script_units r = Some b \<longleftrightarrow>
      r \<le> allowed_script_units (ComputeBudget b) \<and>
      (\<forall>b'. r \<le> allowed_script_units (ComputeBudget b') \<longrightarrow> b \<le> b')" for b
  proof
    assume "checked_covering_script_units r = Some b"
    then have "unat b = ?q" using q by (auto simp: checked_covering_eq split: if_splits)
    then show "r \<le> allowed_script_units (ComputeBudget b) \<and>
      (\<forall>b'. r \<le> allowed_script_units (ComputeBudget b') \<longrightarrow> b \<le> b')"
      unfolding covers by (simp add: word_le_nat_alt)
  next
    assume *: "r \<le> allowed_script_units (ComputeBudget b) \<and>
      (\<forall>b'. r \<le> allowed_script_units (ComputeBudget b') \<longrightarrow> b \<le> b')"
    then have "?q \<le> 65535" unfolding covers using fits by blast
    moreover from this * have "unat b \<le> ?q"
      unfolding covers word_le_nat_alt [of b] using q by (metis order_refl)
    ultimately have "unat b = unat (of_nat ?q :: u16)" using * q unfolding covers by simp
    with \<open>?q \<le> 65535\<close> show "checked_covering_script_units r = Some b"
      by (simp add: checked_covering_eq unat_inject)
  qed
  show "checked_covering_script_units r = None \<longleftrightarrow>
      (\<forall>b. \<not> r \<le> allowed_script_units (ComputeBudget b))"
    unfolding covers checked_covering_eq using fits q by (metis option.distinct(1) order_refl)
qed

theorem covering_budget_witness:
  "checked_covering_script_units 10000 = Some 1 \<and>
   (10000 :: ScriptUnits) \<le> allowed_script_units (ComputeBudget 1) \<and>
   \<not> (10000 :: ScriptUnits) \<le> allowed_script_units (ComputeBudget 0)"
proof -
  have "checked_covering_script_units 10000 = Some 1" by (simp add: checked_covering_eq)
  with conjunct1 [OF covering_budget_is_least [of 10000], THEN spec [of _ 1]]
  have "10000 \<le> allowed_script_units (ComputeBudget 1)"
    "10000 \<le> allowed_script_units (ComputeBudget 0) \<longrightarrow> 1 \<le> (0 :: u16)" by blast+
  with \<open>checked_covering_script_units 10000 = Some 1\<close> show ?thesis by simp
qed

text \<open>A lane made from a tag without a trailing zero byte gives its tag back, a tag and its
  zero-padded form are one lane, and the tag of the coinbase subnetwork is \<open>[1]\<close>, not empty.\<close>

lemma lane_tag_roundtrip:
  "(\<forall>t s. from_tag t = Some s \<longrightarrow> last t \<noteq> 0 \<longrightarrow> subnet_tag s = t) \<and>
   (\<forall>t s. from_tag t = Some s \<longrightarrow> length t < SUBNETWORK_TAG_LEN \<longrightarrow> from_tag (t @ [0]) = Some s) \<and>
   subnet_tag SUBNETWORK_ID_COINBASE = [1]"
proof (intro conjI allI impI)
  show "subnet_tag s = t" if "from_tag t = Some s" "last t \<noteq> 0" for t s
    using that by (rule subnet_tag_from_tag)
  show "from_tag (t @ [0]) = Some s"
    if "from_tag t = Some s" "length t < SUBNETWORK_TAG_LEN" for t s
  proof -
    have "replicate (SUBNETWORK_ID_SIZE - length t) (0 :: u8) =
        0 # replicate (SUBNETWORK_ID_SIZE - length (t @ [0])) 0"
      using that(2) by (simp add: SUBNETWORK_ID_SIZE_def SUBNETWORK_TAG_LEN_def Suc_diff_Suc
          flip: replicate_Suc)
    with that show ?thesis
      by (auto simp: from_tag_def split: if_splits)
  qed
  show "subnet_tag SUBNETWORK_ID_COINBASE = [1]"
    by (simp add: subnet_tag_def SUBNETWORK_ID_COINBASE_def from_byte_def SUBNETWORK_TAG_LEN_def
        SUBNETWORK_ID_SIZE_def numeral_eq_Suc)
qed

lemma lane_tag_roundtrip_witness:
  "from_tag [65, 66] = Some (from_namespace [65, 66, 0, 0]) \<and>
   subnet_tag (from_namespace [65, 66, 0, 0]) = [65, 66] \<and>
   from_tag [65, 66, 0] = from_tag [65, 66]"
proof -
  have "from_tag [65, 66] = Some (from_namespace [65, 66, 0, 0])"
    by code_simp
  moreover from this have "subnet_tag (from_namespace [65, 66, 0, 0]) = [65, 66]"
    by (rule conjunct1 [OF lane_tag_roundtrip, rule_format]) simp
  moreover have "from_tag ([65, 66] @ [0]) = Some (from_namespace [65, 66, 0, 0])"
    using calculation(1)
    by (rule conjunct1 [OF conjunct2 [OF lane_tag_roundtrip], rule_format])
       (simp add: SUBNETWORK_TAG_LEN_def)
  ultimately show ?thesis by simp
qed

end
