(* ===== verification/Pool_Hashing.thy ===== *)
theory Pool_Hashing
  imports Tx_Types "HOL-Library.List_Lexorder" "HOL-Library.Multiset"
begin

text \<open>
  The hashes of the note pool: \<^verbatim>\<open>src/consensus/core/src/notepool/hashing.rs\<close>.  The keyed
  blake3 hashers and the secp256k1 functions belong to other crates: they are the record
  \<open>PoolCrypto\<close>, a hasher being a function of the bytes written to it.
\<close>

record PoolCrypto =
  NotePoolLeafHash :: "bytes \<Rightarrow> hash"
  NotePoolSerialHash :: "bytes \<Rightarrow> hash"
  NotePoolOutputsHash :: "bytes \<Rightarrow> hash"
  NotePoolSigningHash :: "bytes \<Rightarrow> hash"
  xonly_from_slice :: "bytes \<Rightarrow> bytes option"
  signature_from_slice :: "bytes \<Rightarrow> bytes option"
  schnorr_verify :: "bytes \<Rightarrow> hash \<Rightarrow> bytes \<Rightarrow> bool"

definition POOL_PROTOCOL_VERSION :: u8 where "POOL_PROTOCOL_VERSION = 1"

definition leaf_hash :: "PoolCrypto \<Rightarrow> DenominationTag \<Rightarrow> bytes \<Rightarrow> hash" where
  "leaf_hash C d pk = NotePoolLeafHash C ([tag_byte d] @ pk)"

definition leaf_hash_entry :: "PoolCrypto \<Rightarrow> PoolEntry \<Rightarrow> hash" where
  "leaf_hash_entry C e =
     (case entry_lock e of
        None \<Rightarrow> leaf_hash C (nn_d (entry_note e)) (nn_pk (entry_note e))
      | Some lock \<Rightarrow>
          NotePoolLeafHash C ([tag_byte (nn_d (entry_note e))] @ nn_pk (entry_note e) @
            refund_pk lock @ u64_to_le_bytes (until_daa lock)))"

definition serial_hash :: "PoolCrypto \<Rightarrow> hash \<Rightarrow> u32 \<Rightarrow> hash" where
  "serial_hash C creating_tx_id i = NotePoolSerialHash C (creating_tx_id @ u32_to_le_bytes i)"

definition output_bytes :: "TransactionOutput \<Rightarrow> bytes" where
  "output_bytes out =
     u64_to_le_bytes (out_value out) @ u16_to_le_bytes (spk_version (out_spk out)) @
     spk_script (out_spk out)"

definition transparent_outputs_hash :: "PoolCrypto \<Rightarrow> TransactionOutput list \<Rightarrow> hash" where
  "transparent_outputs_hash C outs = NotePoolOutputsHash C (concat (map output_bytes outs))"

definition note_bytes :: "NewNote \<Rightarrow> bytes" where
  "note_bytes n = [tag_byte (nn_d n)] @ nn_pk n"

definition lock_bytes :: "ProducedLock \<Rightarrow> bytes" where
  "lock_bytes l =
     u32_to_le_bytes (lock_index l) @ refund_pk (lock_lock l) @ u64_to_le_bytes (until_daa (lock_lock l))"

definition locks_bytes :: "ProducedLock list \<Rightarrow> bytes" where
  "locks_bytes locks =
     (if locks = [] then []
      else u32_to_le_bytes (of_nat (length locks)) @ concat (map lock_bytes locks))"

definition signing_preimage ::
    "u8 \<Rightarrow> hash list \<Rightarrow> NewNote list \<Rightarrow> ProducedLock list \<Rightarrow> hash \<Rightarrow> u64 \<Rightarrow> bytes" where
  "signing_preimage opt sns produced locks outs_hash anchor =
     [POOL_PROTOCOL_VERSION] @ [opt] @ concat (sort sns) @
     concat (map note_bytes produced) @ locks_bytes locks @ outs_hash @ u64_to_le_bytes anchor"

definition signing_hash_with_locks ::
    "PoolCrypto \<Rightarrow> u8 \<Rightarrow> hash list \<Rightarrow> NewNote list \<Rightarrow> ProducedLock list \<Rightarrow> hash \<Rightarrow> u64 \<Rightarrow> hash" where
  "signing_hash_with_locks C opt sns produced locks outs_hash anchor =
     NotePoolSigningHash C (signing_preimage opt sns produced locks outs_hash anchor)"

definition signing_hash ::
    "PoolCrypto \<Rightarrow> u8 \<Rightarrow> hash list \<Rightarrow> NewNote list \<Rightarrow> hash \<Rightarrow> u64 \<Rightarrow> hash" where
  "signing_hash C opt sns produced outs_hash anchor =
     signing_hash_with_locks C opt sns produced [] outs_hash anchor"

section \<open>Lemmas\<close>

text \<open>Lists of blocks of one width are recovered from their concatenation.\<close>

lemma concat_blocks_inject:
  assumes "concat xs = concat ys" and "\<forall>x \<in> set xs. length x = n" and "\<forall>y \<in> set ys. length y = n"
    and "0 < n"
  shows "xs = ys"
  using assms
proof (induction xs arbitrary: ys)
  case Nil
  then show ?case by (cases ys) auto
next
  case (Cons x xs)
  then obtain y ys' where ys: "ys = y # ys'" by (cases ys) auto
  with Cons.prems have "x @ concat xs = y @ concat ys'" "length x = length y" by auto
  then have "x = y" "concat xs = concat ys'" by auto
  with Cons ys show ?case by simp
qed

lemma length_concat_blocks: "\<forall>x \<in> set xs. length x = n \<Longrightarrow> length (concat xs) = n * length xs"
  by (induction xs) simp_all

definition entry_sized :: "PoolEntry \<Rightarrow> bool" where
  "entry_sized e \<longleftrightarrow> length (nn_pk (entry_note e)) = 32 \<and>
     (case entry_lock e of None \<Rightarrow> True | Some l \<Rightarrow> length (refund_pk l) = 32)"

lemma u64_u32_prefix_free:
  "u64_to_le_bytes a @ xs = u64_to_le_bytes b @ ys \<longleftrightarrow> a = b \<and> xs = ys"
  "u32_to_le_bytes i @ xs = u32_to_le_bytes j @ ys \<longleftrightarrow> i = j \<and> xs = ys"
  "u16_to_le_bytes c @ xs = u16_to_le_bytes d @ ys \<longleftrightarrow> c = d \<and> xs = ys"
  by (simp_all add: append_eq_append_conv)

lemma note_bytes_inject:
  "length (nn_pk n) = 32 \<Longrightarrow> length (nn_pk n') = 32 \<Longrightarrow> note_bytes n = note_bytes n' \<Longrightarrow> n = n'"
  by (cases n; cases n') (simp add: note_bytes_def)

lemma lock_bytes_inject:
  assumes "length (refund_pk (lock_lock l)) = 32" "length (refund_pk (lock_lock l')) = 32"
    and "lock_bytes l = lock_bytes l'"
  shows "l = l'"
proof -
  have "lock_index l = lock_index l'" and
    "refund_pk (lock_lock l) @ u64_to_le_bytes (until_daa (lock_lock l)) =
     refund_pk (lock_lock l') @ u64_to_le_bytes (until_daa (lock_lock l'))"
    using assms(3) by (simp_all add: lock_bytes_def u64_u32_prefix_free)
  with assms(1,2) show ?thesis
    by (cases l; cases l'; cases "lock_lock l"; cases "lock_lock l'") simp
qed

lemma map_inject_on:
  "map f xs = map f ys \<Longrightarrow> inj_on f (set xs \<union> set ys) \<Longrightarrow> xs = ys"
  by (rule inj_on_map_eq_map [THEN iffD1])

definition op_sized :: "hash list \<Rightarrow> NewNote list \<Rightarrow> ProducedLock list \<Rightarrow> hash \<Rightarrow> bool" where
  "op_sized sns produced locks outs_hash \<longleftrightarrow>
     (\<forall>sn \<in> set sns. length sn = 32) \<and> (\<forall>n \<in> set produced. length (nn_pk n) = 32) \<and>
     (\<forall>l \<in> set locks. length (refund_pk (lock_lock l)) = 32) \<and>
     length outs_hash = 32 \<and> length locks < 2 ^ 32"

lemma locks_bytes_inject:
  assumes "\<forall>l \<in> set ls. length (refund_pk (lock_lock l)) = 32"
    and "\<forall>l \<in> set ls'. length (refund_pk (lock_lock l)) = 32"
    and "locks_bytes ls = locks_bytes ls'"
  shows "ls = ls'"
proof -
  have len: "\<forall>b \<in> set (map lock_bytes xs). length b = 44"
    if "\<forall>l \<in> set xs. length (refund_pk (lock_lock l)) = 32" for xs
    using that by (auto simp: lock_bytes_def)
  have "concat (map lock_bytes ls) = concat (map lock_bytes ls')"
    using assms(3) by (auto simp: locks_bytes_def u64_u32_prefix_free split: if_splits
        dest: arg_cong [where f = length])
  then have "map lock_bytes ls = map lock_bytes ls'"
    by (rule concat_blocks_inject [OF _ len [OF assms(1)] len [OF assms(2)]]) simp
  moreover have "inj_on lock_bytes (set ls \<union> set ls')"
    using assms(1,2) lock_bytes_inject by (auto simp: inj_on_def)
  ultimately show ?thesis by (rule map_inject_on)
qed

lemma signing_preimage_inject:
  assumes "signing_preimage opt sns produced locks oh anchor =
      signing_preimage opt' sns' produced' locks' oh' anchor'"
    and "op_sized sns produced locks oh" and "op_sized sns' produced' locks' oh'"
    and "length sns = length sns'" and "length produced = length produced'"
  shows "opt = opt' \<and> sort sns = sort sns' \<and> produced = produced' \<and> locks = locks' \<and> oh = oh' \<and>
    anchor = anchor'"
proof -
  have s: "\<forall>x \<in> set (sort sns). length x = 32" "\<forall>x \<in> set (sort sns'). length x = 32"
    and p: "\<forall>x \<in> set (map note_bytes produced). length x = 33"
      "\<forall>x \<in> set (map note_bytes produced'). length x = 33"
    using assms(2,3) by (auto simp: op_sized_def note_bytes_def)
  have eq: "opt = opt'"
    "concat (sort sns) @ concat (map note_bytes produced) @ locks_bytes locks @ oh @ u64_to_le_bytes anchor =
     concat (sort sns') @ concat (map note_bytes produced') @ locks_bytes locks' @ oh' @ u64_to_le_bytes anchor'"
    using assms(1) by (simp_all add: signing_preimage_def)
  have "length (concat (sort sns)) = length (concat (sort sns'))"
    using length_concat_blocks [OF s(1)] length_concat_blocks [OF s(2)] assms(4) by simp
  with eq(2) have e1: "concat (sort sns) = concat (sort sns')" and
    eq2: "concat (map note_bytes produced) @ locks_bytes locks @ oh @ u64_to_le_bytes anchor =
     concat (map note_bytes produced') @ locks_bytes locks' @ oh' @ u64_to_le_bytes anchor'"
    by simp_all
  have "length (concat (map note_bytes produced)) = length (concat (map note_bytes produced'))"
    using length_concat_blocks [OF p(1)] length_concat_blocks [OF p(2)] assms(5) by simp
  with eq2 have e2: "concat (map note_bytes produced) = concat (map note_bytes produced')" and
    eq3: "locks_bytes locks @ oh @ u64_to_le_bytes anchor = locks_bytes locks' @ oh' @ u64_to_le_bytes anchor'"
    by simp_all
  have "length oh = length oh'" using assms(2,3) by (simp add: op_sized_def)
  with eq3 have "length (locks_bytes locks) = length (locks_bytes locks')"
    using arg_cong [OF eq3, of length] by simp
  with eq3 \<open>length oh = length oh'\<close> have e3: "locks_bytes locks = locks_bytes locks'" "oh = oh'" "anchor = anchor'"
    by simp_all
  have "sort sns = sort sns'" using e1 s by (rule concat_blocks_inject) simp
  moreover have "map note_bytes produced = map note_bytes produced'"
    using e2 p by (rule concat_blocks_inject) simp
  then have "produced = produced'"
    by (rule map_inject_on)
       (use assms(2,3) note_bytes_inject in \<open>auto simp: inj_on_def op_sized_def\<close>)
  moreover have "locks = locks'"
    using assms(2,3) e3(1) by (intro locks_bytes_inject) (simp_all add: op_sized_def)
  ultimately show ?thesis using eq(1) e3 by simp
qed

section \<open>Properties\<close>


definition plain_crypto :: PoolCrypto where
  "plain_crypto = \<lparr>NotePoolLeafHash = id, NotePoolSerialHash = id, NotePoolOutputsHash = id,
     NotePoolSigningHash = id,
     xonly_from_slice = (\<lambda>pk. if length pk = 32 then Some pk else None),
     signature_from_slice = (\<lambda>sig. if length sig = 64 then Some sig else None),
     schnorr_verify = (\<lambda>sig msg pk. take 32 sig = pk)\<rparr>"


text \<open>The leaf of the pool tree commits to the whole entry.  If the leaf hasher has no
  collision, entries with 32-byte keys and equal leaves are equal; a locked and an unlocked
  entry never share a leaf.\<close>

lemma leaf_hash_entry_binds:
  assumes "inj (NotePoolLeafHash C)" and "entry_sized e" and "entry_sized e'"
  shows "leaf_hash_entry C e = leaf_hash_entry C e' \<longleftrightarrow> e = e'"
proof
  assume eq: "leaf_hash_entry C e = leaf_hash_entry C e'"
  obtain n l where e: "e = \<lparr>entry_note = n, entry_lock = l\<rparr>" by (cases e)
  obtain n' l' where e': "e' = \<lparr>entry_note = n', entry_lock = l'\<rparr>" by (cases e')
  have pre: "note_bytes n @ (case l of None \<Rightarrow> [] | Some k \<Rightarrow> refund_pk k @ u64_to_le_bytes (until_daa k)) =
      note_bytes n' @ (case l' of None \<Rightarrow> [] | Some k \<Rightarrow> refund_pk k @ u64_to_le_bytes (until_daa k))"
    using eq assms(1)
    by (simp add: leaf_hash_entry_def leaf_hash_def note_bytes_def e e' inj_eq split: option.splits)
  have len: "length (nn_pk n) = 32" "length (nn_pk n') = 32"
    using assms(2,3) by (simp_all add: entry_sized_def e e')
  have "length (note_bytes n) = length (note_bytes n')" using len by (simp add: note_bytes_def)
  with pre have "note_bytes n = note_bytes n'" and
    lock: "(case l of None \<Rightarrow> [] | Some k \<Rightarrow> refund_pk k @ u64_to_le_bytes (until_daa k)) =
      (case l' of None \<Rightarrow> [] | Some k \<Rightarrow> refund_pk k @ u64_to_le_bytes (until_daa k))" by simp_all
  then have "n = n'" using len note_bytes_inject by blast
  moreover have "l = l'"
  proof (cases l)
    case None
    then show ?thesis using lock by (cases l') (auto dest: arg_cong [where f = length])
  next
    case (Some k)
    then obtain k' where k': "l' = Some k'"
      using lock by (cases l') (auto dest: arg_cong [where f = length])
    then have "length (refund_pk k) = length (refund_pk k')"
      using assms(2,3) Some by (simp add: entry_sized_def e e')
    then show ?thesis using lock Some k' by (cases k; cases k') simp
  qed
  ultimately show "e = e'" by (simp add: e e')
qed simp

lemma leaf_hash_entry_binds_witness:
  "leaf_hash_entry plain_crypto (unlocked \<lparr>nn_d = D1, nn_pk = replicate 32 4\<rparr>) \<noteq>
   leaf_hash_entry plain_crypto (locked \<lparr>nn_d = D1, nn_pk = replicate 32 4\<rparr>
     \<lparr>refund_pk = replicate 32 5, until_daa = 9\<rparr>)"
  by (subst leaf_hash_entry_binds)
     (simp_all add: plain_crypto_def entry_sized_def unlocked_def locked_def)

text \<open>C39: The outputs hash of a pool operation does not separate outputs: whatever the hasher, two
  outputs hash like one output whose script is the first script followed by the bytes of
  the second output.  A signature over the two outputs is thus one over the single output,
  which pays the first amount only.\<close>

theorem transparent_outputs_hash_merges:
  "transparent_outputs_hash C
     [\<lparr>out_value = v1, out_spk = \<lparr>spk_version = n1, spk_script = s1\<rparr>, covenant = c1\<rparr>,
      \<lparr>out_value = v2, out_spk = \<lparr>spk_version = n2, spk_script = s2\<rparr>, covenant = c2\<rparr>] =
   transparent_outputs_hash C
     [\<lparr>out_value = v1, out_spk = \<lparr>spk_version = n1,
        spk_script = s1 @ u64_to_le_bytes v2 @ u16_to_le_bytes n2 @ s2\<rparr>, covenant = c1\<rparr>]"
  by (simp add: transparent_outputs_hash_def output_bytes_def)

end
