(* ===== verification/Finality_Anchor.thy ===== *)
theory Finality_Anchor
  imports Pool_Hashing
begin

text \<open>
  Finality anchors: a quorum of three of five trustees certifies a settled block, and a
  chain without it is refused.  Here are the wire types and the context-free verification of
  \<^verbatim>\<open>src/consensus/core/src/finality_anchor/mod.rs\<close> and the parameters of
  \<^verbatim>\<open>src/consensus/core/src/config/params.rs\<close>.  The theorems say which anchors and which
  proofs of equivocation pass.
\<close>

unbundle bit_operations_syntax

section \<open>Wire types\<close>

definition TRUSTEE_COUNT :: nat where "TRUSTEE_COUNT = 5"
definition ANCHOR_QUORUM :: nat where "ANCHOR_QUORUM = 3"
definition FINALITY_ANCHOR_DEPTH :: u64 where "FINALITY_ANCHOR_DEPTH = 600"
definition FINALITY_ANCHOR_LAUNCH_INTERVAL :: u64 where "FINALITY_ANCHOR_LAUNCH_INTERVAL = 300"
definition ANCHOR_STALENESS_INTERVALS :: u64 where "ANCHOR_STALENESS_INTERVALS = 3"

type_synonym TrusteeKeys = "bytes list"

record FinalityAnchor =
  anchored_block :: hash
  anchored_daa_score :: u64
  signer_bitmap :: u8
  anchor_signatures :: "bytes list"

record AnchorAttestation =
  att_block :: hash
  att_daa_score :: u64
  att_signature :: bytes

record EquivocationEvidence =
  trustee_index :: u8
  ev_first :: AnchorAttestation
  ev_second :: AnchorAttestation

datatype AnchorPayload = Anchor FinalityAnchor | Equivocation EquivocationEvidence

datatype FinalityAnchorError =
    BitmapOutOfRange u8
  | SignatureCountMismatch nat nat
  | BelowQuorum nat
  | BadTrusteeSignature u8
  | BadTrusteeKey u8
  | TrusteeIndexOutOfRange u8
  | SameBlock
  | ScoresNotWithinInterval u64 u64

record TrusteeCrypto = PoolCrypto +
  FinalityAnchorSigningHash :: "bytes \<Rightarrow> hash"

type_synonym 'a anchor_result = "(FinalityAnchorError, 'a) outcome"

section \<open>Verification\<close>

definition anchor_signing_hash :: "TrusteeCrypto \<Rightarrow> hash \<Rightarrow> u64 \<Rightarrow> hash" where
  "anchor_signing_hash c b score = FinalityAnchorSigningHash c (b @ u64_to_le_bytes score)"

definition bitmap_signers :: "u8 \<Rightarrow> u8 list" where
  "bitmap_signers bm = filter (\<lambda>i. bm AND push_bit (unat i) 1 \<noteq> 0) (map of_nat [0..<TRUSTEE_COUNT])"

definition count_ones :: "u8 \<Rightarrow> nat" where
  "count_ones w = length (filter (bit w) [0..<8])"

definition check_bitmap :: "u8 \<Rightarrow> bytes list \<Rightarrow> unit anchor_result" where
  "check_bitmap bm sigs =
     (if drop_bit TRUSTEE_COUNT bm \<noteq> 0 then Inl (Err (BitmapOutOfRange bm))
      else let signer_count = count_ones bm in
        if signer_count \<noteq> length sigs then Inl (Err (SignatureCountMismatch signer_count (length sigs)))
        else if signer_count < ANCHOR_QUORUM then Inl (Err (BelowQuorum signer_count))
        else Inr ())"

definition validate_anchor_shape :: "FinalityAnchor \<Rightarrow> unit anchor_result" where
  "validate_anchor_shape a = check_bitmap (signer_bitmap a) (anchor_signatures a)"

definition verify_one :: "TrusteeCrypto \<Rightarrow> bytes \<Rightarrow> u8 \<Rightarrow> hash \<Rightarrow> bytes \<Rightarrow> unit anchor_result" where
  "verify_one c key i msg sig =
     bindR (ok_or (Err (BadTrusteeKey i)) (xonly_from_slice c key)) (\<lambda>xonly.
     bindR (unwrap (signature_from_slice c sig)) (\<lambda>sg.
     guardR (schnorr_verify c sg msg xonly) (Err (BadTrusteeSignature i))))"

text \<open>The loop over the signatures and the set bits, with the key looked up by index.\<close>

definition verify_listed ::
    "TrusteeCrypto \<Rightarrow> TrusteeKeys \<Rightarrow> hash \<Rightarrow> unit \<Rightarrow> bytes \<times> u8 \<Rightarrow> unit anchor_result" where
  "verify_listed c keys msg _ x =
     (let (sig, i) = x in
      if unat i < length keys then verify_one c (keys ! unat i) i msg sig else Inl Panic)"

definition verify_signatures :: "TrusteeCrypto \<Rightarrow> TrusteeKeys \<Rightarrow> hash \<Rightarrow> u8 \<Rightarrow> bytes list \<Rightarrow> unit anchor_result" where
  "verify_signatures c keys msg bm sigs =
     fold_result (verify_listed c keys msg) () (zip sigs (bitmap_signers bm))"

definition verify_anchor :: "TrusteeCrypto \<Rightarrow> FinalityAnchor \<Rightarrow> TrusteeKeys \<Rightarrow> unit anchor_result" where
  "verify_anchor c a keys =
     bindR (validate_anchor_shape a) (\<lambda>_.
     verify_signatures c keys (anchor_signing_hash c (anchored_block a) (anchored_daa_score a))
       (signer_bitmap a) (anchor_signatures a))"

definition abs_diff :: "u64 \<Rightarrow> u64 \<Rightarrow> u64" where
  "abs_diff a b = (if a < b then b - a else a - b)"

definition verify_attestation ::
    "TrusteeCrypto \<Rightarrow> bytes \<Rightarrow> u8 \<Rightarrow> unit \<Rightarrow> AnchorAttestation \<Rightarrow> unit anchor_result" where
  "verify_attestation c key i _ att =
     verify_one c key i (anchor_signing_hash c (att_block att) (att_daa_score att)) (att_signature att)"

definition verify_equivocation_evidence ::
    "TrusteeCrypto \<Rightarrow> EquivocationEvidence \<Rightarrow> TrusteeKeys \<Rightarrow> (u64 \<Rightarrow> u64) \<Rightarrow> unit anchor_result" where
  "verify_equivocation_evidence c ev keys interval_at =
     (let i = trustee_index ev; a = ev_first ev; b = ev_second ev in
      if TRUSTEE_COUNT \<le> unat i then Inl (Err (TrusteeIndexOutOfRange i))
      else if att_block a = att_block b then Inl (Err SameBlock)
      else
        let gap = abs_diff (att_daa_score a) (att_daa_score b);
            interval = interval_at (max (att_daa_score a) (att_daa_score b)) in
        if interval \<le> gap then Inl (Err (ScoresNotWithinInterval gap interval))
        else if unat i < length keys then
          fold_result (verify_attestation c (keys ! unat i) i) () [a, b]
        else Inl Panic)"

section \<open>Parameters\<close>

record FinalityAnchorParams =
  trustees :: "TrusteeKeys option"
  anchor_depth :: u64
  launch_interval :: u64

definition LAUNCH_UNKEYED :: FinalityAnchorParams where
  "LAUNCH_UNKEYED = \<lparr>trustees = None, anchor_depth = FINALITY_ANCHOR_DEPTH,
     launch_interval = FINALITY_ANCHOR_LAUNCH_INTERVAL\<rparr>"

definition cadence_interval :: "FinalityAnchorParams \<Rightarrow> u64 \<Rightarrow> u64" where
  "cadence_interval p _ = launch_interval p"

definition staleness_bound :: "FinalityAnchorParams \<Rightarrow> u64 \<Rightarrow> ('e, u64) outcome" where
  "staleness_bound p score =
     bindR (pmul ANCHOR_STALENESS_INTERVALS (cadence_interval p score)) (padd (anchor_depth p))"

section \<open>Lemmas\<close>

lemma bit_of_bitmap: "n < 8 \<Longrightarrow> bm AND push_bit n 1 \<noteq> 0 \<longleftrightarrow> bit (bm :: u8) n"
  by (simp add: and_exp_eq_0_iff_not_bit push_bit_of_1)

lemma bitmap_signers_alt: "bitmap_signers bm = map of_nat (filter (bit bm) [0..<TRUSTEE_COUNT])"
proof -
  have "filter (\<lambda>i. bm AND push_bit (unat i) 1 \<noteq> 0) (map of_nat ns :: u8 list) = map of_nat (filter (bit bm) ns)"
    if "\<forall>n \<in> set ns. n < 8" for ns
    using that
  proof (induction ns)
    case (Cons n ns)
    then have "unat (of_nat n :: u8) = n" by (simp add: unat_of_nat)
    with Cons show ?case by (simp add: bit_of_bitmap del: push_bit_of_1)
  qed simp
  then show ?thesis by (simp add: bitmap_signers_def TRUSTEE_COUNT_def)
qed

lemma unat_small [simp]: "n < 256 \<Longrightarrow> unat (of_nat n :: u8) = n"
  by (simp add: unat_of_nat)

lemma bitmap_signers_set: "set (bitmap_signers bm) = {i. unat i < TRUSTEE_COUNT \<and> bit bm (unat i)}"
proof -
  have "i \<in> of_nat ` {n. n < 5 \<and> bit bm n} \<longleftrightarrow> unat i < 5 \<and> bit bm (unat i)" for i :: u8
    by (auto intro!: image_eqI [where x = "unat i"])
  then show ?thesis by (auto simp: bitmap_signers_alt TRUSTEE_COUNT_def)
qed

lemma distinct_bitmap_signers: "distinct (bitmap_signers bm)"
proof -
  have "inj_on (of_nat :: nat \<Rightarrow> u8) (set (filter (bit bm) [0..<5]))"
    by (rule inj_on_inverseI [where g = unat]) simp
  then show ?thesis by (simp add: bitmap_signers_alt distinct_map TRUSTEE_COUNT_def)
qed

text \<open>No bit beyond the trustees: the bitmap has as many ones as listed signers.\<close>

lemma count_ones_signers:
  assumes "drop_bit TRUSTEE_COUNT bm = 0"
  shows "count_ones bm = length (bitmap_signers bm)"
proof -
  have "bit (drop_bit 5 bm) n = bit bm (5 + n)" for n by (simp add: bit_drop_bit_eq)
  then have none: "\<not> bit bm (5 + n)" for n using assms by (simp add: TRUSTEE_COUNT_def)
  have "filter (bit bm) [5..<8] = []"
  proof (rule filter_False, rule ballI)
    fix n :: nat assume "n \<in> set [5..<8]"
    then obtain k where "n = 5 + k" using le_Suc_ex [of 5 n] by auto
    then show "\<not> bit bm n" by (simp only: none not_False_eq_True)
  qed
  moreover have "[0..<8] = [0..<5] @ [5..<(8::nat)]" by code_simp
  ultimately show ?thesis
    by (simp only: count_ones_def bitmap_signers_alt TRUSTEE_COUNT_def length_map filter_append append_Nil2)
qed

lemma length_bitmap_signers: "length (bitmap_signers bm) = card {i :: u8. unat i < TRUSTEE_COUNT \<and> bit bm (unat i)}"
  by (metis bitmap_signers_set distinct_bitmap_signers distinct_card)

lemma check_bitmap_Inr:
  "check_bitmap bm sigs = Inr () \<longleftrightarrow>
    drop_bit TRUSTEE_COUNT bm = 0 \<and> length sigs = length (bitmap_signers bm) \<and>
    ANCHOR_QUORUM \<le> length sigs"
  by (auto simp: check_bitmap_def Let_def count_ones_signers)

lemma check_bitmap_no_panic: "check_bitmap bm sigs \<noteq> Inl Panic"
  by (simp add: check_bitmap_def Let_def)

text \<open>The signature \<open>sig\<close> of \<open>msg\<close> verifies under the key of trustee \<open>i\<close>.\<close>

definition trustee_signed :: "TrusteeCrypto \<Rightarrow> TrusteeKeys \<Rightarrow> hash \<Rightarrow> u8 \<Rightarrow> bytes \<Rightarrow> bool" where
  "trustee_signed c keys msg i sig \<longleftrightarrow>
     unat i < length keys \<and>
     (\<exists>xonly sg. xonly_from_slice c (keys ! unat i) = Some xonly \<and> signature_from_slice c sig = Some sg \<and>
       schnorr_verify c sg msg xonly)"

lemma verify_one_Inr:
  "verify_one c key i msg sig = Inr () \<longleftrightarrow>
    (\<exists>xonly sg. xonly_from_slice c key = Some xonly \<and> signature_from_slice c sig = Some sg \<and>
       schnorr_verify c sg msg xonly)"
  by (auto simp: verify_one_def result_simps)

lemma verify_one_no_panic: "signature_from_slice c sig \<noteq> None \<Longrightarrow> verify_one c key i msg sig \<noteq> Inl Panic"
  by (auto simp: verify_one_def result_simps)

lemma fold_units_Inr: "fold_result f () xs = Inr () \<longleftrightarrow> (\<forall>x \<in> set xs. f () x = Inr ())"
  by (induction xs) (auto simp: bindR_eq_Inr)

lemma fold_units_Panic: "fold_result f () xs = Inl Panic \<Longrightarrow> \<exists>x \<in> set xs. f () x = Inl Panic"
  by (induction xs) (auto simp: bindR_eq_Inl)

lemma verify_listed_Inr:
  "verify_listed c keys msg () x = Inr () \<longleftrightarrow> (case x of (sig, i) \<Rightarrow> trustee_signed c keys msg i sig)"
  by (cases x) (simp add: verify_listed_def trustee_signed_def verify_one_Inr)

lemma verify_signatures_Inr:
  "verify_signatures c keys msg bm sigs = Inr () \<longleftrightarrow>
    (\<forall>(sig, i) \<in> set (zip sigs (bitmap_signers bm)). trustee_signed c keys msg i sig)"
  by (simp only: verify_signatures_def fold_units_Inr verify_listed_Inr)

lemma unat_image_iff: "unat i \<in> unat ` A \<longleftrightarrow> (i :: u8) \<in> A"
  by (auto simp: image_iff unat_inject)

lemma sorted_bitmap_signers: "sorted (bitmap_signers bm)"
proof -
  have "sorted (map (of_nat :: nat \<Rightarrow> u8) xs)" if "sorted xs" "\<forall>x \<in> set xs. x < 256" for xs
    using that by (induction xs) (auto simp: word_le_nat_alt)
  then show ?thesis by (simp add: bitmap_signers_alt TRUSTEE_COUNT_def sorted_wrt_filter)
qed

text \<open>A bitmap with the bits of an ascending list of trustees lists these trustees.\<close>

lemma bitmap_of_sorted:
  assumes "\<And>n. bit bm n \<longleftrightarrow> n \<in> unat ` set is" and "sorted is" and "distinct is"
    and "\<And>i. i \<in> set is \<Longrightarrow> unat i < TRUSTEE_COUNT"
  shows "drop_bit TRUSTEE_COUNT bm = 0" and "bitmap_signers bm = is"
proof -
  have "\<not> bit bm (5 + n)" for n
  proof
    assume "bit bm (5 + n)"
    then obtain i where "i \<in> set is" "5 + n = unat i" unfolding assms(1) by auto
    with assms(4) [of i] show False unfolding TRUSTEE_COUNT_def by linarith
  qed
  then show "drop_bit TRUSTEE_COUNT bm = 0"
    by (intro bit_eqI) (simp add: bit_drop_bit_eq TRUSTEE_COUNT_def)
  have "set (bitmap_signers bm) = {i. unat i < TRUSTEE_COUNT \<and> i \<in> set is}"
    unfolding bitmap_signers_set assms(1) unat_image_iff ..
  then have "set (bitmap_signers bm) = set is" using assms(4) by auto
  then show "bitmap_signers bm = is"
    using assms(2,3)
    by (intro sorted_distinct_set_unique) (simp_all add: sorted_bitmap_signers distinct_bitmap_signers)
qed

text \<open>Statements signed by a quorum: anchors here, release notices and manifests elsewhere.\<close>

locale quorum_statement =
  fixes c :: TrusteeCrypto
    and verify :: "'s \<Rightarrow> TrusteeKeys \<Rightarrow> unit anchor_result"
    and message :: "'s \<Rightarrow> hash"
    and bitmap :: "'s \<Rightarrow> u8"
    and sigs :: "'s \<Rightarrow> bytes list"
  assumes verify_shape: "verify s keys = bindR (check_bitmap (bitmap s) (sigs s))
    (\<lambda>_. verify_signatures c keys (message s) (bitmap s) (sigs s))"
begin

lemma verify_Inr:
  "verify s keys = Inr () \<longleftrightarrow>
    drop_bit TRUSTEE_COUNT (bitmap s) = 0 \<and> length (sigs s) = length (bitmap_signers (bitmap s)) \<and>
    ANCHOR_QUORUM \<le> length (sigs s) \<and>
    (\<forall>(sig, i) \<in> set (zip (sigs s) (bitmap_signers (bitmap s))). trustee_signed c keys (message s) i sig)"
  by (simp add: verify_shape bindR_eq_Inr check_bitmap_Inr verify_signatures_Inr)

definition signers :: "TrusteeKeys \<Rightarrow> 's \<Rightarrow> u8 set" where
  "signers keys s = {i. \<exists>sig \<in> set (sigs s). trustee_signed c keys (message s) i sig}"

lemma verified_signers:
  assumes "verify s keys = Inr ()"
  shows "set (bitmap_signers (bitmap s)) \<subseteq> signers keys s"
proof
  fix i assume "i \<in> set (bitmap_signers (bitmap s))"
  moreover have "length (sigs s) = length (bitmap_signers (bitmap s))" using assms by (simp add: verify_Inr)
  ultimately obtain sig where "(sig, i) \<in> set (zip (sigs s) (bitmap_signers (bitmap s)))"
    by (metis in_set_impl_in_set_zip2)
  moreover have "sig \<in> set (sigs s)" using calculation by (rule set_zip_leftD)
  ultimately show "i \<in> signers keys s"
    using assms by (auto simp: verify_Inr signers_def)
qed

lemma verified_quorum:
  assumes "verify s keys = Inr ()"
  shows "3 \<le> card (signers keys s)"
proof -
  have "3 \<le> card (set (bitmap_signers (bitmap s)))"
    using assms by (simp add: verify_Inr distinct_card distinct_bitmap_signers ANCHOR_QUORUM_def)
  also have "\<dots> \<le> card (signers keys s)"
    by (rule card_mono [OF finite verified_signers [OF assms]])
  finally show ?thesis .
qed

text \<open>Signatures listed by ascending trustee under the bitmap of these trustees verify.\<close>

lemma verifies_bundle:
  assumes "\<And>n. bit (bitmap s) n \<longleftrightarrow> n \<in> unat ` fst ` set m" and "sigs s = map snd m"
    and "sorted (map fst m)" and "distinct (map fst m)" and "ANCHOR_QUORUM \<le> length m"
    and "\<And>i sig. (i, sig) \<in> set m \<Longrightarrow> unat i < TRUSTEE_COUNT \<and> trustee_signed c keys (message s) i sig"
  shows "verify s keys = Inr ()"
proof -
  have "unat i < TRUSTEE_COUNT" if "i \<in> fst ` set m" for i using assms(6) that by auto
  then have "drop_bit TRUSTEE_COUNT (bitmap s) = 0" and bm: "bitmap_signers (bitmap s) = map fst m"
    using assms(1,3,4) bitmap_of_sorted [of "bitmap s" "map fst m"] by simp_all
  moreover have "zip (map snd m) (map fst m) = map (\<lambda>(i, sig). (sig, i)) m" by (induction m) auto
  then have "\<forall>(sig, i) \<in> set (zip (sigs s) (bitmap_signers (bitmap s))). trustee_signed c keys (message s) i sig"
    using assms(2,6) bm by auto
  ultimately show ?thesis using assms(2,5) by (simp add: verify_Inr)
qed

end

interpretation fa: quorum_statement c "verify_anchor c"
    "\<lambda>a. anchor_signing_hash c (anchored_block a) (anchored_daa_score a)" signer_bitmap anchor_signatures
  for c
  by unfold_locales (simp add: verify_anchor_def validate_anchor_shape_def)

lemma verify_equivocation_Inr:
  "verify_equivocation_evidence c ev keys interval_at = Inr () \<longleftrightarrow>
    unat (trustee_index ev) < TRUSTEE_COUNT \<and> att_block (ev_first ev) \<noteq> att_block (ev_second ev) \<and>
    abs_diff (att_daa_score (ev_first ev)) (att_daa_score (ev_second ev)) <
      interval_at (max (att_daa_score (ev_first ev)) (att_daa_score (ev_second ev))) \<and>
    (\<forall>att \<in> {ev_first ev, ev_second ev}.
      trustee_signed c keys (anchor_signing_hash c (att_block att) (att_daa_score att))
        (trustee_index ev) (att_signature att))"
proof -
  have "fold_result (verify_attestation c key i) () [a, b] = Inr () \<longleftrightarrow>
      verify_attestation c key i () a = Inr () \<and> verify_attestation c key i () b = Inr ()" for key i a b
    by (simp only: fold_units_Inr) simp
  then show ?thesis
    by (simp add: verify_equivocation_evidence_def Let_def verify_attestation_def
        verify_one_Inr trustee_signed_def not_le [symmetric] del: fold_result.simps)
qed

lemma unat_abs_diff:
  "unat (abs_diff a b) = (if unat a \<le> unat b then unat b - unat a else unat a - unat b)"
  by (auto simp: abs_diff_def unat_sub word_le_nat_alt word_less_nat_alt)

section \<open>Properties\<close>

text \<open>C7: An anchor verifies exactly when its bitmap names only trustees, it carries one signature
  per named trustee, each verifies under that trustee's key over the block and the score, and
  at least three are named.  A verified anchor is thus signed by three distinct trustees.\<close>

theorem verify_anchor_quorum:
  "(verify_anchor c a keys = Inr () \<longleftrightarrow>
      drop_bit TRUSTEE_COUNT (signer_bitmap a) = 0 \<and>
      length (anchor_signatures a) = card {i :: u8. unat i < TRUSTEE_COUNT \<and> bit (signer_bitmap a) (unat i)} \<and>
      ANCHOR_QUORUM \<le> length (anchor_signatures a) \<and>
      (\<forall>(sig, i) \<in> set (zip (anchor_signatures a) (bitmap_signers (signer_bitmap a))).
        trustee_signed c keys (anchor_signing_hash c (anchored_block a) (anchored_daa_score a)) i sig)) \<and>
   (verify_anchor c a keys = Inr () \<longrightarrow>
      3 \<le> card {i. \<exists>sig \<in> set (anchor_signatures a).
        trustee_signed c keys (anchor_signing_hash c (anchored_block a) (anchored_daa_score a)) i sig})"
  using fa.verify_Inr [of c a keys] fa.verified_quorum [of c a keys]
  unfolding length_bitmap_signers fa.signers_def by blast

text \<open>Witness: stand-in cryptography in which a signature begins with the key, and an anchor
  signed by the trustees 0, 2 and 4.\<close>

definition plain_trustee_crypto :: TrusteeCrypto where
  "plain_trustee_crypto = PoolCrypto.extend plain_crypto \<lparr>FinalityAnchorSigningHash = id\<rparr>"

definition sample_keys :: TrusteeKeys where
  "sample_keys = map (\<lambda>i. replicate 32 i) [1, 2, 3, 4, 5]"

definition sample_signature :: "u8 \<Rightarrow> bytes" where
  "sample_signature i = replicate 32 (i + 1) @ replicate 32 0"

definition sample_anchor :: FinalityAnchor where
  "sample_anchor = \<lparr>anchored_block = [9], anchored_daa_score = 700, signer_bitmap = 21,
     anchor_signatures = [sample_signature 0, sample_signature 2, sample_signature 4]\<rparr>"

lemma sample_anchor_verifies: "verify_anchor plain_trustee_crypto sample_anchor sample_keys = Inr ()"
  by code_simp

theorem verify_anchor_quorum_witness:
  "verify_anchor plain_trustee_crypto sample_anchor sample_keys = Inr () \<and>
   3 \<le> card {i. \<exists>sig \<in> set (anchor_signatures sample_anchor). trustee_signed plain_trustee_crypto sample_keys
     (anchor_signing_hash plain_trustee_crypto (anchored_block sample_anchor) (anchored_daa_score sample_anchor)) i sig}"
  using verify_anchor_quorum [of plain_trustee_crypto sample_anchor sample_keys] sample_anchor_verifies
  by blast

text \<open>C8: A proof of equivocation passes exactly when it names a trustee whose key signed both
  attestations, for different blocks at scores less than the cadence interval apart.  Two
  attestations at least an interval apart, or of one block, convict nobody.\<close>

theorem equivocation_evidence_exact:
  assumes "length keys = TRUSTEE_COUNT"
  shows "verify_equivocation_evidence c ev keys (cadence_interval p) = Inr () \<longleftrightarrow>
    unat (trustee_index ev) < TRUSTEE_COUNT \<and>
    att_block (ev_first ev) \<noteq> att_block (ev_second ev) \<and>
    \<bar>int (unat (att_daa_score (ev_first ev))) - int (unat (att_daa_score (ev_second ev)))\<bar> <
      int (unat (launch_interval p)) \<and>
    trustee_signed c keys (anchor_signing_hash c (att_block (ev_first ev)) (att_daa_score (ev_first ev)))
      (trustee_index ev) (att_signature (ev_first ev)) \<and>
    trustee_signed c keys (anchor_signing_hash c (att_block (ev_second ev)) (att_daa_score (ev_second ev)))
      (trustee_index ev) (att_signature (ev_second ev))"
proof -
  let ?a = "att_daa_score (ev_first ev)" and ?b = "att_daa_score (ev_second ev)"
  have "abs_diff ?a ?b < launch_interval p \<longleftrightarrow>
      \<bar>int (unat ?a) - int (unat ?b)\<bar> < int (unat (launch_interval p))"
    unfolding word_less_nat_alt unat_abs_diff by (split if_split) linarith
  then show ?thesis
    by (simp add: verify_equivocation_Inr cadence_interval_def)
qed

theorem equivocation_evidence_exact_witness:
  "verify_equivocation_evidence plain_trustee_crypto
     \<lparr>trustee_index = 2, ev_first = \<lparr>att_block = [1], att_daa_score = 900, att_signature = sample_signature 2\<rparr>,
      ev_second = \<lparr>att_block = [2], att_daa_score = 1000, att_signature = sample_signature 2\<rparr>\<rparr>
     sample_keys (cadence_interval LAUNCH_UNKEYED) = Inr () \<and>
   verify_equivocation_evidence plain_trustee_crypto
     \<lparr>trustee_index = 2, ev_first = \<lparr>att_block = [1], att_daa_score = 900, att_signature = sample_signature 2\<rparr>,
      ev_second = \<lparr>att_block = [2], att_daa_score = 1200, att_signature = sample_signature 2\<rparr>\<rparr>
     sample_keys (cadence_interval LAUNCH_UNKEYED) \<noteq> Inr ()"
proof -
  have len: "length sample_keys = TRUSTEE_COUNT" by (simp add: sample_keys_def TRUSTEE_COUNT_def)
  have "trustee_signed plain_trustee_crypto sample_keys msg 2 (sample_signature 2)" for msg
    by (simp add: trustee_signed_def plain_trustee_crypto_def PoolCrypto.extend_def plain_crypto_def
        sample_keys_def sample_signature_def)
  then show ?thesis
    by (simp add: equivocation_evidence_exact [OF len] LAUNCH_UNKEYED_def TRUSTEE_COUNT_def
        FINALITY_ANCHOR_LAUNCH_INTERVAL_def)
qed

end
