(* ===== verification/Anchor_State.thy ===== *)
theory Anchor_State
  imports Finality_Anchor "HOL-Library.Sublist"
begin

text \<open>
  The anchor state of a node.
  \<^item> The store: \<^verbatim>\<open>src/consensus/src/model/stores/finality_anchor.rs\<close>, one record.  Errors of
    the database are not modelled.
  \<^item> The guard of the fork choice, the scan of newly adopted chain blocks and its commit:
    \<^verbatim>\<open>src/consensus/src/pipeline/virtual_processor/processor.rs\<close>.
  \<^item> Gossiped anchors and the status report: \<^verbatim>\<open>src/consensus/src/consensus/mod.rs\<close>.
  Header scores, reachability, acceptance data, block transactions and the borsh decoding of
  payloads are the record \<open>AnchorEnv\<close>.
\<close>

section \<open>Anchor state\<close>

record StoredAnchor =
  stored_block :: hash
  stored_daa_score :: u64

record DenyListEntry =
  deny_trustee :: u8
  accepting_block :: hash

record AnchorStore =
  latest :: "StoredAnchor option"
  deny_list :: "DenyListEntry list"
  latest_full :: "FinalityAnchor option"
  pending :: "FinalityAnchor option"

definition AnchorStore_empty :: AnchorStore where
  "AnchorStore_empty = \<lparr>latest = None, deny_list = [], latest_full = None, pending = None\<rparr>"

definition stored_anchor :: "FinalityAnchor \<Rightarrow> StoredAnchor" where
  "stored_anchor a = \<lparr>stored_block = anchored_block a, stored_daa_score = anchored_daa_score a\<rparr>"

definition append_deny_entries :: "AnchorStore \<Rightarrow> DenyListEntry list \<Rightarrow> AnchorStore" where
  "append_deny_entries s es =
     s\<lparr>deny_list := foldl (\<lambda>l e. if e \<in> set l then l else l @ [e]) (deny_list s) es\<rparr>"

definition set_latest_direct :: "AnchorStore \<Rightarrow> FinalityAnchor \<Rightarrow> AnchorStore" where
  "set_latest_direct s a = s\<lparr>latest := Some (stored_anchor a), latest_full := Some a\<rparr>"

text \<open>What the functions of the node read besides the anchor state.\<close>

record AcceptedTxEntry =
  accepted_tx_id :: hash
  index_within_block :: u32

record MergesetBlockAcceptanceData =
  merged_block :: hash
  accepted_transactions :: "AcceptedTxEntry list"

record AnchorEnv =
  header_daa_score :: "hash \<Rightarrow> u64 option"
  is_chain_ancestor_of :: "hash \<Rightarrow> hash \<Rightarrow> bool"
  acceptance_data_of :: "hash \<Rightarrow> MergesetBlockAcceptanceData list option"
  block_transactions_of :: "hash \<Rightarrow> Transaction list option"
  decode_anchor_payload :: "bytes \<Rightarrow> AnchorPayload option"
  body_tips :: "hash list"

definition is_chain_ancestor_of_any_body_tip :: "AnchorEnv \<Rightarrow> hash \<Rightarrow> bool" where
  "is_chain_ancestor_of_any_body_tip env b = list_ex (is_chain_ancestor_of env b) (body_tips env)"

section \<open>The guard\<close>

datatype AnchorEnforcementState = Inactive | Enforcing | Stale

definition AnchorEnforcementState_from :: "u8 \<Rightarrow> AnchorEnforcementState" where
  "AnchorEnforcementState_from v = (if v = 1 then Enforcing else if v = 2 then Stale else Inactive)"

fun enforcement_byte :: "AnchorEnforcementState \<Rightarrow> u8" where
  "enforcement_byte Inactive = 0"
| "enforcement_byte Enforcing = 1"
| "enforcement_byte Stale = 2"

definition finality_anchor_guard ::
    "FinalityAnchorParams \<Rightarrow> AnchorStore \<Rightarrow> u64 \<Rightarrow> ('e, hash option) outcome" where
  "finality_anchor_guard p s score =
     (if trustees p = None then Inr None
      else case latest s of
        None \<Rightarrow> Inr None
      | Some l \<Rightarrow>
          bindR (staleness_bound p score) (\<lambda>bound.
          if bound < saturating_sub score (stored_daa_score l) then Inr None
          else Inr (Some (stored_block l))))"

definition compute_anchor_enforcement_state ::
    "FinalityAnchorParams \<Rightarrow> AnchorStore \<Rightarrow> u64 \<Rightarrow> ('e, AnchorEnforcementState) outcome" where
  "compute_anchor_enforcement_state p s score =
     (if trustees p = None then Inr Inactive
      else case latest s of
        None \<Rightarrow> Inr Inactive
      | Some l \<Rightarrow>
          bindR (staleness_bound p score) (\<lambda>bound.
          if bound < saturating_sub score (stored_daa_score l) then Inr Stale else Inr Enforcing))"

text \<open>The stored enforcement byte is swapped; a change is announced in the log.\<close>

definition update_finality_anchor_alert ::
    "FinalityAnchorParams \<Rightarrow> AnchorStore \<Rightarrow> u64 \<Rightarrow> u8 \<Rightarrow> ('e, u8 \<times> AnchorEnforcementState option) outcome" where
  "update_finality_anchor_alert p s score prev =
     bindR (compute_anchor_enforcement_state p s score) (\<lambda>new_state.
     Inr (enforcement_byte new_state,
          if prev = enforcement_byte new_state then None else Some new_state))"

record FinalityAnchorStatus =
  latest_anchor :: "(hash \<times> u64) option"
  st_enforcing :: bool
  st_stale :: bool
  st_expired :: bool
  current_interval :: u64
  disqualified :: "u8 list"

definition get_finality_anchor_status ::
    "FinalityAnchorParams \<Rightarrow> AnchorEnv \<Rightarrow> AnchorStore \<Rightarrow> hash \<Rightarrow> ('e, FinalityAnchorStatus) outcome" where
  "get_finality_anchor_status p env s sink =
     bindR (unwrap (header_daa_score env sink)) (\<lambda>score.
     bindR (case latest s of None \<Rightarrow> Inr False
            | Some l \<Rightarrow> bindR (staleness_bound p score) (\<lambda>bound.
                Inr (bound < saturating_sub score (stored_daa_score l)))) (\<lambda>stale.
     Inr \<lparr>latest_anchor = map_option (\<lambda>l. (stored_block l, stored_daa_score l)) (latest s),
          st_enforcing = (trustees p \<noteq> None \<and> \<not> stale \<and> latest s \<noteq> None),
          st_stale = stale, st_expired = False, current_interval = cadence_interval p score,
          disqualified = remdups_adj (sort (map deny_trustee
            (filter (\<lambda>e. is_chain_ancestor_of env (accepting_block e) sink) (deny_list s))))\<rparr>))"

section \<open>The scan of adopted chain blocks\<close>

record AnchorStateUpdates =
  new_latest :: "FinalityAnchor option"
  new_deny_entries :: "DenyListEntry list"
  clear_pending :: bool

definition AnchorStateUpdates_default :: AnchorStateUpdates where
  "AnchorStateUpdates_default = \<lparr>new_latest = None, new_deny_entries = [], clear_pending = False\<rparr>"

definition is_err :: "('e, 'a) outcome \<Rightarrow> ('f, bool) outcome" where
  "is_err m = (case m of Inl Panic \<Rightarrow> Inl Panic | Inl (Err _) \<Rightarrow> Inr True | Inr _ \<Rightarrow> Inr False)"

text \<open>The state of the scan: the updates and the best score so far.\<close>

type_synonym scan_state = "AnchorStateUpdates \<times> u64 option"

definition is_denied :: "AnchorEnv \<Rightarrow> DenyListEntry list \<Rightarrow> hash \<Rightarrow> AnchorStateUpdates \<Rightarrow> u8 \<Rightarrow> bool" where
  "is_denied env stored blk u i \<longleftrightarrow>
     list_ex (\<lambda>e. deny_trustee e = i \<and> is_chain_ancestor_of env (accepting_block e) blk) stored \<or>
     list_ex (\<lambda>e. deny_trustee e = i) (new_deny_entries u)"

definition scan_evidence ::
    "TrusteeCrypto \<Rightarrow> FinalityAnchorParams \<Rightarrow> AnchorEnv \<Rightarrow> TrusteeKeys \<Rightarrow> DenyListEntry list \<Rightarrow> hash \<Rightarrow>
     scan_state \<Rightarrow> EquivocationEvidence \<Rightarrow> ('e, scan_state) outcome" where
  "scan_evidence c p env keys stored blk st ev =
     (let (u, best) = st in
      bindR (is_err (verify_equivocation_evidence c ev keys (cadence_interval p))) (\<lambda>bad.
      if bad \<or> is_denied env stored blk u (trustee_index ev) then Inr st
      else Inr (u\<lparr>new_deny_entries := new_deny_entries u @
        [\<lparr>deny_trustee = trustee_index ev, accepting_block = blk\<rparr>]\<rparr>, best)))"

definition scan_anchor ::
    "TrusteeCrypto \<Rightarrow> FinalityAnchorParams \<Rightarrow> AnchorEnv \<Rightarrow> TrusteeKeys \<Rightarrow> DenyListEntry list \<Rightarrow> hash \<Rightarrow> u64 \<Rightarrow>
     scan_state \<Rightarrow> FinalityAnchor \<Rightarrow> ('e, scan_state) outcome" where
  "scan_anchor c p env keys stored blk blk_score st a =
     (let (u, best) = st in
      bindR (is_err (verify_anchor c a keys)) (\<lambda>bad.
      if bad \<or> saturating_sub blk_score (anchored_daa_score a) < anchor_depth p then Inr st
      else case header_daa_score env (anchored_block a) of
        None \<Rightarrow> Inr st
      | Some score \<Rightarrow>
          if score \<noteq> anchored_daa_score a \<or> \<not> is_chain_ancestor_of env (anchored_block a) blk then Inr st
          else
            let countable = length (filter (\<lambda>i. \<not> is_denied env stored blk u i) (bitmap_signers (signer_bitmap a))) in
            if countable < ANCHOR_QUORUM then Inr st
            else if (case best of None \<Rightarrow> True | Some b \<Rightarrow> b < anchored_daa_score a)
            then Inr (u\<lparr>new_latest := Some a\<rparr>, Some (anchored_daa_score a))
            else Inr st))"

definition scan_tx ::
    "TrusteeCrypto \<Rightarrow> FinalityAnchorParams \<Rightarrow> AnchorEnv \<Rightarrow> TrusteeKeys \<Rightarrow> DenyListEntry list \<Rightarrow> hash \<Rightarrow> u64 \<Rightarrow>
     Transaction list \<Rightarrow> scan_state \<Rightarrow> AcceptedTxEntry \<Rightarrow> ('e, scan_state) outcome" where
  "scan_tx c p env keys stored blk blk_score txs st entry =
     (let i = unat (index_within_block entry) in
      if length txs \<le> i then Inr st
      else if subnetwork_id (txs ! i) \<noteq> SUBNETWORK_ID_FINALITY_ANCHOR then Inr st
      else case decode_anchor_payload env (payload (txs ! i)) of
        None \<Rightarrow> Inr st
      | Some (Equivocation ev) \<Rightarrow> scan_evidence c p env keys stored blk st ev
      | Some (Anchor a) \<Rightarrow> scan_anchor c p env keys stored blk blk_score st a)"

definition scan_mergeset_block ::
    "TrusteeCrypto \<Rightarrow> FinalityAnchorParams \<Rightarrow> AnchorEnv \<Rightarrow> TrusteeKeys \<Rightarrow> DenyListEntry list \<Rightarrow> hash \<Rightarrow> u64 \<Rightarrow>
     scan_state \<Rightarrow> MergesetBlockAcceptanceData \<Rightarrow> ('e, scan_state) outcome" where
  "scan_mergeset_block c p env keys stored blk blk_score st m =
     (case block_transactions_of env (merged_block m) of
        None \<Rightarrow> Inr st
      | Some txs \<Rightarrow> fold_result (scan_tx c p env keys stored blk blk_score txs) st (accepted_transactions m))"

definition scan_chain_block ::
    "TrusteeCrypto \<Rightarrow> FinalityAnchorParams \<Rightarrow> AnchorEnv \<Rightarrow> TrusteeKeys \<Rightarrow> DenyListEntry list \<Rightarrow>
     scan_state \<Rightarrow> hash \<Rightarrow> ('e, scan_state) outcome" where
  "scan_chain_block c p env keys stored st blk =
     bindR (unwrap (header_daa_score env blk)) (\<lambda>blk_score.
     case acceptance_data_of env blk of
       None \<Rightarrow> Inr st
     | Some ms \<Rightarrow> fold_result (scan_mergeset_block c p env keys stored blk blk_score) st ms)"

text \<open>A pending anchor is dropped once superseded and promoted once its block is known at the
  claimed score and on the chain of some body tip.\<close>

definition locally_verifiable :: "AnchorEnv \<Rightarrow> FinalityAnchor \<Rightarrow> bool" where
  "locally_verifiable env a \<longleftrightarrow>
     header_daa_score env (anchored_block a) = Some (anchored_daa_score a) \<and>
     is_chain_ancestor_of_any_body_tip env (anchored_block a)"

definition promote_pending :: "AnchorEnv \<Rightarrow> FinalityAnchor option \<Rightarrow> scan_state \<Rightarrow> scan_state" where
  "promote_pending env pend st =
     (let (u, best) = st in
      case pend of
        None \<Rightarrow> st
      | Some a \<Rightarrow>
          if (case best of None \<Rightarrow> False | Some b \<Rightarrow> anchored_daa_score a \<le> b) then (u\<lparr>clear_pending := True\<rparr>, best)
          else if locally_verifiable env a
          then (u\<lparr>new_latest := Some a, clear_pending := True\<rparr>, Some (anchored_daa_score a))
          else st)"

definition collect_finality_anchor_updates ::
    "TrusteeCrypto \<Rightarrow> FinalityAnchorParams \<Rightarrow> AnchorEnv \<Rightarrow> AnchorStore \<Rightarrow> hash list \<Rightarrow>
     ('e, AnchorStateUpdates option) outcome" where
  "collect_finality_anchor_updates c p env s added =
     (case trustees p of
        None \<Rightarrow> Inr None
      | Some keys \<Rightarrow>
          if added = [] then Inr None
          else bindR (fold_result (scan_chain_block c p env keys (deny_list s))
                 (AnchorStateUpdates_default, map_option stored_daa_score (latest s)) added) (\<lambda>st.
            let (u, _) = promote_pending env (pending s) st in
            Inr (if new_latest u \<noteq> None \<or> new_deny_entries u \<noteq> [] \<or> clear_pending u then Some u else None)))"

text \<open>The part of \<^verbatim>\<open>commit_virtual_state\<close> that writes the anchor state.\<close>

definition commit_anchor_updates :: "AnchorStateUpdates option \<Rightarrow> AnchorStore \<Rightarrow> AnchorStore" where
  "commit_anchor_updates updates s =
     (case updates of
        None \<Rightarrow> s
      | Some u \<Rightarrow>
          let s1 = (if new_deny_entries u = [] then s else append_deny_entries s (new_deny_entries u));
              s2 = (case new_latest u of None \<Rightarrow> s1
                    | Some a \<Rightarrow> s1\<lparr>latest := Some (stored_anchor a), latest_full := Some a\<rparr>)
          in if clear_pending u then s2\<lparr>pending := None\<rparr> else s2)"

section \<open>Gossiped anchors\<close>

datatype ExternalAnchorOutcome = Ratcheted | Pending | Ignored

definition apply_external_finality_anchor ::
    "TrusteeCrypto \<Rightarrow> FinalityAnchorParams \<Rightarrow> AnchorEnv \<Rightarrow> hash \<Rightarrow> AnchorStore \<Rightarrow> FinalityAnchor \<Rightarrow>
     ('e, AnchorStore \<times> ExternalAnchorOutcome) outcome" where
  "apply_external_finality_anchor c p env sink s a =
     (case trustees p of
        None \<Rightarrow> Inr (s, Ignored)
      | Some keys \<Rightarrow>
          bindR (is_err (verify_anchor c a keys)) (\<lambda>bad.
          if bad then Inr (s, Ignored)
          else
            let countable = length (filter (\<lambda>i. \<not> list_ex (\<lambda>e. deny_trustee e = i \<and>
                  is_chain_ancestor_of env (accepting_block e) sink) (deny_list s))
                  (bitmap_signers (signer_bitmap a)))
            in
            if countable < ANCHOR_QUORUM then Inr (s, Ignored)
            else if (case latest s of None \<Rightarrow> False | Some l \<Rightarrow> anchored_daa_score a \<le> stored_daa_score l)
            then Inr (s, Ignored)
            else if locally_verifiable env a then Inr (set_latest_direct s a, Ratcheted)
            else if (case pending s of None \<Rightarrow> False | Some b \<Rightarrow> anchored_daa_score a \<le> anchored_daa_score b)
            then Inr (s, Ignored)
            else Inr (s\<lparr>pending := Some a\<rparr>, Pending)))"

definition get_latest_full_finality_anchor :: "AnchorStore \<Rightarrow> FinalityAnchor option" where
  "get_latest_full_finality_anchor s = (case latest_full s of Some a \<Rightarrow> Some a | None \<Rightarrow> pending s)"

section \<open>Invariants\<close>

definition is_verified :: "TrusteeCrypto \<Rightarrow> TrusteeKeys \<Rightarrow> FinalityAnchor \<Rightarrow> bool" where
  "is_verified c keys a \<longleftrightarrow> verify_anchor c a keys = Inr ()"

definition is_justified :: "TrusteeCrypto \<Rightarrow> FinalityAnchorParams \<Rightarrow> TrusteeKeys \<Rightarrow> DenyListEntry \<Rightarrow> bool" where
  "is_justified c p keys e \<longleftrightarrow>
     (\<exists>ev. trustee_index ev = deny_trustee e \<and>
       verify_equivocation_evidence c ev keys (cadence_interval p) = Inr ())"

text \<open>The ratchet and its full copy agree; every anchor held is verified; every entry of the
  deny list rests on verified evidence and is listed once.\<close>

definition store_ok :: "TrusteeCrypto \<Rightarrow> FinalityAnchorParams \<Rightarrow> TrusteeKeys \<Rightarrow> AnchorStore \<Rightarrow> bool" where
  "store_ok c p keys s \<longleftrightarrow>
     latest s = map_option stored_anchor (latest_full s) \<and>
     (\<forall>a. latest_full s = Some a \<longrightarrow> is_verified c keys a) \<and>
     (\<forall>a. pending s = Some a \<longrightarrow> is_verified c keys a) \<and>
     distinct (deny_list s) \<and> (\<forall>e \<in> set (deny_list s). is_justified c p keys e)"

definition ratchet_le :: "StoredAnchor option \<Rightarrow> StoredAnchor option \<Rightarrow> bool" where
  "ratchet_le l l' \<longleftrightarrow>
     (\<forall>x. l = Some x \<longrightarrow> (\<exists>y. l' = Some y \<and> (y = x \<or> stored_daa_score x < stored_daa_score y)))"

lemma ratchet_le_refl [simp]: "ratchet_le l l"
  by (simp add: ratchet_le_def)

lemma ratchet_le_trans: "ratchet_le a b \<Longrightarrow> ratchet_le b d \<Longrightarrow> ratchet_le a d"
  unfolding ratchet_le_def by (metis less_trans)

text \<open>One step of the anchor state: the virtual processor adopts chain blocks, or a gossiped
  anchor arrives.\<close>

inductive anchor_step :: "TrusteeCrypto \<Rightarrow> FinalityAnchorParams \<Rightarrow> AnchorStore \<Rightarrow> AnchorStore \<Rightarrow> bool"
  for c p where
  adopt: "collect_finality_anchor_updates c p env s added = (Inr u :: (unit, _) outcome) \<Longrightarrow>
    anchor_step c p s (commit_anchor_updates u s)"
| gossip: "apply_external_finality_anchor c p env sink s a = (Inr (s', oc) :: (unit, _) outcome) \<Longrightarrow>
    anchor_step c p s s'"

text \<open>The two threads apart: the virtual processor first collects its updates from the store
  and later commits them; a gossiped anchor may be applied in between.\<close>

type_synonym thread_state = "AnchorStore \<times> AnchorStateUpdates option option"

inductive thread_step :: "TrusteeCrypto \<Rightarrow> FinalityAnchorParams \<Rightarrow> thread_state \<Rightarrow> thread_state \<Rightarrow> bool"
  for c p where
  collect: "collect_finality_anchor_updates c p env s added = (Inr u :: (unit, _) outcome) \<Longrightarrow>
    thread_step c p (s, None) (s, Some u)"
| commit: "thread_step c p (s, Some u) (commit_anchor_updates u s, None)"
| receive: "apply_external_finality_anchor c p env sink s a = (Inr (s', oc) :: (unit, _) outcome) \<Longrightarrow>
    thread_step c p (s, f) (s', f)"

section \<open>Lemmas\<close>

lemma is_err_eq [result_simps]:
  "is_err m = Inr False \<longleftrightarrow> (\<exists>x. m = Inr x)"
  "is_err m = Inr True \<longleftrightarrow> (\<exists>e. m = Inl (Err e))"
  "is_err m = Inl x \<longleftrightarrow> m = Inl Panic \<and> x = Panic"
  by (auto simp: is_err_def split: sum.splits fail.splits)

text \<open>What the scan keeps of its state.\<close>

definition scan_ok ::
    "TrusteeCrypto \<Rightarrow> FinalityAnchorParams \<Rightarrow> TrusteeKeys \<Rightarrow> AnchorStore \<Rightarrow> scan_state \<Rightarrow> bool" where
  "scan_ok c p keys s st \<longleftrightarrow>
     (let (u, best) = st in
      (case new_latest u of
         None \<Rightarrow> best = map_option stored_daa_score (latest s)
       | Some a \<Rightarrow> best = Some (anchored_daa_score a) \<and> is_verified c keys a \<and>
           (\<forall>l. latest s = Some l \<longrightarrow> stored_daa_score l < anchored_daa_score a)) \<and>
      (\<forall>e \<in> set (new_deny_entries u). is_justified c p keys e))"

lemma scan_ok_new_latest:
  assumes "scan_ok c p keys s (u, best)" and "is_verified c keys a"
    and "\<forall>b. best = Some b \<longrightarrow> b < anchored_daa_score a"
  shows "scan_ok c p keys s (u\<lparr>new_latest := Some a\<rparr>, Some (anchored_daa_score a))"
  using assms unfolding scan_ok_def
  by (auto split: option.splits intro: less_trans)

lemma scan_anchor_ok:
  assumes "scan_ok c p keys s st" and "scan_anchor c p env keys stored blk score st a = Inr st'"
  shows "scan_ok c p keys s st'"
proof -
  obtain u best where st: "st = (u, best)" by fastforce
  obtain bad where bad: "is_err (verify_anchor c a keys) = (Inr bad :: ('a, _) outcome)"
    using assms(2) by (auto simp: scan_anchor_def st bindR_eq_Inr)
  have "st' = st \<or> (\<not> bad \<and> st' = (u\<lparr>new_latest := Some a\<rparr>, Some (anchored_daa_score a)) \<and>
      (\<forall>b. best = Some b \<longrightarrow> b < anchored_daa_score a))"
    using assms(2) bad by (auto simp: scan_anchor_def st Let_def split: option.splits if_splits)
  moreover have "is_verified c keys a" if "\<not> bad"
    using bad that by (simp add: is_err_eq is_verified_def)
  ultimately show ?thesis
    using assms(1) scan_ok_new_latest [of c p keys s u best a] by (auto simp: st)
qed

lemma scan_evidence_ok:
  assumes "scan_ok c p keys s st" and "scan_evidence c p env keys stored blk st ev = Inr st'"
  shows "scan_ok c p keys s st'"
proof -
  obtain u best where st: "st = (u, best)" by fastforce
  obtain bad where bad: "is_err (verify_equivocation_evidence c ev keys (cadence_interval p)) = (Inr bad :: ('a, _) outcome)"
    using assms(2) by (auto simp: scan_evidence_def st bindR_eq_Inr)
  have "st' = st \<or> (\<not> bad \<and> st' = (u\<lparr>new_deny_entries := new_deny_entries u @
        [\<lparr>deny_trustee = trustee_index ev, accepting_block = blk\<rparr>]\<rparr>, best))"
    using assms(2) bad by (auto simp: scan_evidence_def st split: if_splits)
  moreover have "is_justified c p keys \<lparr>deny_trustee = trustee_index ev, accepting_block = blk\<rparr>" if "\<not> bad"
    using bad that by (auto simp: is_err_eq is_justified_def)
  ultimately show ?thesis
    using assms(1) by (auto simp: st scan_ok_def split: option.splits)
qed

lemma scan_tx_ok:
  assumes "scan_ok c p keys s st" and "scan_tx c p env keys stored blk score txs st e = Inr st'"
  shows "scan_ok c p keys s st'"
  using assms scan_anchor_ok [OF assms(1)] scan_evidence_ok [OF assms(1)]
  by (cases st'; cases st) (auto simp: scan_tx_def Let_def split: if_splits option.splits AnchorPayload.splits)

lemma fold_result_keeps:
  assumes "fold_result f st xs = Inr st'" and "P st" and "\<And>st x st'. P st \<Longrightarrow> f st x = Inr st' \<Longrightarrow> P st'"
  shows "P st'"
  using assms(1) by (rule fold_result_invariant [where I = "\<lambda>st _. P st"]) (fact assms(2), fact assms(3))

lemma scan_mergeset_block_ok:
  assumes "scan_ok c p keys s st" and "scan_mergeset_block c p env keys stored blk score st m = Inr st'"
  shows "scan_ok c p keys s st'"
  using assms fold_result_keeps [of _ st _ st' "scan_ok c p keys s", OF _ _ scan_tx_ok]
  by (auto simp: scan_mergeset_block_def split: option.splits)

lemma scan_chain_block_ok:
  assumes "scan_ok c p keys s st" and "scan_chain_block c p env keys stored st blk = Inr st'"
  shows "scan_ok c p keys s st'"
  using assms fold_result_keeps [of _ st _ st' "scan_ok c p keys s", OF _ _ scan_mergeset_block_ok]
  by (auto simp: scan_chain_block_def bindR_eq_Inr split: option.splits)

lemma promote_pending_ok:
  assumes "scan_ok c p keys s st" and "\<forall>a. pend = Some a \<longrightarrow> is_verified c keys a"
  shows "scan_ok c p keys s (promote_pending env pend st)"
proof -
  obtain u best where st: "st = (u, best)" by fastforce
  have flag: "scan_ok c p keys s (v\<lparr>clear_pending := True\<rparr>, b) \<longleftrightarrow> scan_ok c p keys s (v, b)" for v b
    by (simp add: scan_ok_def)
  have "u\<lparr>new_latest := Some a, clear_pending := True\<rparr> = u\<lparr>new_latest := Some a\<rparr>\<lparr>clear_pending := True\<rparr>" for a
    by simp
  then show ?thesis
    using assms scan_ok_new_latest [of c p keys s u best]
    by (auto simp: promote_pending_def st flag not_le split: option.splits)
qed

lemma append_new_prefix:
  "prefix l (foldl (\<lambda>l e. if e \<in> set l then l else l @ [e]) l es) \<and>
   (distinct l \<longrightarrow> distinct (foldl (\<lambda>l e. if e \<in> set l then l else l @ [e]) l es)) \<and>
   set (foldl (\<lambda>l e. if e \<in> set l then l else l @ [e]) l es) = set l \<union> set es"
proof (induction es arbitrary: l)
  case (Cons e es)
  from Cons [of l] Cons [of "l @ [e]"] show ?case
    by (auto dest: append_prefixD)
qed simp

lemma append_deny_entries_simps [simp]:
  "latest (append_deny_entries s es) = latest s"
  "latest_full (append_deny_entries s es) = latest_full s"
  "pending (append_deny_entries s es) = pending s"
  by (simp_all add: append_deny_entries_def)

lemma deny_list_append:
  "prefix (deny_list s) (deny_list (append_deny_entries s es))"
  "distinct (deny_list s) \<Longrightarrow> distinct (deny_list (append_deny_entries s es))"
  "set (deny_list (append_deny_entries s es)) = set (deny_list s) \<union> set es"
  using append_new_prefix [of "deny_list s" es] by (simp_all add: append_deny_entries_def)

lemma commit_anchor_updates_simps:
  "latest (commit_anchor_updates (Some u) s) =
     (case new_latest u of None \<Rightarrow> latest s | Some a \<Rightarrow> Some (stored_anchor a))"
  "latest_full (commit_anchor_updates (Some u) s) =
     (case new_latest u of None \<Rightarrow> latest_full s | Some a \<Rightarrow> Some a)"
  "pending (commit_anchor_updates (Some u) s) = (if clear_pending u then None else pending s)"
  "deny_list (commit_anchor_updates (Some u) s) =
     (if new_deny_entries u = [] then deny_list s else deny_list (append_deny_entries s (new_deny_entries u)))"
  by (simp_all add: commit_anchor_updates_def Let_def split: option.splits)

lemma commit_ok:
  assumes "store_ok c p keys s" and "scan_ok c p keys s (u, best)"
  shows "store_ok c p keys (commit_anchor_updates (Some u) s) \<and>
    ratchet_le (latest s) (latest (commit_anchor_updates (Some u) s)) \<and>
    prefix (deny_list s) (deny_list (commit_anchor_updates (Some u) s))"
  using assms
  by (auto simp: store_ok_def scan_ok_def commit_anchor_updates_simps deny_list_append ratchet_le_def
      stored_anchor_def split: option.splits)

lemma collect_ok:
  assumes "store_ok c p keys s" and "trustees p = Some keys"
    and "collect_finality_anchor_updates c p env s added = Inr (Some u)"
  shows "\<exists>best. scan_ok c p keys s (u, best)"
proof -
  let ?st0 = "(AnchorStateUpdates_default, map_option stored_daa_score (latest s))"
  let ?res = "\<lambda>st. let (u, _) = promote_pending env (pending s) st in
      Inr (if new_latest u \<noteq> None \<or> new_deny_entries u \<noteq> [] \<or> clear_pending u then Some u else None)"
  have "bindR (fold_result (scan_chain_block c p env keys (deny_list s)) ?st0 added :: ('a, _) outcome) ?res = Inr (Some u)"
    using assms(2,3) by (simp add: collect_finality_anchor_updates_def split: if_splits)
  then obtain st where st: "fold_result (scan_chain_block c p env keys (deny_list s)) ?st0 added = (Inr st :: ('a, _) outcome)"
      and "?res st = (Inr (Some u) :: ('a, _) outcome)"
    unfolding bindR_eq_Inr by blast
  then have u: "fst (promote_pending env (pending s) st) = u"
    by (simp add: split_beta split: if_splits)
  have "scan_ok c p keys s ?st0" by (simp add: scan_ok_def AnchorStateUpdates_default_def)
  then have "scan_ok c p keys s st"
    using fold_result_keeps [OF st, of "scan_ok c p keys s"] scan_chain_block_ok by blast
  then have "scan_ok c p keys s (promote_pending env (pending s) st)"
    using assms(1) by (intro promote_pending_ok) (auto simp: store_ok_def)
  then show ?thesis using u by (metis prod.collapse)
qed

lemma external_ok:
  assumes "store_ok c p keys s" and "trustees p = Some keys"
    and "apply_external_finality_anchor c p env sink s a = Inr (s', oc)"
  shows "store_ok c p keys s' \<and> ratchet_le (latest s) (latest s') \<and> deny_list s' = deny_list s"
proof -
  obtain bad where bad: "is_err (verify_anchor c a keys) = (Inr bad :: ('a, _) outcome)"
    using assms(2,3) by (auto simp: apply_external_finality_anchor_def bindR_eq_Inr)
  have "s' = s \<or> \<not> bad \<and> (\<forall>l. latest s = Some l \<longrightarrow> stored_daa_score l < anchored_daa_score a) \<and>
      (s' = set_latest_direct s a \<or> s' = s\<lparr>pending := Some a\<rparr>)"
    using assms(2,3) bad
    by (auto simp: apply_external_finality_anchor_def Let_def not_le split: if_splits option.splits)
  moreover have "is_verified c keys a" if "\<not> bad"
    using bad that by (simp add: is_err_eq is_verified_def)
  ultimately show ?thesis
    using assms(1)
    by (auto simp: store_ok_def set_latest_direct_def ratchet_le_def stored_anchor_def)
qed

lemma anchor_step_ok:
  assumes "anchor_step c p s s'" and "store_ok c p keys s" and "trustees p = Some keys"
  shows "store_ok c p keys s' \<and> ratchet_le (latest s) (latest s') \<and> prefix (deny_list s) (deny_list s')"
  using assms(1)
proof cases
  case (adopt env added u)
  show ?thesis
  proof (cases u)
    case None
    then have "s' = s" using adopt by (simp add: commit_anchor_updates_def)
    then show ?thesis using assms(2) by simp
  next
    case (Some v)
    then obtain best where "scan_ok c p keys s (v, best)"
      using adopt assms(2,3) collect_ok by blast
    then show ?thesis using adopt(1) Some commit_ok [OF assms(2)] by simp
  qed
next
  case (gossip env sink a oc)
  show ?thesis using external_ok [OF assms(2,3) gossip] by simp
qed

section \<open>Properties\<close>

text \<open>C2: The anchor ratchet.  Whatever chain blocks a node adopts and whatever anchors it
  receives, one after the other, its latest anchor is only ever replaced by one with a higher
  score, its deny list is only extended, each anchor it holds is verified, and each
  disqualified trustee is convicted by verified evidence.\<close>

theorem anchor_ratchet_monotone:
  assumes "(anchor_step c p)\<^sup>*\<^sup>* s s'" and "store_ok c p keys s" and "trustees p = Some keys"
  shows "store_ok c p keys s' \<and> ratchet_le (latest s) (latest s') \<and> prefix (deny_list s) (deny_list s')"
  using assms(1)
proof (induction rule: rtranclp_induct)
  case base
  then show ?case using assms(2) by simp
next
  case (step t t')
  with anchor_step_ok [of c p t t' keys] assms(3) show ?case
    by (meson prefix_order.trans ratchet_le_trans)
qed

text \<open>Witness: from the empty state, the sample anchor arrives by gossip while its block is on
  the chain of the only tip.\<close>

definition sample_params :: FinalityAnchorParams where
  "sample_params = LAUNCH_UNKEYED\<lparr>trustees := Some sample_keys\<rparr>"

definition later_anchor :: FinalityAnchor where
  "later_anchor = sample_anchor\<lparr>anchored_block := [10], anchored_daa_score := 1000\<rparr>"

text \<open>One chain: the blocks [9] and [10] at the scores 700 and 1000 below the tip [11] at
  score 2000, which accepts the sample anchor.\<close>

definition sample_anchor_tx :: Transaction where
  "sample_anchor_tx = \<lparr>version = 1, inputs = [], outputs = [], lock_time = 0,
     subnetwork_id = SUBNETWORK_ID_FINALITY_ANCHOR, gas = 0, payload = [0], storage_mass = 0, tx_id = [3]\<rparr>"

definition sample_env :: AnchorEnv where
  "sample_env = \<lparr>header_daa_score = map_of [([9], 700), ([10], 1000), ([11], 2000)],
     is_chain_ancestor_of = (\<lambda>a b. a \<le> b),
     acceptance_data_of = (\<lambda>b. if b = [11] then Some [\<lparr>merged_block = [10],
       accepted_transactions = [\<lparr>accepted_tx_id = [3], index_within_block = 0\<rparr>]\<rparr>] else None),
     block_transactions_of = (\<lambda>b. if b = [10] then Some [sample_anchor_tx] else None),
     decode_anchor_payload = (\<lambda>b. if b = [0] then Some (Anchor sample_anchor) else None),
     body_tips = [[11]]\<rparr>"

lemma later_anchor_verifies: "verify_anchor plain_trustee_crypto later_anchor sample_keys = Inr ()"
  by code_simp

lemma sample_gossip:
  "apply_external_finality_anchor plain_trustee_crypto sample_params sample_env [11] AnchorStore_empty sample_anchor =
     (Inr (set_latest_direct AnchorStore_empty sample_anchor, Ratcheted) :: (unit, _) outcome)"
  "apply_external_finality_anchor plain_trustee_crypto sample_params sample_env [11] AnchorStore_empty later_anchor =
     (Inr (set_latest_direct AnchorStore_empty later_anchor, Ratcheted) :: (unit, _) outcome)"
  by code_simp+

lemma sample_collect:
  "collect_finality_anchor_updates plain_trustee_crypto sample_params sample_env AnchorStore_empty [[11]] =
     (Inr (Some \<lparr>new_latest = Some sample_anchor, new_deny_entries = [], clear_pending = False\<rparr>) :: (unit, _) outcome)"
  by code_simp

theorem anchor_ratchet_monotone_witness:
  "store_ok plain_trustee_crypto sample_params sample_keys (set_latest_direct AnchorStore_empty sample_anchor) \<and>
   ratchet_le (latest AnchorStore_empty) (latest (set_latest_direct AnchorStore_empty sample_anchor))"
proof -
  have "anchor_step plain_trustee_crypto sample_params AnchorStore_empty (set_latest_direct AnchorStore_empty sample_anchor)"
    by (rule anchor_step.gossip [OF sample_gossip(1)])
  moreover have "store_ok plain_trustee_crypto sample_params sample_keys AnchorStore_empty"
    by (simp add: store_ok_def AnchorStore_empty_def)
  moreover have "trustees sample_params = Some sample_keys" by (simp add: sample_params_def)
  ultimately show ?thesis using anchor_ratchet_monotone r_into_rtranclp by metis
qed

text \<open>C27: The ratchet can move backward under concurrency.  The virtual processor computes its
  update from the store, releases it and writes the update later without looking again; an
  anchor gossiped in between, already ratcheted, is overwritten by the older one.\<close>

theorem anchor_ratchet_race:
  "\<exists>c p s1 f1 s2 f2 l1 l2. (thread_step c p)\<^sup>*\<^sup>* (AnchorStore_empty, None) (s1, f1) \<and>
     (thread_step c p)\<^sup>*\<^sup>* (s1, f1) (s2, f2) \<and>
     latest s1 = Some l1 \<and> latest s2 = Some l2 \<and> stored_daa_score l2 < stored_daa_score l1"
proof -
  let ?c = plain_trustee_crypto and ?p = sample_params
  let ?u = "Some \<lparr>new_latest = Some sample_anchor, new_deny_entries = [], clear_pending = False\<rparr>"
  let ?s1 = "set_latest_direct AnchorStore_empty later_anchor"
  have "thread_step ?c ?p (AnchorStore_empty, None) (AnchorStore_empty, Some ?u)"
    by (rule thread_step.collect [OF sample_collect])
  moreover have "thread_step ?c ?p (AnchorStore_empty, Some ?u) (?s1, Some ?u)"
    by (rule thread_step.receive [OF sample_gossip(2)])
  ultimately have "(thread_step ?c ?p)\<^sup>*\<^sup>* (AnchorStore_empty, None) (?s1, Some ?u)" by simp
  moreover have "(thread_step ?c ?p)\<^sup>*\<^sup>* (?s1, Some ?u) (commit_anchor_updates ?u ?s1, None)"
    by (rule r_into_rtranclp) (rule thread_step.commit)
  moreover have "latest ?s1 = Some \<lparr>stored_block = [10], stored_daa_score = 1000\<rparr>"
      "latest (commit_anchor_updates ?u ?s1) = Some \<lparr>stored_block = [9], stored_daa_score = 700\<rparr>"
    by (simp_all add: commit_anchor_updates_simps set_latest_direct_def stored_anchor_def
        sample_anchor_def later_anchor_def)
  ultimately show ?thesis by fastforce
qed

text \<open>C28: Guard, alert and report agree.  While the staleness bound does not overflow, the fork
  choice is guarded by the latest anchor's block exactly when the enforcement state is
  \<open>Enforcing\<close>, which is when trustees are pinned, an anchor is held and it is at most the bound
  below the score; the report for a sink of that score says the same.\<close>

theorem anchor_enforcement_agrees:
  assumes "unat (anchor_depth p) + 3 * unat (launch_interval p) < 2 ^ 64"
    and "header_daa_score env sink = Some score"
  shows "\<exists>g e st. (finality_anchor_guard p s score :: ('e, _) outcome) = Inr g \<and>
    (compute_anchor_enforcement_state p s score :: ('e, _) outcome) = Inr e \<and>
    (get_finality_anchor_status p env s sink :: ('e, _) outcome) = Inr st \<and>
    (e = Enforcing \<longleftrightarrow> trustees p \<noteq> None \<and> (\<exists>l. latest s = Some l \<and>
       unat score \<le> unat (stored_daa_score l) + unat (anchor_depth p) + 3 * unat (launch_interval p))) \<and>
    g = (if e = Enforcing then map_option stored_block (latest s) else None) \<and>
    st_enforcing st = (e = Enforcing) \<and> (e = Stale \<longleftrightarrow> trustees p \<noteq> None \<and> st_stale st)"
proof -
  let ?b = "anchor_depth p + 3 * launch_interval p"
  have three: "unat (3 * launch_interval p) = 3 * unat (launch_interval p)"
    using assms(1) unat_mul_no_overflow [of 3 "launch_interval p"] by simp
  then have b: "unat ?b = unat (anchor_depth p) + 3 * unat (launch_interval p)"
    using assms(1) unat_add_no_overflow [of "anchor_depth p" "3 * launch_interval p"] by simp
  have "(pmul 3 (launch_interval p) :: ('e, u64) outcome) = Inr (3 * launch_interval p)"
    using assms(1) three by (simp add: pmul_eq)
  then have bound: "(staleness_bound p score :: ('e, u64) outcome) = Inr ?b"
    using assms(1) three b
    by (simp add: staleness_bound_def cadence_interval_def ANCHOR_STALENESS_INTERVALS_def padd_eq)
  have fresh: "?b < saturating_sub score x \<longleftrightarrow>
      \<not> unat score \<le> unat x + unat (anchor_depth p) + 3 * unat (launch_interval p)" for x
    by (auto simp: word_less_nat_alt b unat_saturating_sub)
  show ?thesis
    using assms(2)
    by (cases "latest s"; cases "trustees p")
       (simp_all add: finality_anchor_guard_def compute_anchor_enforcement_state_def
         get_finality_anchor_status_def bound fresh unwrap_def)
qed

theorem anchor_enforcement_agrees_witness:
  "\<exists>g. (finality_anchor_guard sample_params (set_latest_direct AnchorStore_empty sample_anchor) 2000
        :: (unit, _) outcome) = Inr g \<and> g = Some [9]"
proof -
  have "unat (anchor_depth sample_params) + 3 * unat (launch_interval sample_params) < 2 ^ 64"
    by (simp add: sample_params_def LAUNCH_UNKEYED_def FINALITY_ANCHOR_DEPTH_def
        FINALITY_ANCHOR_LAUNCH_INTERVAL_def)
  moreover have "header_daa_score sample_env [11] = Some 2000" by (simp add: sample_env_def)
  ultimately show ?thesis
    using anchor_enforcement_agrees [of sample_params sample_env "[11]" 2000 "set_latest_direct AnchorStore_empty sample_anchor"]
    by (auto simp: sample_params_def LAUNCH_UNKEYED_def FINALITY_ANCHOR_DEPTH_def set_latest_direct_def
        FINALITY_ANCHOR_LAUNCH_INTERVAL_def stored_anchor_def sample_anchor_def)
qed

end
