(* ===== verification/Trustee_Signer.thy ===== *)
theory Trustee_Signer
  imports Finality_Anchor
begin

text \<open>
  The signing tool of a trustee: \<^verbatim>\<open>src/trustee-signer/src/lib.rs\<close>.  It polls its node, signs
  one chain block per cadence interval, exchanges signatures with the other signers and
  submits an anchor once three are held.  The node's answers are the record \<open>NodeRpc\<close>, the
  secret key is the function \<open>sign\<close>, and the state file is the last value written to it.
  The transport between signers, logging and the construction of the transaction around an
  anchor are left out.
\<close>

record PartialAttestation =
  partial_index :: u8
  partial_attestation :: AnchorAttestation

record SignerConfig =
  cfg_trustee_index :: u8
  cfg_depth :: u64
  cfg_interval :: u64
  cfg_trustee_keys :: "TrusteeKeys option"

record LastSigned =
  ls_score :: u64
  ls_block :: hash

definition LastSigned_default :: LastSigned where
  "LastSigned_default = \<lparr>ls_score = 0, ls_block = replicate 32 0\<rparr>"

text \<open>A \<^verbatim>\<open>BTreeMap\<close> is a list of pairs sorted by key.\<close>

definition bt_insert :: "'k::linorder \<Rightarrow> 'v \<Rightarrow> ('k \<times> 'v) list \<Rightarrow> ('k \<times> 'v) list" where
  "bt_insert k v m = insort_key fst (k, v) (filter (\<lambda>(k', _). k' \<noteq> k) m)"

record TrusteeSigner =
  last_signed :: LastSigned
  chain_cursor :: "hash option"
  partials :: "(hash \<times> u64, (u8 \<times> bytes) list) hash_map"
  last_submitted_score :: u64

text \<open>Answers of the node.  A block comes with its score and, in its verbose data, its selected
  parent; \<open>None\<close> is an error of the call.\<close>

record NodeRpc =
  virtual_daa_score :: u64
  dag_sink :: hash
  get_block :: "hash \<Rightarrow> (u64 \<times> hash option) option"
  get_virtual_chain_from_block :: "hash \<Rightarrow> hash list option"

datatype SignerError = RpcError | NoVerboseData

type_synonym 'a signer_result = "(SignerError, 'a) outcome"

text \<open>\<^verbatim>\<open>TrusteeSigner::new\<close>, given what the state file holds.\<close>

definition TrusteeSigner_new :: "SignerConfig \<Rightarrow> LastSigned option \<Rightarrow> TrusteeSigner signer_result" where
  "TrusteeSigner_new cfg file =
     (if unat (cfg_trustee_index cfg) < TRUSTEE_COUNT then
        Inr \<lparr>last_signed = (case file of Some l \<Rightarrow> l | None \<Rightarrow> LastSigned_default),
             chain_cursor = None, partials = [], last_submitted_score = 0\<rparr>
      else Inl Panic)"

definition insert_partial :: "TrusteeSigner \<Rightarrow> PartialAttestation \<Rightarrow> TrusteeSigner" where
  "insert_partial s pa =
     (let att = partial_attestation pa; k = (att_block att, att_daa_score att);
          m = (case hm_get (partials s) k of Some m \<Rightarrow> m | None \<Rightarrow> []) in
      s\<lparr>partials := hm_insert k (bt_insert (partial_index pa) (att_signature att) m) (partials s)\<rparr>)"

definition record_partial ::
    "TrusteeCrypto \<Rightarrow> SignerConfig \<Rightarrow> TrusteeSigner \<Rightarrow> PartialAttestation \<Rightarrow> TrusteeSigner signer_result" where
  "record_partial c cfg s pa =
     (let i = partial_index pa; att = partial_attestation pa in
      if TRUSTEE_COUNT \<le> unat i then Inr s
      else case cfg_trustee_keys cfg of
        None \<Rightarrow> Inr (insert_partial s pa)
      | Some keys \<Rightarrow>
          if length keys \<le> unat i then Inl Panic
          else case xonly_from_slice c (keys ! unat i) of
            None \<Rightarrow> Inr s
          | Some xonly \<Rightarrow>
              bindR (unwrap (signature_from_slice c (att_signature att))) (\<lambda>sig.
              if schnorr_verify c sig (anchor_signing_hash c (att_block att) (att_daa_score att)) xonly
              then Inr (insert_partial s pa) else Inr s))"

text \<open>\<open>sign_and_share\<close> returns the signer and the attestation it has shared; the caller's state
  file then holds \<open>last_signed\<close>.\<close>

definition sign_and_share ::
    "TrusteeCrypto \<Rightarrow> (hash \<Rightarrow> bytes) \<Rightarrow> SignerConfig \<Rightarrow> TrusteeSigner \<Rightarrow> hash \<Rightarrow> u64 \<Rightarrow>
     (TrusteeSigner \<times> PartialAttestation) signer_result" where
  "sign_and_share c sign cfg s b score =
     (let s1 = s\<lparr>last_signed := \<lparr>ls_score = score, ls_block = b\<rparr>\<rparr>;
          pa = \<lparr>partial_index = cfg_trustee_index cfg,
                partial_attestation = \<lparr>att_block = b, att_daa_score = score,
                  att_signature = sign (anchor_signing_hash c b score)\<rparr>\<rparr> in
      bindR (record_partial c cfg s1 pa) (\<lambda>s2. Inr (s2, pa)))"

text \<open>The walk back along selected parents ends only if the node's answers let it.\<close>

partial_function (option) walk_back ::
    "(hash \<Rightarrow> (u64 \<times> hash option) option) \<Rightarrow> u64 \<Rightarrow> hash \<Rightarrow> (SignerError + hash \<times> u64) option" where
  "walk_back getb bound h =
     (case getb h of
        None \<Rightarrow> Some (Inl RpcError)
      | Some (score, parent) \<Rightarrow>
          if score \<le> bound then Some (Inr (h, score))
          else (case parent of None \<Rightarrow> Some (Inl NoVerboseData) | Some q \<Rightarrow> walk_back getb bound q))"

fun find_target ::
    "(hash \<Rightarrow> (u64 \<times> hash option) option) \<Rightarrow> u64 \<Rightarrow> hash list \<Rightarrow> SignerError + (hash \<times> u64) option" where
  "find_target getb bound [] = Inr None"
| "find_target getb bound (h # hs) =
     (case getb h of
        None \<Rightarrow> Inl RpcError
      | Some (score, _) \<Rightarrow> if score \<le> bound then Inr (Some (h, score)) else find_target getb bound hs)"

text \<open>Signing a target once it is a full interval past the last signature.\<close>

definition sign_if_due ::
    "TrusteeCrypto \<Rightarrow> (hash \<Rightarrow> bytes) \<Rightarrow> SignerConfig \<Rightarrow> TrusteeSigner \<Rightarrow> hash \<times> u64 \<Rightarrow>
     (TrusteeSigner \<times> PartialAttestation option) signer_result" where
  "sign_if_due c sign cfg s target =
     (let (b, score) = target in
      if score < saturating_add (ls_score (last_signed s)) (cfg_interval cfg) \<or> b = ls_block (last_signed s)
      then Inr (s, None)
      else bindR (sign_and_share c sign cfg (s\<lparr>chain_cursor := Some b\<rparr>) b score) (\<lambda>(s, pa). Inr (s, Some pa)))"

definition tick ::
    "TrusteeCrypto \<Rightarrow> (hash \<Rightarrow> bytes) \<Rightarrow> SignerConfig \<Rightarrow> NodeRpc \<Rightarrow> TrusteeSigner \<Rightarrow>
     (TrusteeSigner \<times> PartialAttestation option) signer_result option" where
  "tick c sign cfg node s =
     (if cfg_interval cfg = 0 then Some (Inl Panic)
      else
        let bound = saturating_sub (virtual_daa_score node) (cfg_depth cfg) div cfg_interval cfg * cfg_interval cfg in
        if bound < saturating_add (ls_score (last_signed s)) (cfg_interval cfg) then Some (Inr (s, None))
        else case chain_cursor s of
          None \<Rightarrow>
            map_option (\<lambda>found. bindR (map_err Err found) (sign_if_due c sign cfg s))
              (walk_back (get_block node) bound (dag_sink node))
        | Some cursor \<Rightarrow> Some
            (case get_virtual_chain_from_block node cursor of
               None \<Rightarrow> Inr (s\<lparr>chain_cursor := None\<rparr>, None)
             | Some chain \<Rightarrow>
                 bindR (map_err Err (find_target (get_block node) bound (rev chain))) (\<lambda>target.
                 case target of
                   None \<Rightarrow> Inr (s, None)
                 | Some t \<Rightarrow> sign_if_due c sign cfg s t)))"

text \<open>The pair with the highest score among those with a quorum; \<^verbatim>\<open>max_by_key\<close> keeps the last
  of several.\<close>

definition best_quorum :: "TrusteeSigner \<Rightarrow> ((hash \<times> u64) \<times> (u8 \<times> bytes) list) option" where
  "best_quorum s =
     foldl (\<lambda>best x. case best of None \<Rightarrow> Some x
              | Some y \<Rightarrow> if snd (fst y) \<le> snd (fst x) then Some x else Some y) None
       (filter (\<lambda>((_, score), sigs). last_submitted_score s < score \<and> ANCHOR_QUORUM \<le> length sigs) (partials s))"

text \<open>\<^verbatim>\<open>bitmap |= 1 << index\<close>; the shift panics for an index of 8 or more.\<close>

definition set_signer_bit :: "u8 \<Rightarrow> u8 \<times> bytes \<Rightarrow> (SignerError, u8) outcome" where
  "set_signer_bit bm x = (if unat (fst x) < 8 then Inr (bm OR push_bit (unat (fst x)) 1) else Inl Panic)"

definition assemble_anchor :: "(hash \<times> u64) \<times> (u8 \<times> bytes) list \<Rightarrow> FinalityAnchor signer_result" where
  "assemble_anchor x =
     (let ((b, score), sigs) = x in
      bindR (fold_result set_signer_bit 0 sigs) (\<lambda>bm.
      Inr \<lparr>anchored_block = b, anchored_daa_score = score, signer_bitmap = bm,
           anchor_signatures = map snd sigs\<rparr>))"

definition mark_submitted :: "TrusteeSigner \<Rightarrow> u64 \<Rightarrow> TrusteeSigner" where
  "mark_submitted s score =
     s\<lparr>last_submitted_score := score, partials := filter (\<lambda>((_, sc), _). score < sc) (partials s)\<rparr>"

text \<open>What the node says to a submitted anchor.\<close>

datatype SubmitReply = Submitted | AlreadyKnown | Refused

definition try_submit ::
    "(FinalityAnchor \<Rightarrow> SubmitReply) \<Rightarrow> TrusteeSigner \<Rightarrow> (TrusteeSigner \<times> FinalityAnchor option) signer_result" where
  "try_submit submit s =
     (case best_quorum s of
        None \<Rightarrow> Inr (s, None)
      | Some x \<Rightarrow>
          bindR (assemble_anchor x) (\<lambda>a.
          case submit a of
            Refused \<Rightarrow> Inl (Err RpcError)
          | _ \<Rightarrow> Inr (mark_submitted s (anchored_daa_score a), Some a)))"

section \<open>Histories of a signer\<close>

text \<open>The signer, its state file and every attestation it ever signed, newest first.  The node's
  answers and the received partials are arbitrary; the tool may be restarted at any time.
  Writes of the state file succeed.\<close>

type_synonym signer_history = "TrusteeSigner \<times> LastSigned option \<times> AnchorAttestation list"

inductive signer_step ::
    "TrusteeCrypto \<Rightarrow> (hash \<Rightarrow> bytes) \<Rightarrow> SignerConfig \<Rightarrow> signer_history \<Rightarrow> signer_history \<Rightarrow> bool"
  for c sign cfg where
  idle: "tick c sign cfg node s = Some (Inr (s', None)) \<Longrightarrow>
    signer_step c sign cfg (s, file, log) (s', file, log)"
| signed: "tick c sign cfg node s = Some (Inr (s', Some pa)) \<Longrightarrow>
    signer_step c sign cfg (s, file, log) (s', Some (last_signed s'), partial_attestation pa # log)"
| receive: "record_partial c cfg s pa = Inr s' \<Longrightarrow> signer_step c sign cfg (s, file, log) (s', file, log)"
| submit: "try_submit f s = Inr (s', a) \<Longrightarrow> signer_step c sign cfg (s, file, log) (s', file, log)"
| restart: "TrusteeSigner_new cfg file = Inr s' \<Longrightarrow> signer_step c sign cfg (s, file, log) (s', file, log)"

definition signer_start :: "SignerConfig \<Rightarrow> signer_history \<Rightarrow> bool" where
  "signer_start cfg h \<longleftrightarrow> (\<exists>s. TrusteeSigner_new cfg None = Inr s \<and> h = (s, None, []))"

section \<open>Lemmas\<close>

lemma last_signed_insert_partial [simp]: "last_signed (insert_partial s pa) = last_signed s"
  by (simp add: insert_partial_def Let_def)

lemma last_signed_record_partial: "record_partial c cfg s pa = Inr s' \<Longrightarrow> last_signed s' = last_signed s"
  by (auto simp: record_partial_def Let_def bindR_eq_Inr split: if_splits option.splits)

lemma last_signed_try_submit: "try_submit f s = Inr (s', a) \<Longrightarrow> last_signed s' = last_signed s"
  by (auto simp: try_submit_def mark_submitted_def bindR_eq_Inr split: option.splits)
     (auto simp: mark_submitted_def split: SubmitReply.splits)

lemma walk_back_bound: "walk_back getb bound h = Some (Inr (b, score)) \<Longrightarrow> score \<le> bound"
proof -
  have "walk_back getb bound h = Some r \<Longrightarrow> (\<forall>b score. r = Inr (b, score) \<longrightarrow> score \<le> bound)" for r
    by (rule walk_back.raw_induct [of "\<lambda>getb bound h r. \<forall>b score. r = Inr (b, score) \<longrightarrow> score \<le> bound"])
       (auto split: option.splits if_splits)
  then show "walk_back getb bound h = Some (Inr (b, score)) \<Longrightarrow> score \<le> bound" by blast
qed

lemma find_target_bound: "find_target getb bound hs = Inr (Some (b, score)) \<Longrightarrow> score \<le> bound"
  by (induction hs) (auto split: option.splits if_splits)

lemma sign_if_due_None: "sign_if_due c sign cfg s t = Inr (s', None) \<Longrightarrow> s' = s"
  by (auto simp: sign_if_due_def bindR_eq_Inr split: if_splits prod.splits)

lemma sign_if_due_Some:
  assumes "sign_if_due c sign cfg s (b, score) = Inr (s', Some pa)"
  shows "saturating_add (ls_score (last_signed s)) (cfg_interval cfg) \<le> score"
    and "last_signed s' = \<lparr>ls_score = score, ls_block = b\<rparr>"
    and "att_daa_score (partial_attestation pa) = score"
  using assms
  by (auto simp: sign_if_due_def sign_and_share_def Let_def bindR_eq_Inr split: if_splits
      dest: last_signed_record_partial)

definition tick_bound :: "SignerConfig \<Rightarrow> NodeRpc \<Rightarrow> u64" where
  "tick_bound cfg node =
     saturating_sub (virtual_daa_score node) (cfg_depth cfg) div cfg_interval cfg * cfg_interval cfg"

lemma tick_signs:
  assumes "tick c sign cfg node s = Some (Inr (s', out))"
  shows "last_signed s' = last_signed s \<and> out = None \<or>
    (\<exists>b score. score \<le> tick_bound cfg node \<and> sign_if_due c sign cfg s (b, score) = Inr (s', out))"
proof -
  have nz: "cfg_interval cfg \<noteq> 0" using assms by (auto simp: tick_def split: if_splits)
  show ?thesis
  proof (cases "tick_bound cfg node < saturating_add (ls_score (last_signed s)) (cfg_interval cfg)")
    case True
    then show ?thesis using assms nz by (auto simp: tick_def tick_bound_def Let_def)
  next
    case False
    show ?thesis
    proof (cases "chain_cursor s")
      case None
      then obtain r where "walk_back (get_block node) (tick_bound cfg node) (dag_sink node) = Some r"
          "bindR (map_err Err r) (sign_if_due c sign cfg s) = Inr (s', out)"
        using assms nz False by (auto simp: tick_def tick_bound_def Let_def)
      then show ?thesis using walk_back_bound by (fastforce simp: bindR_eq_Inr map_err_eq)
    next
      case (Some cursor)
      then show ?thesis
        using assms nz False find_target_bound [of "get_block node" "tick_bound cfg node"]
        by (fastforce simp: tick_def tick_bound_def [symmetric] Let_def bindR_eq_Inr map_err_eq
            split: option.splits)
    qed
  qed
qed

lemma tick_bound_depth:
  assumes "0 < unat (tick_bound cfg node)"
  shows "unat (tick_bound cfg node) + unat (cfg_depth cfg) < 2 ^ 64"
proof -
  let ?x = "saturating_sub (virtual_daa_score node) (cfg_depth cfg)"
  have div: "unat ?x div unat (cfg_interval cfg) * unat (cfg_interval cfg) \<le> unat ?x" by simp
  then have "unat ?x div unat (cfg_interval cfg) * unat (cfg_interval cfg) < 2 ^ LENGTH(64)"
    by (rule le_less_trans) (rule unat_less_two_power)
  then have "unat (tick_bound cfg node) = unat ?x div unat (cfg_interval cfg) * unat (cfg_interval cfg)"
    unfolding tick_bound_def by (subst unat_mul_no_overflow) (simp_all add: unat_div)
  with div have "unat (tick_bound cfg node) \<le> unat (virtual_daa_score node) - unat (cfg_depth cfg)"
    by (simp add: unat_saturating_sub)
  moreover have "unat (virtual_daa_score node) < 2 ^ 64" using unat_less_two_power [of "virtual_daa_score node"] by simp
  ultimately show ?thesis using assms by linarith
qed

text \<open>The invariant of a history: the signer remembers its newest attestation, the state file
  holds it, and the attestations are an interval apart.\<close>

definition history_ok :: "SignerConfig \<Rightarrow> signer_history \<Rightarrow> bool" where
  "history_ok cfg h \<longleftrightarrow>
     (let (s, file, log) = h in
      last_signed s = (case file of Some l \<Rightarrow> l | None \<Rightarrow> LastSigned_default) \<and>
      (case log of [] \<Rightarrow> file = None
       | a # _ \<Rightarrow> map_option ls_score file = Some (att_daa_score a) \<and>
           unat (att_daa_score a) + unat (cfg_depth cfg) < 2 ^ 64) \<and>
      sorted_wrt (\<lambda>a b. unat (att_daa_score b) + unat (cfg_interval cfg) \<le> unat (att_daa_score a)) log)"

lemma history_no_saturation:
  assumes "history_ok cfg (s, file, log)" and "cfg_interval cfg \<le> cfg_depth cfg"
  shows "unat (saturating_add (ls_score (last_signed s)) (cfg_interval cfg)) =
    unat (ls_score (last_signed s)) + unat (cfg_interval cfg)"
proof -
  have "unat (ls_score (last_signed s)) + unat (cfg_interval cfg) < 2 ^ 64"
  proof (cases log)
    case Nil
    then have "ls_score (last_signed s) = 0" using assms(1) by (simp add: history_ok_def LastSigned_default_def)
    then show ?thesis using unat_less_two_power [of "cfg_interval cfg"] by simp
  next
    case (Cons a as)
    then have "ls_score (last_signed s) = att_daa_score a" "unat (att_daa_score a) + unat (cfg_depth cfg) < 2 ^ 64"
      using assms(1) by (auto simp: history_ok_def)
    then show ?thesis using assms(2) by (simp add: word_le_nat_alt)
  qed
  then show ?thesis by (simp add: unat_saturating_add)
qed

lemma history_ok_signed:
  assumes "history_ok cfg (s, file, log)" and "cfg_interval cfg \<le> cfg_depth cfg" and "0 < cfg_interval cfg"
    and "score \<le> tick_bound cfg node" and "sign_if_due c sign cfg s (b, score) = Inr (s', Some pa)"
  shows "history_ok cfg (s', Some (last_signed s'), partial_attestation pa # log)"
proof -
  note due = sign_if_due_Some [OF assms(5)]
  have later: "unat (ls_score (last_signed s)) + unat (cfg_interval cfg) \<le> unat score"
    using due(1) history_no_saturation [OF assms(1,2)] by (simp add: word_le_nat_alt)
  have "0 < unat score" using later assms(3) by (simp add: word_less_nat_alt)
  then have "unat score + unat (cfg_depth cfg) < 2 ^ 64"
    using tick_bound_depth [of cfg node] assms(4) unfolding word_le_nat_alt by linarith
  moreover have "unat (att_daa_score a) + unat (cfg_interval cfg) \<le> unat score" if "a \<in> set log" for a
  proof -
    obtain x xs where log: "log = x # xs" using \<open>a \<in> set log\<close> by (cases log) auto
    have "ls_score (last_signed s) = att_daa_score x" using assms(1) log by (auto simp: history_ok_def)
    moreover have "unat (att_daa_score a) \<le> unat (att_daa_score x)"
      using assms(1) log that by (auto simp: history_ok_def)
    ultimately show ?thesis using later by simp
  qed
  ultimately show ?thesis using assms(1) due by (simp add: history_ok_def)
qed

lemma signer_step_ok:
  assumes "signer_step c sign cfg h h'" and "history_ok cfg h"
    and "cfg_interval cfg \<le> cfg_depth cfg" and "0 < cfg_interval cfg"
  shows "history_ok cfg h'"
  using assms(1)
proof cases
  case (idle node s s' fl log)
  then have "last_signed s' = last_signed s" using tick_signs sign_if_due_None by blast
  then show ?thesis using idle assms(2) by (simp add: history_ok_def)
next
  case (signed node s s' pa fl log)
  then obtain b score where "score \<le> tick_bound cfg node" "sign_if_due c sign cfg s (b, score) = Inr (s', Some pa)"
    using tick_signs by blast
  then show ?thesis using signed assms(2-4) history_ok_signed by simp
next
  case (receive s pa s' fl log)
  then have "last_signed s' = last_signed s" using last_signed_record_partial by blast
  then show ?thesis using receive assms(2) by (simp add: history_ok_def)
next
  case (submit f s s' a fl log)
  then have "last_signed s' = last_signed s" using last_signed_try_submit by blast
  then show ?thesis using submit assms(2) by (simp add: history_ok_def)
next
  case (restart fl s' s log)
  then have "last_signed s' = (case fl of Some l \<Rightarrow> l | None \<Rightarrow> LastSigned_default)"
    by (auto simp: TrusteeSigner_new_def split: if_splits)
  then show ?thesis using restart assms(2) by (simp add: history_ok_def)
qed

lemma history_reachable_ok:
  assumes "signer_start cfg h0" and "(signer_step c sign cfg)\<^sup>*\<^sup>* h0 h"
    and "cfg_interval cfg \<le> cfg_depth cfg" and "0 < cfg_interval cfg"
  shows "history_ok cfg h"
  using assms(2)
proof (induction rule: rtranclp_induct)
  case base
  then show ?case
    using assms(1) by (auto simp: signer_start_def history_ok_def TrusteeSigner_new_def split: if_splits)
next
  case (step h h')
  then show ?case using signer_step_ok assms(3,4) by blast
qed

lemma log_apart:
  assumes "sorted_wrt (\<lambda>a b. unat (att_daa_score b) + i \<le> unat (att_daa_score a)) log"
    and "a \<in> set log" and "b \<in> set log" and "att_block a \<noteq> att_block b"
  shows "unat (att_daa_score b) + i \<le> unat (att_daa_score a) \<or>
    unat (att_daa_score a) + i \<le> unat (att_daa_score b)"
proof -
  obtain k l where "a = log ! k" "k < length log" "b = log ! l" "l < length log"
    using assms(2,3) by (auto simp: in_set_conv_nth)
  moreover have "k \<noteq> l" using assms(4) calculation by auto
  ultimately show ?thesis
    using assms(1) sorted_wrt_iff_nth_less by (metis linorder_neqE_nat)
qed

text \<open>The signer has signed the block and score of an attestation.\<close>

definition has_signed :: "AnchorAttestation list \<Rightarrow> AnchorAttestation \<Rightarrow> bool" where
  "has_signed log att \<longleftrightarrow>
     (\<exists>a \<in> set log. att_block a = att_block att \<and> att_daa_score a = att_daa_score att)"

section \<open>Properties\<close>

text \<open>C3: An honest signer is never convicted.  With an interval that is positive and at most the
  depth, whatever the node and the other signers answer and however often the tool is
  restarted, as long as its state file is written, any two attestations it has signed for
  different blocks are at least an interval apart: no evidence about blocks and scores it has
  signed passes verification, whatever signatures it carries.\<close>

theorem signer_never_equivocates:
  assumes "signer_start cfg h0" and "(signer_step c sign cfg)\<^sup>*\<^sup>* h0 (s, file, log)"
    and "0 < cfg_interval cfg" and "cfg_interval cfg \<le> cfg_depth cfg"
    and "launch_interval p \<le> cfg_interval cfg"
    and "has_signed log (ev_first ev)" and "has_signed log (ev_second ev)"
  shows "verify_equivocation_evidence c ev keys (cadence_interval p) \<noteq> Inr ()"
proof
  assume "verify_equivocation_evidence c ev keys (cadence_interval p) = Inr ()"
  then have ev: "att_block (ev_first ev) \<noteq> att_block (ev_second ev)"
      "abs_diff (att_daa_score (ev_first ev)) (att_daa_score (ev_second ev)) < launch_interval p"
    by (simp_all add: verify_equivocation_Inr cadence_interval_def)
  have "sorted_wrt (\<lambda>a b. unat (att_daa_score b) + unat (cfg_interval cfg) \<le> unat (att_daa_score a)) log"
    using history_reachable_ok [OF assms(1,2,4,3)] by (simp add: history_ok_def)
  with assms(6,7) ev(1) log_apart [of "unat (cfg_interval cfg)" log]
  have "unat (att_daa_score (ev_second ev)) + unat (cfg_interval cfg) \<le> unat (att_daa_score (ev_first ev)) \<or>
      unat (att_daa_score (ev_first ev)) + unat (cfg_interval cfg) \<le> unat (att_daa_score (ev_second ev))"
    unfolding has_signed_def by metis
  then have "unat (cfg_interval cfg) \<le> unat (abs_diff (att_daa_score (ev_first ev)) (att_daa_score (ev_second ev)))"
    unfolding unat_abs_diff by (split if_split) linarith
  then show False using ev(2) assms(5) unfolding word_less_nat_alt word_le_nat_alt by linarith
qed

text \<open>Witness: trustee 2 signs block [5] at score 300 and, a poll later, block [6] at 600.\<close>

definition sample_cfg :: SignerConfig where
  "sample_cfg = \<lparr>cfg_trustee_index = 2, cfg_depth = 600, cfg_interval = 300, cfg_trustee_keys = Some sample_keys\<rparr>"

definition sample_sign :: "hash \<Rightarrow> bytes" where "sample_sign msg = sample_signature 2"

definition sample_node :: "u64 \<Rightarrow> hash \<Rightarrow> u64 \<Rightarrow> NodeRpc" where
  "sample_node vscore b score = \<lparr>virtual_daa_score = vscore, dag_sink = b,
     get_block = (\<lambda>h. if h = b then Some (score, None) else None),
     get_virtual_chain_from_block = (\<lambda>h. Some [b])\<rparr>"

definition sample_attestation :: "hash \<Rightarrow> u64 \<Rightarrow> AnchorAttestation" where
  "sample_attestation b score = \<lparr>att_block = b, att_daa_score = score, att_signature = sample_signature 2\<rparr>"

definition fresh_signer :: TrusteeSigner where
  "fresh_signer = \<lparr>last_signed = LastSigned_default, chain_cursor = None, partials = [], last_submitted_score = 0\<rparr>"

definition signer_after :: "hash \<Rightarrow> u64 \<Rightarrow> (hash \<times> u64, (u8 \<times> bytes) list) hash_map \<Rightarrow> TrusteeSigner" where
  "signer_after b score m = \<lparr>last_signed = \<lparr>ls_score = score, ls_block = b\<rparr>, chain_cursor = Some b,
     partials = m, last_submitted_score = 0\<rparr>"

lemma walk_back_hit: "getb h = Some (score, q) \<Longrightarrow> score \<le> bound \<Longrightarrow> walk_back getb bound h = Some (Inr (h, score))"
  by (subst walk_back.simps) simp

lemma sample_record:
  "record_partial plain_trustee_crypto sample_cfg s \<lparr>partial_index = 2, partial_attestation = sample_attestation b score\<rparr> =
     Inr (insert_partial s \<lparr>partial_index = 2, partial_attestation = sample_attestation b score\<rparr>)"
  by (simp add: record_partial_def sample_cfg_def sample_attestation_def TRUSTEE_COUNT_def sample_keys_def
      sample_signature_def plain_trustee_crypto_def PoolCrypto.extend_def plain_crypto_def unwrap_def)

lemma sample_sign_if_due:
  "saturating_add (ls_score (last_signed s)) 300 \<le> score \<Longrightarrow> b \<noteq> ls_block (last_signed s) \<Longrightarrow>
    sign_if_due plain_trustee_crypto sample_sign sample_cfg s (b, score) =
      Inr (insert_partial (s\<lparr>chain_cursor := Some b, last_signed := \<lparr>ls_score = score, ls_block = b\<rparr>\<rparr>)
        \<lparr>partial_index = 2, partial_attestation = sample_attestation b score\<rparr>,
        Some \<lparr>partial_index = 2, partial_attestation = sample_attestation b score\<rparr>)"
  using sample_record [of "s\<lparr>chain_cursor := Some b, last_signed := \<lparr>ls_score = score, ls_block = b\<rparr>\<rparr>" b score]
  by (simp add: sign_if_due_def sign_and_share_def Let_def sample_cfg_def sample_sign_def sample_attestation_def)

lemma short_not_zero_hash: "[b] \<noteq> replicate 32 (0 :: u8)"
  by (auto dest: arg_cong [where f = length])

lemma sample_ticks:
  "tick plain_trustee_crypto sample_sign sample_cfg (sample_node 1000 [5] 300) fresh_signer =
     Some (Inr (signer_after [5] 300 [(([5], 300), [(2, sample_signature 2)])],
       Some \<lparr>partial_index = 2, partial_attestation = sample_attestation [5] 300\<rparr>))"
  "tick plain_trustee_crypto sample_sign sample_cfg (sample_node 1000 [6] 300) fresh_signer =
     Some (Inr (signer_after [6] 300 [(([6], 300), [(2, sample_signature 2)])],
       Some \<lparr>partial_index = 2, partial_attestation = sample_attestation [6] 300\<rparr>))"
  "tick plain_trustee_crypto sample_sign sample_cfg (sample_node 1400 [6] 600)
       (signer_after [5] 300 [(([5], 300), [(2, sample_signature 2)])]) =
     Some (Inr (signer_after [6] 600 [(([5], 300), [(2, sample_signature 2)]), (([6], 600), [(2, sample_signature 2)])],
       Some \<lparr>partial_index = 2, partial_attestation = sample_attestation [6] 600\<rparr>))"
  by (simp_all add: tick_def sample_node_def sample_cfg_def [THEN arg_cong, of cfg_interval]
      sample_cfg_def [THEN arg_cong, of cfg_depth] walk_back_hit fresh_signer_def signer_after_def
      LastSigned_default_def saturating_add_def saturating_sub_def checked_add_def sample_sign_if_due
      insert_partial_def bt_insert_def hm_insert_def hm_get_def sample_attestation_def
      short_not_zero_hash)

lemma sample_new: "TrusteeSigner_new sample_cfg None = Inr fresh_signer"
  by code_simp

theorem signer_never_equivocates_witness:
  "verify_equivocation_evidence plain_trustee_crypto
     \<lparr>trustee_index = 2, ev_first = sample_attestation [5] 300, ev_second = sample_attestation [6] 600\<rparr>
     sample_keys (cadence_interval LAUNCH_UNKEYED) \<noteq> Inr ()"
proof -
  let ?s1 = "signer_after [5] 300 [(([5], 300), [(2, sample_signature 2)])]"
  let ?s2 = "signer_after [6] 600 [(([5], 300), [(2, sample_signature 2)]), (([6], 600), [(2, sample_signature 2)])]"
  let ?step = "signer_step plain_trustee_crypto sample_sign sample_cfg"
  have start: "signer_start sample_cfg (fresh_signer, None, [])"
    using sample_new by (simp add: signer_start_def)
  have "?step (fresh_signer, None, []) (?s1, Some (last_signed ?s1), [sample_attestation [5] 300])"
    using signer_step.signed [OF sample_ticks(1)] by simp
  moreover have "?step (?s1, Some (last_signed ?s1), [sample_attestation [5] 300])
      (?s2, Some (last_signed ?s2), [sample_attestation [6] 600, sample_attestation [5] 300])"
    using signer_step.signed [OF sample_ticks(3)] by simp
  ultimately have "?step\<^sup>*\<^sup>* (fresh_signer, None, [])
      (?s2, Some (last_signed ?s2), [sample_attestation [6] 600, sample_attestation [5] 300])" by simp
  from signer_never_equivocates [OF start this, of LAUNCH_UNKEYED] show ?thesis
    by (simp add: sample_cfg_def LAUNCH_UNKEYED_def FINALITY_ANCHOR_LAUNCH_INTERVAL_def has_signed_def)
qed


section \<open>Assembled anchors\<close>

text \<open>With the trustee keys configured, every signature the signer keeps is verified.\<close>

definition bundle_ok :: "TrusteeCrypto \<Rightarrow> TrusteeKeys \<Rightarrow> hash \<times> u64 \<Rightarrow> (u8 \<times> bytes) list \<Rightarrow> bool" where
  "bundle_ok c keys k m \<longleftrightarrow> sorted (map fst m) \<and> distinct (map fst m) \<and>
     (\<forall>(i, sig) \<in> set m. unat i < TRUSTEE_COUNT \<and>
       trustee_signed c keys (anchor_signing_hash c (fst k) (snd k)) i sig)"

definition partials_ok :: "TrusteeCrypto \<Rightarrow> TrusteeKeys \<Rightarrow> TrusteeSigner \<Rightarrow> bool" where
  "partials_ok c keys s \<longleftrightarrow> (\<forall>(k, m) \<in> set (partials s). bundle_ok c keys k m)"

lemma set_bt_insert: "set (bt_insert k v m) = insert (k, v) {x \<in> set m. fst x \<noteq> k}"
  by (auto simp: bt_insert_def set_insort_key)

lemma bt_insert_sorted:
  assumes "sorted (map fst m)" and "distinct (map fst m)"
  shows "sorted (map fst (bt_insert k v m)) \<and> distinct (map fst (bt_insert k v m))"
proof
  have f: "map fst (filter (\<lambda>(k', _). k' \<noteq> k) m) = filter (\<lambda>k'. k' \<noteq> k) (map fst m)"
    by (induction m) auto
  show "sorted (map fst (bt_insert k v m))"
    using assms(1) by (simp add: bt_insert_def sorted_insort_key f sorted_wrt_filter)
  have "distinct (map fst (filter (\<lambda>(k', _). k' \<noteq> k) m))" "k \<notin> set (map fst (filter (\<lambda>(k', _). k' \<noteq> k) m))"
    unfolding f using assms(2) by simp_all
  moreover have "mset (map fst (bt_insert k v m)) = mset (k # map fst (filter (\<lambda>(k', _). k' \<noteq> k) m))"
    by (simp add: bt_insert_def)
  ultimately show "distinct (map fst (bt_insert k v m))"
    by (metis distinct.simps(2) mset_eq_imp_distinct_iff)
qed

lemma bundle_ok_insert:
  assumes "bundle_ok c keys k m" and "unat i < TRUSTEE_COUNT"
    and "trustee_signed c keys (anchor_signing_hash c (fst k) (snd k)) i sig"
  shows "bundle_ok c keys k (bt_insert i sig m)"
  using assms bt_insert_sorted [of m i sig] by (auto simp: bundle_ok_def set_bt_insert)

lemma set_hm_insert: "set (hm_insert k v m) \<subseteq> insert (k, v) (set m)"
  unfolding hm_insert_def by (induction m) auto

lemma partials_ok_insert:
  assumes "partials_ok c keys s" and "unat (partial_index pa) < TRUSTEE_COUNT"
    and "trustee_signed c keys (anchor_signing_hash c (att_block (partial_attestation pa))
      (att_daa_score (partial_attestation pa))) (partial_index pa) (att_signature (partial_attestation pa))"
  shows "partials_ok c keys (insert_partial s pa)"
proof -
  let ?att = "partial_attestation pa"
  let ?k = "(att_block ?att, att_daa_score ?att)"
  define m where "m = (case hm_get (partials s) ?k of Some m \<Rightarrow> m | None \<Rightarrow> [])"
  have "bundle_ok c keys ?k m"
  proof (cases "hm_get (partials s) ?k")
    case (Some m')
    then have "(?k, m') \<in> set (partials s)" by (simp add: hm_get_def map_of_SomeD)
    then show ?thesis using assms(1) Some by (auto simp: partials_ok_def m_def)
  qed (simp add: m_def bundle_ok_def)
  then have "bundle_ok c keys ?k (bt_insert (partial_index pa) (att_signature ?att) m)"
    using assms(2,3) by (intro bundle_ok_insert) simp_all
  moreover have "partials (insert_partial s pa) =
      hm_insert ?k (bt_insert (partial_index pa) (att_signature ?att) m) (partials s)"
    by (simp add: insert_partial_def Let_def m_def)
  ultimately show ?thesis
    using assms(1) set_hm_insert [of ?k "bt_insert (partial_index pa) (att_signature ?att) m" "partials s"]
    by (auto simp: partials_ok_def)
qed

lemma record_partial_ok:
  assumes "record_partial c cfg s pa = Inr s'" and "cfg_trustee_keys cfg = Some keys" and "partials_ok c keys s"
  shows "partials_ok c keys s'"
proof -
  let ?att = "partial_attestation pa"
  have "s' = s \<or> s' = insert_partial s pa \<and> unat (partial_index pa) < TRUSTEE_COUNT \<and>
      trustee_signed c keys (anchor_signing_hash c (att_block ?att) (att_daa_score ?att))
        (partial_index pa) (att_signature ?att)"
    using assms(1,2)
    by (auto simp: record_partial_def Let_def trustee_signed_def result_simps split: if_splits option.splits)
  then show ?thesis using assms(3) partials_ok_insert by blast
qed

lemma tick_partials_ok:
  assumes "tick c sign cfg node s = Some (Inr (s', out))" and "cfg_trustee_keys cfg = Some keys"
    and "partials_ok c keys s"
  shows "partials_ok c keys s'"
proof -
  have upd: "partials_ok c keys (t\<lparr>chain_cursor := x\<rparr>) = partials_ok c keys t"
    "partials_ok c keys (t\<lparr>last_signed := y\<rparr>) = partials_ok c keys t" for t x y
    by (simp_all add: partials_ok_def)
  have due: "partials_ok c keys s'" if "sign_if_due c sign cfg s t = Inr (s', out)" for t
    using that record_partial_ok [OF _ assms(2)] assms(3)
    by (auto simp: sign_if_due_def sign_and_share_def Let_def bindR_eq_Inr upd split: if_splits prod.splits)
  show ?thesis
    using assms(1,3) due
    by (auto simp: tick_def Let_def bindR_eq_Inr map_err_eq upd split: if_splits option.splits)
qed

lemma set_signer_bits:
  assumes "\<forall>x \<in> set m. unat (fst x) < 8"
  shows "\<exists>bm'. fold_result set_signer_bit bm m = Inr bm' \<and>
    (\<forall>n. bit bm' n \<longleftrightarrow> bit bm n \<or> n \<in> unat ` fst ` set m)"
  using assms
proof (induction m arbitrary: bm)
  case (Cons x m)
  let ?bm = "bm OR push_bit (unat (fst x)) 1"
  have "bit ?bm n \<longleftrightarrow> bit bm n \<or> n = unat (fst x)" for n
    using Cons.prems by (auto simp: bit_or_iff bit_exp_iff)
  with Cons.IH [of ?bm] Cons.prems show ?case by (auto simp: set_signer_bit_def)
qed simp

lemma assemble_anchor_ok:
  assumes "bundle_ok c keys (fst x) (snd x)" and "ANCHOR_QUORUM \<le> length (snd x)"
  shows "\<exists>a. assemble_anchor x = Inr a \<and> verify_anchor c a keys = Inr ()"
proof -
  obtain b score m where x: "x = ((b, score), m)" by (metis surj_pair)
  have m: "sorted (map fst m)" "distinct (map fst m)" "ANCHOR_QUORUM \<le> length m"
    and signed: "\<And>i sig. (i, sig) \<in> set m \<Longrightarrow> unat i < TRUSTEE_COUNT \<and>
      trustee_signed c keys (anchor_signing_hash c b score) i sig"
    using assms x by (auto simp: bundle_ok_def)
  have "unat (fst y) < 8" if "y \<in> set m" for y
    using signed [of "fst y" "snd y"] that by (simp add: TRUSTEE_COUNT_def)
  then have "\<forall>y \<in> set m. unat (fst y) < 8" ..
  from set_signer_bits [OF this, of 0] obtain bm where
    bm: "fold_result set_signer_bit 0 m = Inr bm" "\<And>n. bit bm n \<longleftrightarrow> n \<in> unat ` fst ` set m"
    by auto
  let ?a = "\<lparr>anchored_block = b, anchored_daa_score = score, signer_bitmap = bm, anchor_signatures = map snd m\<rparr>"
  have "verify_anchor c ?a keys = Inr ()"
    using bm(2) m signed by (intro fa.verifies_bundle [of _ m]) simp_all
  moreover have "assemble_anchor x = Inr ?a" using bm(1) by (simp add: assemble_anchor_def x)
  ultimately show ?thesis by blast
qed

lemma best_quorum_Some:
  assumes "best_quorum s = Some x"
  shows "x \<in> set (partials s) \<and> ANCHOR_QUORUM \<le> length (snd x)"
proof -
  let ?xs = "filter (\<lambda>((_, score), sigs). last_submitted_score s < score \<and> ANCHOR_QUORUM \<le> length sigs) (partials s)"
  have "foldl (\<lambda>best x. case best of None \<Rightarrow> Some x
      | Some y \<Rightarrow> if snd (fst y) \<le> snd (fst x) then Some x else Some y) None xs = Some z \<Longrightarrow> z \<in> set xs" for xs z
    by (induction xs arbitrary: z rule: rev_induct) (auto split: option.splits if_splits)
  with assms have "x \<in> set ?xs" unfolding best_quorum_def by blast
  then show ?thesis by auto
qed

lemma try_submit_partials_ok:
  assumes "try_submit f s = Inr (s', a)" and "partials_ok c keys s"
  shows "partials_ok c keys s'"
proof -
  have "set (partials (mark_submitted s score)) \<subseteq> set (partials s)" for score
    by (auto simp: mark_submitted_def)
  then have "partials_ok c keys (mark_submitted s score)" for score
    using assms(2) unfolding partials_ok_def by blast
  with assms show ?thesis
    by (auto simp: try_submit_def bindR_eq_Inr split: option.splits) (auto split: SubmitReply.splits)
qed

lemma reachable_partials_ok:
  assumes "signer_start cfg h0" and "(signer_step c sign cfg)\<^sup>*\<^sup>* h0 h" and "cfg_trustee_keys cfg = Some keys"
  shows "partials_ok c keys (fst h)"
  using assms(2)
proof (induction rule: rtranclp_induct)
  case base
  then show ?case
    using assms(1) by (auto simp: signer_start_def TrusteeSigner_new_def partials_ok_def split: if_splits)
next
  case (step h h')
  from step(2) show ?case
    using step(3) tick_partials_ok [OF _ assms(3)] record_partial_ok [OF _ assms(3)] try_submit_partials_ok
    by cases (fastforce simp: TrusteeSigner_new_def partials_ok_def split: if_splits)+
qed


text \<open>Witness: partials of the trustees 0, 2 and 4 arrive and the anchor is assembled.\<close>

definition sample_partial :: "u8 \<Rightarrow> PartialAttestation" where
  "sample_partial i = \<lparr>partial_index = i, partial_attestation =
     \<lparr>att_block = [9], att_daa_score = 700, att_signature = sample_signature i\<rparr>\<rparr>"

definition signer_with :: "u8 list \<Rightarrow> TrusteeSigner" where
  "signer_with is = fresh_signer\<lparr>partials := [(([9], 700), map (\<lambda>i. (i, sample_signature i)) is)]\<rparr>"

lemma sample_partials_arrive:
  "record_partial plain_trustee_crypto sample_cfg fresh_signer (sample_partial 2) = Inr (signer_with [2])"
  "record_partial plain_trustee_crypto sample_cfg (signer_with [2]) (sample_partial 0) = Inr (signer_with [0, 2])"
  "record_partial plain_trustee_crypto sample_cfg (signer_with [0, 2]) (sample_partial 4) = Inr (signer_with [0, 2, 4])"
  "try_submit (\<lambda>_. Submitted) (signer_with [0, 2, 4]) =
     Inr (mark_submitted (signer_with [0, 2, 4]) 700, Some sample_anchor)"
  by code_simp+


end
