(* ===== verification/Release_Statements.thy ===== *)
theory Release_Statements
  imports Finality_Anchor
begin

text \<open>
  Release notices and release manifests, the documents by which the trustees tell wallets
  which releases to refuse and which files to install:
  \<^verbatim>\<open>src/consensus/core/src/finality_anchor/release_notice.rs\<close> and
  \<^verbatim>\<open>release_manifest.rs\<close>.  The message a trustee signs is a hash of the borsh encoding,
  here the parameters \<open>notice_hash\<close> and \<open>manifest_hash\<close>.
\<close>

record ReleaseNotice =
  notice_network :: string
  min_major :: u32
  min_release :: u32
  notice_issued_at :: u64

record SignedReleaseNotice =
  sn_notice :: ReleaseNotice
  sn_bitmap :: u8
  sn_signatures :: "bytes list"

definition refuses :: "ReleaseNotice \<Rightarrow> u32 \<Rightarrow> u32 \<Rightarrow> bool" where
  "refuses n major release \<longleftrightarrow> major < min_major n \<or> major = min_major n \<and> release < min_release n"

text \<open>The loop of \<^verbatim>\<open>assemble\<close>, shared by notices and manifests.  The pairs are sorted by
  index first; of several pairs of one trustee the first in that order counts.\<close>

definition assemble_signature ::
    "u8 \<times> bytes list \<Rightarrow> u8 \<times> bytes \<Rightarrow> FinalityAnchorError + u8 \<times> bytes list" where
  "assemble_signature st x =
     (let (bm, sigs) = st; (i, sig) = x in
      if TRUSTEE_COUNT \<le> unat i then Inl (TrusteeIndexOutOfRange i)
      else if bm AND push_bit (unat i) 1 \<noteq> 0 then Inr st
      else Inr (bm OR push_bit (unat i) 1, sigs @ [sig]))"

definition assemble_signatures :: "(u8 \<times> bytes) list \<Rightarrow> FinalityAnchorError + u8 \<times> bytes list" where
  "assemble_signatures pairs = fold_result assemble_signature (0, []) (sort_key fst pairs)"

definition SignedReleaseNotice_assemble ::
    "ReleaseNotice \<Rightarrow> (u8 \<times> bytes) list \<Rightarrow> FinalityAnchorError + SignedReleaseNotice" where
  "SignedReleaseNotice_assemble n pairs =
     bindR (assemble_signatures pairs) (\<lambda>(bm, sigs).
     Inr \<lparr>sn_notice = n, sn_bitmap = bm, sn_signatures = sigs\<rparr>)"

definition SignedReleaseNotice_verify ::
    "TrusteeCrypto \<Rightarrow> (ReleaseNotice \<Rightarrow> hash) \<Rightarrow> SignedReleaseNotice \<Rightarrow> TrusteeKeys \<Rightarrow> unit anchor_result" where
  "SignedReleaseNotice_verify c notice_hash sn keys =
     (if drop_bit TRUSTEE_COUNT (sn_bitmap sn) \<noteq> 0 then Inl (Err (BitmapOutOfRange (sn_bitmap sn)))
      else let signer_count = count_ones (sn_bitmap sn) in
        if signer_count \<noteq> length (sn_signatures sn)
        then Inl (Err (SignatureCountMismatch signer_count (length (sn_signatures sn))))
        else if signer_count < ANCHOR_QUORUM then Inl (Err (BelowQuorum signer_count))
        else verify_signatures c keys (notice_hash (sn_notice sn)) (sn_bitmap sn) (sn_signatures sn))"

record ReleaseManifest =
  manifest_version :: string
  manifest_issued_at :: u64
  assets :: "(string \<times> bytes) list"

record SignedReleaseManifest =
  sm_manifest :: ReleaseManifest
  sm_bitmap :: u8
  sm_signatures :: "bytes list"

text \<open>Strings are compared bytewise.\<close>

definition string_key :: "string \<Rightarrow> nat list" where
  "string_key s = map of_char s"

definition ReleaseManifest_new :: "string \<Rightarrow> u64 \<Rightarrow> (string \<times> bytes) list \<Rightarrow> ReleaseManifest" where
  "ReleaseManifest_new v issued xs =
     \<lparr>manifest_version = v, manifest_issued_at = issued, assets = sort_key (\<lambda>a. string_key (fst a)) xs\<rparr>"

definition digest_of :: "ReleaseManifest \<Rightarrow> string \<Rightarrow> bytes option" where
  "digest_of m asset = map_option snd (List.find (\<lambda>(name, _). name = asset) (assets m))"

definition SignedReleaseManifest_assemble ::
    "ReleaseManifest \<Rightarrow> (u8 \<times> bytes) list \<Rightarrow> FinalityAnchorError + SignedReleaseManifest" where
  "SignedReleaseManifest_assemble m pairs =
     bindR (assemble_signatures pairs) (\<lambda>(bm, sigs).
     Inr \<lparr>sm_manifest = m, sm_bitmap = bm, sm_signatures = sigs\<rparr>)"

definition SignedReleaseManifest_verify ::
    "TrusteeCrypto \<Rightarrow> (ReleaseManifest \<Rightarrow> hash) \<Rightarrow> SignedReleaseManifest \<Rightarrow> TrusteeKeys \<Rightarrow> unit anchor_result" where
  "SignedReleaseManifest_verify c manifest_hash sm keys =
     (if drop_bit TRUSTEE_COUNT (sm_bitmap sm) \<noteq> 0 then Inl (Err (BitmapOutOfRange (sm_bitmap sm)))
      else let signer_count = count_ones (sm_bitmap sm) in
        if signer_count \<noteq> length (sm_signatures sm)
        then Inl (Err (SignatureCountMismatch signer_count (length (sm_signatures sm))))
        else if signer_count < ANCHOR_QUORUM then Inl (Err (BelowQuorum signer_count))
        else verify_signatures c keys (manifest_hash (sm_manifest sm)) (sm_bitmap sm) (sm_signatures sm))"

section \<open>Lemmas\<close>

interpretation rn: quorum_statement c "SignedReleaseNotice_verify c notice_hash"
    "\<lambda>s. notice_hash (sn_notice s)" sn_bitmap sn_signatures
  for c notice_hash
  by unfold_locales (simp add: SignedReleaseNotice_verify_def check_bitmap_def Let_def)

interpretation rm: quorum_statement c "SignedReleaseManifest_verify c manifest_hash"
    "\<lambda>s. manifest_hash (sm_manifest s)" sm_bitmap sm_signatures
  for c manifest_hash
  by unfold_locales (simp add: SignedReleaseManifest_verify_def check_bitmap_def Let_def)

text \<open>The loop over sorted pairs: the pairs kept so far are ascending and carry the bits.\<close>

definition assembled :: "(u8 \<times> bytes) list \<Rightarrow> u8 \<times> bytes list \<Rightarrow> bool" where
  "assembled m st \<longleftrightarrow> (\<forall>n. bit (fst st) n \<longleftrightarrow> n \<in> unat ` fst ` set m) \<and> snd st = map snd m \<and>
     sorted (map fst m) \<and> distinct (map fst m)"

lemma assemble_loop:
  assumes "assembled m st" and "sorted (map fst xs)" and "\<forall>x \<in> set m. \<forall>y \<in> set xs. fst x \<le> fst y"
    and "\<forall>x \<in> set xs. unat (fst x) < TRUSTEE_COUNT"
  shows "\<exists>st' m'. fold_result assemble_signature st xs = Inr st' \<and> assembled m' st' \<and>
    set m' \<subseteq> set m \<union> set xs \<and> fst ` set m' = fst ` set m \<union> fst ` set xs"
  using assms
proof (induction xs arbitrary: m st)
  case (Cons x xs)
  obtain bm sigs i sig where st: "st = (bm, sigs)" and x: "x = (i, sig)" by (metis surj_pair)
  have i: "unat i < 5" using Cons.prems(4) by (simp add: x TRUSTEE_COUNT_def)
  then have known: "bm AND push_bit (unat i) 1 \<noteq> 0 \<longleftrightarrow> i \<in> fst ` set m"
    using Cons.prems(1) bit_of_bitmap [of "unat i" bm] by (simp add: assembled_def st unat_image_iff del: push_bit_of_1)
  show ?case
  proof (cases "i \<in> fst ` set m")
    case True
    then have "assemble_signature st x = Inr st"
      using i known by (simp add: assemble_signature_def st x TRUSTEE_COUNT_def del: push_bit_of_1)
    moreover obtain st' m' where r: "fold_result assemble_signature st xs = Inr st'" "assembled m' st'"
        "set m' \<subseteq> set m \<union> set xs" "fst ` set m' = fst ` set m \<union> fst ` set xs"
      using Cons.prems Cons.IH [of m st] by auto
    moreover have "fst ` set m' = fst ` set m \<union> fst ` set (x # xs)"
      using True r(4) by (auto simp: x)
    moreover have "set m' \<subseteq> set m \<union> set (x # xs)" using r(3) by auto
    ultimately show ?thesis by (intro exI [of _ st'] exI [of _ m']) simp
  next
    case False
    let ?st = "(bm OR push_bit (unat i) 1, sigs @ [sig])"
    have bits: "bit (bm OR push_bit (unat i) 1) n \<longleftrightarrow> bit bm n \<or> n = unat i" for n
      using i by (auto simp: bit_or_iff bit_exp_iff)
    have "assemble_signature st x = Inr ?st"
      using i known False by (simp add: assemble_signature_def st x TRUSTEE_COUNT_def del: push_bit_of_1)
    moreover have "assembled (m @ [x]) ?st"
      using Cons.prems(1,3) False bits
      by (auto simp: assembled_def st x sorted_append)
    then have "\<exists>st' m'. fold_result assemble_signature ?st xs = Inr st' \<and> assembled m' st' \<and>
        set m' \<subseteq> set (m @ [x]) \<union> set xs \<and> fst ` set m' = fst ` set (m @ [x]) \<union> fst ` set xs"
      using Cons.prems by (intro Cons.IH) auto
    ultimately show ?thesis by (auto simp: x)
  qed
qed auto

lemma assemble_signatures_ok:
  assumes "\<forall>(i, sig) \<in> set pairs. unat i < TRUSTEE_COUNT"
  shows "\<exists>st m. assemble_signatures pairs = Inr st \<and> assembled m st \<and>
    set m \<subseteq> set pairs \<and> fst ` set m = fst ` set pairs"
proof -
  have "\<forall>x \<in> set (sort_key fst pairs). unat (fst x) < TRUSTEE_COUNT" using assms by auto
  moreover have "assembled [] (0, [])" by (simp add: assembled_def)
  ultimately show ?thesis
    using assemble_loop [of "[]" "(0, [])" "sort_key fst pairs"] by (simp add: assemble_signatures_def)
qed

lemma assembled_length: "assembled m st \<Longrightarrow> length m = card (fst ` set m)"
  by (metis assembled_def distinct_card length_map set_map)

section \<open>Properties\<close>

text \<open>No fewer than three trustees can speak for the project.  A release notice or a release
  manifest that verifies carries valid signatures of three distinct trustees over the notice
  or manifest.\<close>

lemma release_statements_need_quorum:
  "(SignedReleaseNotice_verify c notice_hash sn keys = Inr () \<longrightarrow>
      3 \<le> card {i. \<exists>sig \<in> set (sn_signatures sn). trustee_signed c keys (notice_hash (sn_notice sn)) i sig}) \<and>
   (SignedReleaseManifest_verify c manifest_hash sm keys = Inr () \<longrightarrow>
      3 \<le> card {i. \<exists>sig \<in> set (sm_signatures sm). trustee_signed c keys (manifest_hash (sm_manifest sm)) i sig})"
  using rn.verified_quorum [of c notice_hash sn keys] rm.verified_quorum [of c manifest_hash sm keys]
  unfolding rn.signers_def rm.signers_def by blast

text \<open>What the trustees sign can be published.  From signatures of a notice by at least three
  distinct trustees, in any order and with repetitions, \<open>assemble\<close> makes a signed notice that
  verifies.\<close>

lemma release_notice_assembles:
  assumes "\<forall>(i, sig) \<in> set pairs. unat i < TRUSTEE_COUNT \<and> trustee_signed c keys (notice_hash n) i sig"
    and "3 \<le> card (fst ` set pairs)"
  shows "\<exists>sn. SignedReleaseNotice_assemble n pairs = Inr sn \<and> sn_notice sn = n \<and>
    SignedReleaseNotice_verify c notice_hash sn keys = Inr ()"
proof -
  have "\<forall>(i, sig) \<in> set pairs. unat i < TRUSTEE_COUNT" using assms(1) by auto
  then obtain bm sigs m where m: "assemble_signatures pairs = Inr (bm, sigs)" "assembled m (bm, sigs)"
      "set m \<subseteq> set pairs" "fst ` set m = fst ` set pairs"
    using assemble_signatures_ok [of pairs] by fastforce
  let ?sn = "\<lparr>sn_notice = n, sn_bitmap = bm, sn_signatures = sigs\<rparr>"
  have "ANCHOR_QUORUM \<le> length m"
    using assembled_length [OF m(2)] m(4) assms(2) by (simp add: ANCHOR_QUORUM_def)
  then have "SignedReleaseNotice_verify c notice_hash ?sn keys = Inr ()"
    using m(2,3) assms(1) by (intro rn.verifies_bundle [of _ m]) (auto simp: assembled_def)
  moreover have "SignedReleaseNotice_assemble n pairs = Inr ?sn"
    using m(1) by (simp add: SignedReleaseNotice_assemble_def)
  ultimately show ?thesis by auto
qed

definition sample_notice :: ReleaseNotice where
  "sample_notice = \<lparr>notice_network = ''testnet-10'', min_major = 2, min_release = 58, notice_issued_at = 7\<rparr>"

definition sample_pairs :: "(u8 \<times> bytes) list" where
  "sample_pairs = map (\<lambda>i. (i, sample_signature i)) [4, 0, 4, 2]"

lemma sample_signs: "i \<in> {0, 2, 4} \<Longrightarrow> trustee_signed plain_trustee_crypto sample_keys msg i (sample_signature i)"
  by (auto simp: trustee_signed_def plain_trustee_crypto_def PoolCrypto.extend_def plain_crypto_def
      sample_keys_def sample_signature_def)

lemma release_notice_assembles_witness:
  "\<exists>sn. SignedReleaseNotice_assemble sample_notice sample_pairs = Inr sn \<and> sn_notice sn = sample_notice \<and>
    SignedReleaseNotice_verify plain_trustee_crypto (\<lambda>n. [1]) sn sample_keys = Inr ()"
proof (rule release_notice_assembles)
  show "\<forall>(i, sig) \<in> set sample_pairs. unat i < TRUSTEE_COUNT \<and>
      trustee_signed plain_trustee_crypto sample_keys [1] i sig"
    by (auto simp: sample_pairs_def TRUSTEE_COUNT_def sample_signs)
  have "fst ` set sample_pairs = {4, 0, 2}" by (auto simp: sample_pairs_def)
  then show "3 \<le> card (fst ` set sample_pairs)" by simp
qed

lemma sample_notice_verifies:
  "SignedReleaseNotice_verify plain_trustee_crypto (\<lambda>n. [1])
     \<lparr>sn_notice = sample_notice, sn_bitmap = 21,
      sn_signatures = [sample_signature 0, sample_signature 2, sample_signature 4]\<rparr> sample_keys = Inr ()"
  by code_simp

lemma release_statements_need_quorum_witness:
  "3 \<le> card {i. \<exists>sig \<in> {sample_signature 0, sample_signature 2, sample_signature 4}.
     trustee_signed plain_trustee_crypto sample_keys [1] i sig}"
  using conjunct1 [OF release_statements_need_quorum [of plain_trustee_crypto "\<lambda>n. [1]"
    "\<lparr>sn_notice = sample_notice, sn_bitmap = 21,
      sn_signatures = [sample_signature 0, sample_signature 2, sample_signature 4]\<rparr>" sample_keys],
    THEN mp, OF sample_notice_verifies]
  by simp

end
