(* ===== verification/Mass.thy ===== *)
theory Mass
  imports Tx_Types
begin

text \<open>
  Transaction masses: \<^verbatim>\<open>src/consensus/core/src/mass/mod.rs\<close>.  Sizes and masses are u64 and
  every plain addition, multiplication and division of the source is one that panics.  The
  scaling of masses by floating-point cofactors is not modelled.  The decoding of a note-pool
  payload (borsh) is the parameter \<open>decode\<close>.
\<close>

definition HASH_SIZE :: nat where "HASH_SIZE = 32"

definition pdiv :: "'a::len word \<Rightarrow> 'a word \<Rightarrow> ('e, 'a word) outcome" where
  "pdiv a b = (if b = 0 then Inl Panic else Inr (a div b))"

text \<open>The sum of a mapped iterator.\<close>

definition psum_map :: "('x \<Rightarrow> ('e, 'a::len word) outcome) \<Rightarrow> 'x list \<Rightarrow> ('e, 'a word) outcome" where
  "psum_map f xs = fold_result (\<lambda>acc x. bindR (f x) (padd acc)) 0 xs"

section \<open>Sizes\<close>

definition outpoint_estimated_serialized_size :: u64 where
  "outpoint_estimated_serialized_size = of_nat HASH_SIZE + 4"

definition transaction_input_estimated_serialized_size :: "u16 \<Rightarrow> TransactionInput \<Rightarrow> ('e, u64) outcome" where
  "transaction_input_estimated_serialized_size ver i =
     bindR (padd (outpoint_estimated_serialized_size + 8) (of_nat (length (signature_script i)))) (\<lambda>size.
     bindR (padd size 8) (\<lambda>size.
     if 1 \<le> ver then padd size 2 else Inr size))"

definition transaction_output_estimated_serialized_size :: "TransactionOutput \<Rightarrow> ('e, u64) outcome" where
  "transaction_output_estimated_serialized_size out =
     bindR (padd (8 + 2 + 8) (of_nat (length (spk_script (out_spk out))))) (\<lambda>size.
     if covenant out \<noteq> None then bindR (padd size 2) (\<lambda>size. padd size (of_nat HASH_SIZE)) else Inr size)"

definition transaction_estimated_serialized_size :: "Transaction \<Rightarrow> ('e, u64) outcome" where
  "transaction_estimated_serialized_size t =
     bindR (psum_map (transaction_input_estimated_serialized_size (version t)) (inputs t)) (\<lambda>inputs_size.
     bindR (padd (2 + 8) inputs_size) (\<lambda>size.
     bindR (padd size 8) (\<lambda>size.
     bindR (psum_map transaction_output_estimated_serialized_size (outputs t)) (\<lambda>outputs_size.
     bindR (padd size outputs_size) (\<lambda>size.
     bindR (padd size (8 + of_nat SUBNETWORK_ID_SIZE + 8 + of_nat HASH_SIZE + 8)) (\<lambda>size.
     padd size (of_nat (length (payload t)))))))))"

definition UTXO_CONST_STORAGE :: nat where "UTXO_CONST_STORAGE = 32 + 4 + 8 + 8 + 1 + 2 + 8"
definition UTXO_UNIT_SIZE :: nat where "UTXO_UNIT_SIZE = 100"

definition nat_div_ceil :: "nat \<Rightarrow> nat \<Rightarrow> nat" where
  "nat_div_ceil a b = (if a mod b = 0 then a div b else a div b + 1)"

definition utxo_plurality :: "ScriptPublicKey \<Rightarrow> bool \<Rightarrow> u64" where
  "utxo_plurality spk has_covenant_id =
     of_nat (nat_div_ceil (UTXO_CONST_STORAGE + length (spk_script spk) + (if has_covenant_id then HASH_SIZE else 0))
       UTXO_UNIT_SIZE)"

record UtxoCell =
  plurality :: u64
  cell_amount :: u64

definition UtxoCell_from_entry :: "UtxoEntry \<Rightarrow> UtxoCell" where
  "UtxoCell_from_entry e = \<lparr>plurality = utxo_plurality (entry_spk e) (covenant_id e \<noteq> None), cell_amount = amount e\<rparr>"

definition UtxoCell_from_output :: "TransactionOutput \<Rightarrow> UtxoCell" where
  "UtxoCell_from_output out =
     \<lparr>plurality = utxo_plurality (out_spk out) (covenant out \<noteq> None), cell_amount = out_value out\<rparr>"

section \<open>Masses\<close>

record NonContextualMasses =
  compute_mass :: u64
  transient_mass :: u64

record MassCalculator =
  mass_per_tx_byte :: u64
  mass_per_script_pub_key_byte :: u64
  storage_mass_parameter :: u64

definition script_mass_of :: "Transaction \<Rightarrow> ('e, u64) outcome" where
  "script_mass_of t =
     (if version_expects_compute_budget_field (version t) then
        bindR (psum_map (\<lambda>i. bindR (unwrap (compute_budget (compute_commit i))) (\<lambda>b. Inr (ucast b))) (inputs t))
          (pmul GRAMS_PER_COMPUTE_BUDGET_UNIT)
      else
        bindR (psum_map (\<lambda>i. bindR (unwrap (sig_op_count (compute_commit i))) (\<lambda>b. Inr (ucast b))) (inputs t))
          (\<lambda>total. pmul total GRAMS_PER_SIGOP_COUNT_UNIT))"

definition pool_signature_mass_of :: "(bytes \<Rightarrow> PoolOp option) \<Rightarrow> Transaction \<Rightarrow> ('e, u64) outcome" where
  "pool_signature_mass_of decode t =
     (if subnetwork_id t = SUBNETWORK_ID_NOTE_POOL then
        case decode (payload t) of
          Some (Transfer tr) \<Rightarrow> pmul GRAMS_PER_COMPUTE_BUDGET_UNIT (of_nat (length (t_consumed tr)))
        | Some (TransferLocked tr) \<Rightarrow> pmul GRAMS_PER_COMPUTE_BUDGET_UNIT (of_nat (length (tl_consumed tr)))
        | Some (Redeem r) \<Rightarrow> pmul GRAMS_PER_COMPUTE_BUDGET_UNIT (of_nat (length (r_consumed r)))
        | _ \<Rightarrow> Inr 0
      else Inr 0)"

definition calc_non_contextual_masses ::
    "(bytes \<Rightarrow> PoolOp option) \<Rightarrow> MassCalculator \<Rightarrow> Transaction \<Rightarrow> ('e, NonContextualMasses) outcome" where
  "calc_non_contextual_masses decode mc t =
     (if is_coinbase t then Inr \<lparr>compute_mass = 0, transient_mass = 0\<rparr>
      else
        bindR (transaction_estimated_serialized_size t) (\<lambda>size.
        bindR (pmul size (mass_per_tx_byte mc)) (\<lambda>size_mass.
        bindR (psum_map (\<lambda>out. padd 2 (of_nat (length (spk_script (out_spk out))))) (outputs t)) (\<lambda>spk_size.
        bindR (pmul spk_size (mass_per_script_pub_key_byte mc)) (\<lambda>spk_mass.
        bindR (script_mass_of t) (\<lambda>script_mass.
        bindR (pool_signature_mass_of decode t) (\<lambda>pool_mass.
        bindR (padd size_mass spk_mass) (\<lambda>m.
        bindR (padd m script_mass) (\<lambda>m.
        bindR (padd m pool_mass) (\<lambda>compute.
        bindR (pmul size TRANSIENT_BYTE_TO_MASS_FACTOR) (\<lambda>transient.
        Inr \<lparr>compute_mass = compute, transient_mass = transient\<rparr>)))))))))))"

text \<open>Storage mass.  \<open>Inl (Err ())\<close> is the source's \<open>None\<close>: the mass is too high to compute.\<close>

definition harmonic_out :: "u64 \<Rightarrow> u64 \<times> u64 \<Rightarrow> UtxoCell \<Rightarrow> (unit, u64 \<times> u64) outcome" where
  "harmonic_out C st cell =
     (let (acc_plurality, acc_harm) = st in
      bindR (padd acc_plurality (plurality cell)) (\<lambda>p.
      bindR (ok_or (Err ()) (checked_mul C (plurality cell))) (\<lambda>cp.
      bindR (ok_or (Err ()) (checked_mul cp (plurality cell))) (\<lambda>cpp.
      bindR (pdiv cpp (cell_amount cell)) (\<lambda>h.
      bindR (ok_or (Err ()) (checked_add acc_harm h)) (\<lambda>harm.
      Inr (p, harm)))))))"

definition harmonic_in :: "u64 \<Rightarrow> u64 \<Rightarrow> UtxoCell \<Rightarrow> (unit, u64) outcome" where
  "harmonic_in C acc cell =
     bindR (pmul C (plurality cell)) (\<lambda>cp.
     bindR (pmul cp (plurality cell)) (\<lambda>cpp.
     bindR (pdiv cpp (cell_amount cell)) (\<lambda>h.
     Inr (saturating_add acc h))))"

definition arithmetic_in :: "u64 \<times> u64 \<Rightarrow> UtxoCell \<Rightarrow> (unit, u64 \<times> u64) outcome" where
  "arithmetic_in st cell =
     (let (acc_plur, acc_amt) = st in
      bindR (padd acc_plur (plurality cell)) (\<lambda>p.
      bindR (padd acc_amt (cell_amount cell)) (\<lambda>a.
      Inr (p, a))))"

definition relaxed_formula_path :: "UtxoCell list \<Rightarrow> u64 \<Rightarrow> (unit, bool) outcome" where
  "relaxed_formula_path ins outs_plurality =
     (if outs_plurality = 1 then Inr True
      else if 2 < length ins then Inr False
      else bindR (psum (map plurality ins)) (\<lambda>ins_plurality.
        Inr (ins_plurality = 1 \<or> outs_plurality = 2 \<and> ins_plurality = 2)))"

definition calc_storage_mass :: "bool \<Rightarrow> UtxoCell list \<Rightarrow> UtxoCell list \<Rightarrow> u64 \<Rightarrow> (unit, u64) outcome" where
  "calc_storage_mass coinbase ins outs storm_param =
     (if coinbase then Inr 0
      else
        bindR (fold_result (harmonic_out storm_param) (0, 0) outs) (\<lambda>(outs_plurality, harmonic_outs).
        if ins = [] then Inr harmonic_outs
        else
          bindR (relaxed_formula_path ins outs_plurality) (\<lambda>relaxed.
          if relaxed then
            bindR (fold_result (harmonic_in storm_param) 0 ins) (\<lambda>harmonic_ins.
            Inr (saturating_sub harmonic_outs harmonic_ins))
          else
            bindR (fold_result arithmetic_in (0, 0) ins) (\<lambda>(ins_plurality, sum_ins).
            bindR (pdiv sum_ins ins_plurality) (\<lambda>mean.
            bindR (pdiv storm_param (max mean 1)) (\<lambda>q.
            Inr (saturating_sub harmonic_outs (saturating_mul ins_plurality q))))))))"

definition calc_contextual_masses :: "MassCalculator \<Rightarrow> PopulatedTransaction \<Rightarrow> (unit, u64) outcome" where
  "calc_contextual_masses mc p =
     calc_storage_mass (is_coinbase (ptx p)) (map (\<lambda>(_, e). UtxoCell_from_entry e) (populated_inputs p))
       (map UtxoCell_from_output (outputs (ptx p))) (storage_mass_parameter mc)"

section \<open>The storage mass formula\<close>

text \<open>KIP-0009 over the natural numbers: a cell of plurality \<open>p\<close> and amount \<open>a\<close> weighs
  \<open>C p\<^sup>2 / a\<close>.\<close>

definition cell_share :: "u64 \<Rightarrow> UtxoCell \<Rightarrow> nat" where
  "cell_share C cell = unat C * unat (plurality cell) * unat (plurality cell) div unat (cell_amount cell)"

definition harmonic_sum :: "u64 \<Rightarrow> UtxoCell list \<Rightarrow> nat" where
  "harmonic_sum C cells = sum_list (map (cell_share C) cells)"

definition plurality_sum :: "UtxoCell list \<Rightarrow> nat" where
  "plurality_sum cells = sum_list (map (\<lambda>cell. unat (plurality cell)) cells)"

definition amount_sum :: "UtxoCell list \<Rightarrow> nat" where
  "amount_sum cells = sum_list (map (\<lambda>cell. unat (cell_amount cell)) cells)"

definition storage_mass_formula :: "u64 \<Rightarrow> UtxoCell list \<Rightarrow> UtxoCell list \<Rightarrow> nat" where
  "storage_mass_formula C ins outs =
     (if ins = [] then harmonic_sum C outs
      else if plurality_sum outs = 1 \<or> plurality_sum ins = 1 \<or> plurality_sum outs = 2 \<and> plurality_sum ins = 2
      then harmonic_sum C outs - harmonic_sum C ins
      else harmonic_sum C outs -
        plurality_sum ins * (unat C div max 1 (amount_sum ins div plurality_sum ins)))"

text \<open>Cells of the chain: pluralities and amounts are positive and the weight's product fits.\<close>

definition cell_ok :: "UtxoCell \<Rightarrow> bool" where
  "cell_ok cell \<longleftrightarrow> 0 < unat (plurality cell) \<and> 0 < unat (cell_amount cell)"

definition product_fits :: "u64 \<Rightarrow> UtxoCell \<Rightarrow> bool" where
  "product_fits C cell \<longleftrightarrow> unat C * unat (plurality cell) * unat (plurality cell) < 2 ^ 64"

lemma sums_simps [simp]:
  "harmonic_sum C [] = 0" "plurality_sum [] = 0" "amount_sum [] = 0"
  "harmonic_sum C (x # xs) = cell_share C x + harmonic_sum C xs"
  "plurality_sum (x # xs) = unat (plurality x) + plurality_sum xs"
  "amount_sum (x # xs) = unat (cell_amount x) + amount_sum xs"
  by (simp_all add: harmonic_sum_def plurality_sum_def amount_sum_def)

lemma pdiv_eq: "unat b \<noteq> 0 \<Longrightarrow> pdiv a b = Inr (a div b)"
  by (auto simp: pdiv_def)

lemma product_fits_half:
  assumes "product_fits C cell" and "cell_ok cell"
  shows "unat C * unat (plurality cell) < 2 ^ 64"
proof -
  have "unat C * unat (plurality cell) * 1 \<le> unat C * unat (plurality cell) * unat (plurality cell)"
    by (rule mult_le_mono2) (use assms(2) in \<open>simp add: cell_ok_def\<close>)
  then show ?thesis using assms(1) unfolding product_fits_def by linarith
qed

lemma unat_product:
  assumes "product_fits C cell" and "cell_ok cell"
  shows "unat (C * plurality cell * plurality cell) = unat C * unat (plurality cell) * unat (plurality cell)"
    and "unat (C * plurality cell) = unat C * unat (plurality cell)"
proof -
  show *: "unat (C * plurality cell) = unat C * unat (plurality cell)"
    using product_fits_half [OF assms] by (intro unat_mul_no_overflow) simp
  show "unat (C * plurality cell * plurality cell) = unat C * unat (plurality cell) * unat (plurality cell)"
    using assms(1) * by (subst unat_mul_no_overflow) (simp_all add: product_fits_def)
qed

lemma checked_products:
  assumes "cell_ok cell"
  shows "bindR (ok_or e (checked_mul C (plurality cell))) (\<lambda>cp. ok_or e (checked_mul cp (plurality cell))) =
    (if product_fits C cell then Inr (C * plurality cell * plurality cell) else Inl e)"
proof (cases "unat C * unat (plurality cell) < 2 ^ 64")
  case True
  then have "unat (C * plurality cell) = unat C * unat (plurality cell)"
    by (intro unat_mul_no_overflow) simp
  with True show ?thesis by (simp add: checked_mul_def product_fits_def)
next
  case False
  then have "\<not> product_fits C cell" using product_fits_half assms by blast
  with False show ?thesis by (simp add: checked_mul_def)
qed

lemma unat_share:
  assumes "product_fits C cell" and "cell_ok cell"
  shows "unat (C * plurality cell * plurality cell div cell_amount cell) = cell_share C cell"
  using unat_product(1) [OF assms] by (simp add: unat_div cell_share_def)

lemma harmonic_out_eq:
  assumes "cell_ok cell" and "unat p0 + unat (plurality cell) < 2 ^ 64"
  shows "harmonic_out C (p0, h0) cell =
    (if product_fits C cell \<and> unat h0 + cell_share C cell < 2 ^ 64
     then Inr (p0 + plurality cell, h0 + C * plurality cell * plurality cell div cell_amount cell)
     else Inl (Err ()))"
proof -
  have padd: "(padd p0 (plurality cell) :: (unit, u64) outcome) = Inr (p0 + plurality cell)"
    using assms(2) by (intro padd_ok) simp
  have nz: "unat (cell_amount cell) \<noteq> 0" using assms(1) by (simp add: cell_ok_def)
  have "harmonic_out C (p0, h0) cell =
      bindR (padd p0 (plurality cell)) (\<lambda>p.
      bindR (bindR (ok_or (Err ()) (checked_mul C (plurality cell))) (\<lambda>cp. ok_or (Err ()) (checked_mul cp (plurality cell)))) (\<lambda>cpp.
      bindR (pdiv cpp (cell_amount cell)) (\<lambda>h.
      bindR (ok_or (Err ()) (checked_add h0 h)) (\<lambda>harm. Inr (p, harm)))))"
    by (simp add: harmonic_out_def bindR_def split: sum.splits)
  also have "\<dots> = (if product_fits C cell \<and> unat h0 + cell_share C cell < 2 ^ 64
     then Inr (p0 + plurality cell, h0 + C * plurality cell * plurality cell div cell_amount cell)
     else Inl (Err ()))"
    using unat_share [OF _ assms(1), of C]
    by (simp add: padd checked_products [OF assms(1)] pdiv_eq [OF nz] checked_add_def)
  finally show ?thesis .
qed

lemma fold_harmonic_out:
  assumes "\<forall>cell \<in> set outs. cell_ok cell" and "unat p0 + plurality_sum outs < 2 ^ 64"
  shows "if (\<forall>cell \<in> set outs. product_fits C cell) \<and> unat h0 + harmonic_sum C outs < 2 ^ 64
    then \<exists>p h. fold_result (harmonic_out C) (p0, h0) outs = Inr (p, h) \<and>
      unat p = unat p0 + plurality_sum outs \<and> unat h = unat h0 + harmonic_sum C outs
    else fold_result (harmonic_out C) (p0, h0) outs = Inl (Err ())"
  using assms
proof (induction outs arbitrary: p0 h0)
  case (Cons cell outs)
  let ?p = "p0 + plurality cell" and ?h = "h0 + C * plurality cell * plurality cell div cell_amount cell"
  have ok: "cell_ok cell" "unat p0 + unat (plurality cell) < 2 ^ 64" using Cons.prems by auto
  show ?case
  proof (cases "product_fits C cell \<and> unat h0 + cell_share C cell < 2 ^ 64")
    case True
    have p: "unat ?p = unat p0 + unat (plurality cell)" using ok(2) by (intro unat_add_no_overflow) simp
    have h: "unat ?h = unat h0 + cell_share C cell"
      using True unat_share [of C cell] ok(1) by (subst unat_add_no_overflow) simp_all
    have "fold_result (harmonic_out C) (p0, h0) (cell # outs) = fold_result (harmonic_out C) (?p, ?h) outs"
      using harmonic_out_eq [OF ok] True by simp
    then show ?thesis
      using Cons.IH [of ?p ?h, unfolded p h] Cons.prems True by (simp add: add.assoc del: fold_result.simps cong: if_cong)
  next
    case False
    then have "harmonic_out C (p0, h0) cell = Inl (Err ())"
      using harmonic_out_eq [OF ok, of C h0] by argo
    then have "fold_result (harmonic_out C) (p0, h0) (cell # outs) = Inl (Err ())" by simp
    moreover have "\<not> (\<forall>c \<in> set (cell # outs). product_fits C c) \<or> \<not> unat h0 + harmonic_sum C (cell # outs) < 2 ^ 64"
      using False by auto
    ultimately show ?thesis by (simp only: if_not_P de_Morgan_conj)
  qed
next
  case Nil
  show ?case using unat_less_two_power [of h0] by simp
qed

lemma unat_saturating_mul: "unat (saturating_mul a b) = min (unat a * unat b) (2 ^ 64 - 1)" for a b :: u64
  by (auto simp: saturating_mul_def checked_mul_def unat_mul_no_overflow unsigned_minus_1_eq_mask
      mask_eq_exp_minus_1 split: option.splits)

lemma fold_harmonic_in:
  assumes "\<forall>cell \<in> set ins. cell_ok cell \<and> product_fits C cell"
  shows "\<exists>h. fold_result (harmonic_in C) h0 ins = Inr h \<and> unat h = min (unat h0 + harmonic_sum C ins) (2 ^ 64 - 1)"
  using assms
proof (induction ins arbitrary: h0)
  case Nil
  then show ?case using unat_less_two_power [of h0] by simp
next
  case (Cons cell ins)
  then have ok: "cell_ok cell" "product_fits C cell" by auto
  then have nz: "unat (cell_amount cell) \<noteq> 0" by (simp add: cell_ok_def)
  let ?h = "saturating_add h0 (C * plurality cell * plurality cell div cell_amount cell)"
  have "(pmul C (plurality cell) :: (unit, u64) outcome) = Inr (C * plurality cell)"
    using unat_product(2) [OF ok(2,1)] product_fits_half [OF ok(2,1)] by (simp add: pmul_eq)
  moreover have "(pmul (C * plurality cell) (plurality cell) :: (unit, u64) outcome) = Inr (C * plurality cell * plurality cell)"
    using unat_product [OF ok(2,1)] ok(2) by (simp add: pmul_eq product_fits_def)
  ultimately have "harmonic_in C h0 cell = Inr ?h"
    by (simp add: harmonic_in_def pdiv_eq [OF nz])
  moreover have "unat ?h = min (unat h0 + cell_share C cell) (2 ^ 64 - 1)"
    using unat_share [OF ok(2,1)] by (simp add: unat_saturating_add)
  ultimately show ?case using Cons.IH [of ?h] Cons.prems by auto
qed

lemma fold_arithmetic_in:
  assumes "unat p0 + plurality_sum ins < 2 ^ 64" and "unat a0 + amount_sum ins < 2 ^ 64"
  shows "\<exists>p a. fold_result arithmetic_in (p0, a0) ins = Inr (p, a) \<and>
    unat p = unat p0 + plurality_sum ins \<and> unat a = unat a0 + amount_sum ins"
  using assms
proof (induction ins arbitrary: p0 a0)
  case (Cons cell ins)
  then have "unat (p0 + plurality cell) = unat p0 + unat (plurality cell)"
      "unat (a0 + cell_amount cell) = unat a0 + unat (cell_amount cell)"
    by (auto intro!: unat_add_no_overflow)
  moreover have "arithmetic_in (p0, a0) cell = Inr (p0 + plurality cell, a0 + cell_amount cell)"
    using Cons.prems by (simp add: arithmetic_in_def padd_ok)
  ultimately show ?case
    using Cons.IH [of "p0 + plurality cell" "a0 + cell_amount cell"] Cons.prems by (simp add: add.assoc)
qed simp

lemma plurality_sum_ge: "\<forall>cell \<in> set cells. cell_ok cell \<Longrightarrow> length cells \<le> plurality_sum cells"
  by (induction cells) (auto simp: cell_ok_def)

lemma psum_plurality:
  assumes "plurality_sum cells < 2 ^ 64"
  shows "\<exists>p. (psum (map plurality cells) :: (unit, u64) outcome) = Inr p \<and> unat p = plurality_sum cells"
proof -
  have "sum_list (map unat (map plurality cells)) = plurality_sum cells"
    by (simp add: plurality_sum_def o_def)
  then have "(psum (map plurality cells) :: (unit, u64) outcome) = Inr (of_nat (plurality_sum cells))"
    using assms by (simp add: psum_Inr unat_of_nat)
  then show ?thesis using assms by (simp add: unat_of_nat)
qed

lemma relaxed_path:
  assumes "\<forall>cell \<in> set ins. cell_ok cell" and "plurality_sum ins < 2 ^ 64"
  shows "relaxed_formula_path ins p = Inr (unat p = 1 \<or> plurality_sum ins = 1 \<or> unat p = 2 \<and> plurality_sum ins = 2)"
proof -
  obtain q where "(psum (map plurality ins) :: (unit, u64) outcome) = Inr q" "unat q = plurality_sum ins"
    using psum_plurality [OF assms(2)] by blast
  moreover have "w = 1 \<longleftrightarrow> unat w = 1" "w = 2 \<longleftrightarrow> unat w = 2" for w :: u64
    by (simp_all add: word_unat_eq_iff)
  ultimately show ?thesis
    using plurality_sum_ge [OF assms(1)] by (auto simp: relaxed_formula_path_def)
qed

lemma storage_mass_eq:
  assumes "\<forall>cell \<in> set ins \<union> set outs. cell_ok cell" and "\<forall>cell \<in> set ins. product_fits C cell"
    and "plurality_sum ins < 2 ^ 64" and "amount_sum ins < 2 ^ 64" and "plurality_sum outs < 2 ^ 64"
  shows "calc_storage_mass False ins outs C =
    (if (\<forall>cell \<in> set outs. product_fits C cell) \<and> harmonic_sum C outs < 2 ^ 64
     then Inr (of_nat (storage_mass_formula C ins outs)) else Inl (Err ()))"
proof (cases "(\<forall>cell \<in> set outs. product_fits C cell) \<and> harmonic_sum C outs < 2 ^ 64")
  case False
  then have "fold_result (harmonic_out C) (0, 0) outs = Inl (Err ())"
    using fold_harmonic_out [of outs 0 C 0] assms(1,5) by auto
  with False show ?thesis by (simp add: calc_storage_mass_def)
next
  case True
  obtain p h where outs: "fold_result (harmonic_out C) (0, 0) outs = Inr (p, h)"
      "unat p = plurality_sum outs" "unat h = harmonic_sum C outs"
    using fold_harmonic_out [of outs 0 C 0] assms(1,5) True by auto
  have of_nat: "x = of_nat n" if "unat x = n" for x :: u64 and n using that by auto
  let ?relaxed = "plurality_sum outs = 1 \<or> plurality_sum ins = 1 \<or> plurality_sum outs = 2 \<and> plurality_sum ins = 2"
  have "ins \<noteq> [] \<Longrightarrow> calc_storage_mass False ins outs C = Inr (of_nat (storage_mass_formula C ins outs))"
  proof (cases ?relaxed)
    case True
    assume "ins \<noteq> []"
    moreover obtain hi where "fold_result (harmonic_in C) 0 ins = Inr hi" "unat hi = min (harmonic_sum C ins) (2 ^ 64 - 1)"
      using fold_harmonic_in [of ins C 0] assms(1,2) by auto
    moreover have "unat h < 2 ^ 64" using unat_less_two_power [of h] by simp
    ultimately show ?thesis
      using True outs relaxed_path [of ins p] assms(1,3)
      by (auto simp: calc_storage_mass_def storage_mass_formula_def unat_saturating_sub intro!: of_nat)
  next
    case False
    assume ne: "ins \<noteq> []"
    obtain pi a where ins: "fold_result arithmetic_in (0, 0) ins = Inr (pi, a)"
        "unat pi = plurality_sum ins" "unat a = amount_sum ins"
      using fold_arithmetic_in [of 0 ins 0] assms(3,4) by auto
    have "unat pi \<noteq> 0" using plurality_sum_ge [of ins] assms(1) ne ins(2) by (cases ins) auto
    moreover have "unat (max (a div pi) 1) = max 1 (amount_sum ins div plurality_sum ins)"
      using ins(2,3) by (simp add: max_def word_le_nat_alt unat_div)
    moreover have "unat h < 2 ^ 64" using unat_less_two_power [of h] by simp
    ultimately show ?thesis
      using False ne outs ins relaxed_path [of ins p] assms(1,3)
      by (auto simp: calc_storage_mass_def storage_mass_formula_def unat_saturating_sub unat_saturating_mul
          unat_div pdiv_eq intro!: of_nat)
  qed
  then show ?thesis
    using True outs by (cases "ins = []") (auto simp: calc_storage_mass_def storage_mass_formula_def intro!: of_nat)
qed

lemma utxo_plurality_bounds:
  assumes "length (spk_script spk) \<le> 10000"
  shows "0 < unat (utxo_plurality spk cov)" "unat (utxo_plurality spk cov) \<le> 102"
proof -
  define n where "n = nat_div_ceil (UTXO_CONST_STORAGE + length (spk_script spk) + (if cov then HASH_SIZE else 0)) UTXO_UNIT_SIZE"
  have "0 < n" "n \<le> 102"
    using assms unfolding n_def nat_div_ceil_def UTXO_CONST_STORAGE_def UTXO_UNIT_SIZE_def HASH_SIZE_def
    by (auto split: if_splits)
  moreover from this have "unat (utxo_plurality spk cov) = n" by (simp add: utxo_plurality_def n_def unat_of_nat)
  ultimately show "0 < unat (utxo_plurality spk cov)" "unat (utxo_plurality spk cov) \<le> 102" by simp_all
qed

lemma product_fits_small: "unat (plurality cell) \<le> 102 \<Longrightarrow> unat C \<le> 10 ^ 12 \<Longrightarrow> product_fits C cell"
proof -
  assume "unat (plurality cell) \<le> 102" "unat C \<le> 10 ^ 12"
  then have "unat C * unat (plurality cell) * unat (plurality cell) \<le> 10 ^ 12 * 102 * 102"
    by (intro mult_le_mono)
  moreover have "10 ^ 12 * 102 * 102 < (2 ^ 64 :: nat)" by simp
  ultimately show "product_fits C cell" unfolding product_fits_def by (rule le_less_trans)
qed

lemma plurality_sum_small: "\<forall>cell \<in> set cells. unat (plurality cell) \<le> 102 \<Longrightarrow> plurality_sum cells \<le> 102 * length cells"
  by (induction cells) auto

section \<open>Properties\<close>

text \<open>C32: The storage mass is the KIP-0009 formula.  For cells of positive plurality and amount,
  with input products and sums that fit in 64 bits, \<open>calc_storage_mass\<close> never panics: it returns
  the formula's value over the natural numbers, or no value exactly when an output's weight or
  their sum exceeds 64 bits.\<close>

theorem storage_mass_is_formula:
  assumes "\<forall>cell \<in> set ins \<union> set outs. cell_ok cell" and "\<forall>cell \<in> set ins. product_fits C cell"
    and "plurality_sum ins < 2 ^ 64" and "amount_sum ins < 2 ^ 64" and "plurality_sum outs < 2 ^ 64"
  shows "calc_storage_mass False ins outs C =
    (if (\<forall>cell \<in> set outs. product_fits C cell) \<and> harmonic_sum C outs < 2 ^ 64
     then Inr (of_nat (storage_mass_formula C ins outs)) else Inl (Err ()))"
  using assms by (rule storage_mass_eq)

theorem storage_mass_is_formula_witness:
  "calc_storage_mass False [\<lparr>plurality = 1, cell_amount = 30000\<rparr>, \<lparr>plurality = 2, cell_amount = 60000\<rparr>]
      [\<lparr>plurality = 1, cell_amount = 10000\<rparr>, \<lparr>plurality = 2, cell_amount = 80000\<rparr>] 1000000000000 =
     Inr 50000001"
proof -
  let ?ins = "[\<lparr>plurality = 1, cell_amount = 30000\<rparr>, \<lparr>plurality = 2, cell_amount = 60000\<rparr>]"
    and ?outs = "[\<lparr>plurality = 1, cell_amount = 10000\<rparr>, \<lparr>plurality = 2, cell_amount = 80000\<rparr>]"
  show ?thesis
    using storage_mass_is_formula [of ?ins ?outs 1000000000000]
    by (simp add: cell_ok_def product_fits_def plurality_sum_def amount_sum_def harmonic_sum_def cell_share_def
        storage_mass_formula_def max_def)
qed

end
