(* ===== verification/Covenants.thy ===== *)
theory Covenants
  imports Tx_Types
begin

text \<open>
  Covenant bindings of a transaction: \<^verbatim>\<open>src/crypto/txscript/src/covenants.rs\<close>.  A bound output
  either continues a covenant its authorising input carries or starts one, whose id must
  then be the hash of the input's outpoint and of all outputs started together.  The hash
  is the parameter \<open>covenant_id_of\<close>.
\<close>

record CovenantInputContext =
  auth_outputs :: "nat list"

record CovenantSharedContext =
  input_indices :: "nat list"
  output_indices :: "nat list"

record CovenantsContext =
  input_ctxs :: "(nat, CovenantInputContext) hash_map"
  shared_ctxs :: "(hash, CovenantSharedContext) hash_map"

datatype CovenantsError =
    WrongGenesisCovenantId nat hash
  | AuthInputOutOfBounds nat u16
  | InvalidCovInIndex hash nat
  | InvalidCovOutIndex hash nat
  | InvalidAuthCovOutIndex nat nat nat

definition auth_output_list :: "CovenantsContext \<Rightarrow> nat \<Rightarrow> nat list" where
  "auth_output_list ctx i = (case hm_get (input_ctxs ctx) i of Some c \<Rightarrow> auth_outputs c | None \<Rightarrow> [])"

definition auth_output_index :: "CovenantsContext \<Rightarrow> nat \<Rightarrow> nat \<Rightarrow> CovenantsError + nat" where
  "auth_output_index ctx i k =
     (let outs = auth_output_list ctx i in
      if k < length outs then Inr (outs ! k) else Inl (InvalidAuthCovOutIndex k i (length outs)))"

definition num_auth_outputs :: "CovenantsContext \<Rightarrow> nat \<Rightarrow> nat" where
  "num_auth_outputs ctx i = (case hm_get (input_ctxs ctx) i of Some c \<Rightarrow> length (auth_outputs c) | None \<Rightarrow> 0)"

definition num_covenant_inputs :: "CovenantsContext \<Rightarrow> hash \<Rightarrow> nat" where
  "num_covenant_inputs ctx cid =
     (case hm_get (shared_ctxs ctx) cid of Some c \<Rightarrow> length (input_indices c) | None \<Rightarrow> 0)"

definition covenant_input_index :: "CovenantsContext \<Rightarrow> hash \<Rightarrow> nat \<Rightarrow> CovenantsError + nat" where
  "covenant_input_index ctx cid k =
     (let ins = (case hm_get (shared_ctxs ctx) cid of Some c \<Rightarrow> input_indices c | None \<Rightarrow> []) in
      if k < length ins then Inr (ins ! k) else Inl (InvalidCovInIndex cid k))"

definition num_covenant_outputs :: "CovenantsContext \<Rightarrow> hash \<Rightarrow> nat" where
  "num_covenant_outputs ctx cid =
     (case hm_get (shared_ctxs ctx) cid of Some c \<Rightarrow> length (output_indices c) | None \<Rightarrow> 0)"

definition covenant_output_index :: "CovenantsContext \<Rightarrow> hash \<Rightarrow> nat \<Rightarrow> CovenantsError + nat" where
  "covenant_output_index ctx cid k =
     (let outs = (case hm_get (shared_ctxs ctx) cid of Some c \<Rightarrow> output_indices c | None \<Rightarrow> []) in
      if k < length outs then Inr (outs ! k) else Inl (InvalidCovOutIndex cid k))"

text \<open>The first loop: the inputs of each covenant.\<close>

definition push_covenant_input ::
    "(hash, CovenantSharedContext) hash_map \<Rightarrow> nat \<times> UtxoEntry \<Rightarrow> (hash, CovenantSharedContext) hash_map" where
  "push_covenant_input m x =
     (let (i, e) = x in
      case covenant_id e of
        None \<Rightarrow> m
      | Some cid \<Rightarrow>
          let c = (case hm_get m cid of Some c \<Rightarrow> c | None \<Rightarrow> \<lparr>input_indices = [], output_indices = []\<rparr>)
          in hm_insert cid (c\<lparr>input_indices := input_indices c @ [i]\<rparr>) m)"

text \<open>The second loop, over the outputs.  Its state is the context and the genesis groups.\<close>

type_synonym genesis_ctxs = "(nat \<times> hash, nat list) hash_map"

definition collect_output ::
    "UtxoEntry list \<Rightarrow> CovenantsContext \<times> genesis_ctxs \<Rightarrow> nat \<times> TransactionOutput \<Rightarrow>
     (CovenantsError, CovenantsContext \<times> genesis_ctxs) outcome" where
  "collect_output es st x =
     (let (ctx, genesis) = st; (i, out) = x in
      case covenant out of
        None \<Rightarrow> Inr st
      | Some b \<Rightarrow>
          let auth = unat (authorizing_input b); cid = binding_covenant_id b in
          if length es \<le> auth then Inl (Err (AuthInputOutOfBounds i (authorizing_input b)))
          else if covenant_id (es ! auth) = Some cid then
            let ic = (case hm_get (input_ctxs ctx) auth of Some c \<Rightarrow> c | None \<Rightarrow> \<lparr>auth_outputs = []\<rparr>) in
            bindR (unwrap (hm_get (shared_ctxs ctx) cid)) (\<lambda>sc.
            Inr (\<lparr>input_ctxs = hm_insert auth (ic\<lparr>auth_outputs := auth_outputs ic @ [i]\<rparr>) (input_ctxs ctx),
                  shared_ctxs = hm_insert cid (sc\<lparr>output_indices := output_indices sc @ [i]\<rparr>) (shared_ctxs ctx)\<rparr>,
                 genesis))
          else
            let outs = (case hm_get genesis (auth, cid) of Some os \<Rightarrow> os | None \<Rightarrow> []) in
            Inr (ctx, hm_insert (auth, cid) (outs @ [i]) genesis))"

definition check_genesis ::
    "(TransactionOutpoint \<Rightarrow> (u32 \<times> TransactionOutput) list \<Rightarrow> hash) \<Rightarrow> Transaction \<Rightarrow>
     unit \<Rightarrow> (nat \<times> hash) \<times> nat list \<Rightarrow> (CovenantsError, unit) outcome" where
  "check_genesis covenant_id_of t _ x =
     (let ((auth, cid), outs) = x in
      if auth < length (inputs t) \<and> (\<forall>i \<in> set outs. i < length (outputs t)) then
        let expected = covenant_id_of (previous_outpoint (inputs t ! auth))
              (map (\<lambda>i. (of_nat i, outputs t ! i)) outs)
        in if expected \<noteq> cid then Inl (Err (WrongGenesisCovenantId auth cid)) else Inr ()
      else Inl Panic)"

definition CovenantsContext_from_tx ::
    "(TransactionOutpoint \<Rightarrow> (u32 \<times> TransactionOutput) list \<Rightarrow> hash) \<Rightarrow> PopulatedTransaction \<Rightarrow>
     (CovenantsError, CovenantsContext) outcome" where
  "CovenantsContext_from_tx covenant_id_of p =
     (let shared = foldl push_covenant_input [] (enumerate 0 (map snd (populated_inputs p))) in
      bindR (fold_result (collect_output (entries p)) (\<lparr>input_ctxs = [], shared_ctxs = shared\<rparr>, [])
               (enumerate 0 (outputs (ptx p)))) (\<lambda>(ctx, genesis).
      bindR (fold_result (check_genesis covenant_id_of (ptx p)) () genesis) (\<lambda>_.
      Inr ctx)))"

section \<open>Lemmas\<close>

definition continues :: "UtxoEntry list \<Rightarrow> TransactionOutput \<Rightarrow> bool" where
  "continues es out \<longleftrightarrow> (\<exists>b. covenant out = Some b \<and>
     covenant_id (es ! unat (authorizing_input b)) = Some (binding_covenant_id b))"

definition binds_to :: "nat \<Rightarrow> hash \<Rightarrow> TransactionOutput \<Rightarrow> bool" where
  "binds_to a cid out \<longleftrightarrow>
     (\<exists>b. covenant out = Some b \<and> unat (authorizing_input b) = a \<and> binding_covenant_id b = cid)"

text \<open>The outputs input \<open>a\<close> starts the covenant \<open>cid\<close> with, and those it continues one with.\<close>

definition genesis_outputs :: "UtxoEntry list \<Rightarrow> TransactionOutput list \<Rightarrow> nat \<Rightarrow> hash \<Rightarrow> nat list" where
  "genesis_outputs es outs a cid =
     filter (\<lambda>i. binds_to a cid (outs ! i) \<and> \<not> continues es (outs ! i)) [0..<length outs]"

definition continued_outputs :: "UtxoEntry list \<Rightarrow> TransactionOutput list \<Rightarrow> nat \<Rightarrow> nat list" where
  "continued_outputs es outs a =
     filter (\<lambda>i. (\<exists>cid. binds_to a cid (outs ! i)) \<and> continues es (outs ! i)) [0..<length outs]"

lemma filter_nth_snoc:
  "filter (\<lambda>i. P ((xs @ [x]) ! i)) [0..<length (xs @ [x])] =
    filter (\<lambda>i. P (xs ! i)) [0..<length xs] @ (if P x then [length xs] else [])"
proof -
  have "filter (\<lambda>i. P ((xs @ [x]) ! i)) [0..<length xs] = filter (\<lambda>i. P (xs ! i)) [0..<length xs]"
    by (rule filter_cong) (simp_all add: nth_append)
  then show ?thesis by simp
qed

lemma genesis_outputs_snoc:
  "genesis_outputs es (outs @ [x]) a cid = genesis_outputs es outs a cid @
    (if binds_to a cid x \<and> \<not> continues es x then [length outs] else [])"
  unfolding genesis_outputs_def by (rule filter_nth_snoc)

lemma continued_outputs_snoc:
  "continued_outputs es (outs @ [x]) a = continued_outputs es outs a @
    (if (\<exists>cid. binds_to a cid x) \<and> continues es x then [length outs] else [])"
  unfolding continued_outputs_def by (rule filter_nth_snoc)

definition collected ::
    "UtxoEntry list \<Rightarrow> TransactionOutput list \<Rightarrow> CovenantsContext \<times> genesis_ctxs \<Rightarrow> bool" where
  "collected es outs st \<longleftrightarrow>
     (\<forall>out \<in> set outs. \<forall>b. covenant out = Some b \<longrightarrow> unat (authorizing_input b) < length es) \<and>
     hm_wf (snd st) \<and>
     (\<forall>a cid. hm_get (snd st) (a, cid) =
        (let l = genesis_outputs es outs a cid in if l = [] then None else Some l)) \<and>
     (\<forall>a. auth_output_list (fst st) a = continued_outputs es outs a) \<and>
     (\<forall>e \<in> set es. \<forall>cid. covenant_id e = Some cid \<longrightarrow> hm_get (shared_ctxs (fst st)) cid \<noteq> None)"

lemma auth_outputs_update: "c\<lparr>auth_outputs := xs\<rparr> = \<lparr>auth_outputs = xs\<rparr>"
  by (cases c) simp

lemma collect_output_step:
  assumes "collected es outs st"
  shows "collect_output es st (length outs, x) \<noteq> Inl Panic"
    and "collect_output es st (length outs, x) = Inr st' \<Longrightarrow> collected es (outs @ [x]) st'"
proof -
  obtain ctx gen where st: "st = (ctx, gen)" by fastforce
  consider (none) "covenant x = None"
    | (out) b where "covenant x = Some b" "length es \<le> unat (authorizing_input b)"
    | (cont) b where "covenant x = Some b" "unat (authorizing_input b) < length es"
        "covenant_id (es ! unat (authorizing_input b)) = Some (binding_covenant_id b)"
    | (gen) b where "covenant x = Some b" "unat (authorizing_input b) < length es"
        "covenant_id (es ! unat (authorizing_input b)) \<noteq> Some (binding_covenant_id b)"
    by (cases "covenant x") (blast, metis not_le)
  then have "collect_output es st (length outs, x) \<noteq> Inl Panic \<and>
    (collect_output es st (length outs, x) = Inr st' \<longrightarrow> collected es (outs @ [x]) st')"
  proof cases
    case none
    then have "collect_output es st (length outs, x) = Inr st"
      by (simp add: collect_output_def st)
    moreover have "collected es (outs @ [x]) st"
      using assms none
      by (simp add: collected_def genesis_outputs_snoc continued_outputs_snoc binds_to_def continues_def)
    ultimately show ?thesis by auto
  next
    case out
    then show ?thesis by (simp add: collect_output_def st)
  next
    case (cont b)
    let ?a = "unat (authorizing_input b)" and ?c = "binding_covenant_id b"
    have "es ! ?a \<in> set es" using cont(2) by simp
    then obtain sc where sc: "hm_get (shared_ctxs ctx) ?c = Some sc"
      using assms cont(3) unfolding collected_def st by (metis fst_conv option.exhaust)
    have "collected es (outs @ [x]) (\<lparr>input_ctxs = hm_insert ?a
        (\<lparr>auth_outputs = auth_output_list ctx ?a @ [length outs]\<rparr>) (input_ctxs ctx),
        shared_ctxs = hm_insert ?c (sc\<lparr>output_indices := output_indices sc @ [length outs]\<rparr>) (shared_ctxs ctx)\<rparr>, gen)"
      using assms cont
      by (auto simp: collected_def st genesis_outputs_snoc continued_outputs_snoc binds_to_def
          continues_def auth_output_list_def Let_def)
    moreover have "collect_output es st (length outs, x) = Inr (\<lparr>input_ctxs = hm_insert ?a
        (\<lparr>auth_outputs = auth_output_list ctx ?a @ [length outs]\<rparr>) (input_ctxs ctx),
        shared_ctxs = hm_insert ?c (sc\<lparr>output_indices := output_indices sc @ [length outs]\<rparr>) (shared_ctxs ctx)\<rparr>, gen)"
      using cont sc
      by (auto simp: collect_output_def st unwrap_def auth_output_list_def Let_def auth_outputs_update
          split: option.split)
    ultimately show ?thesis by auto
  next
    case (gen b)
    let ?a = "unat (authorizing_input b)" and ?c = "binding_covenant_id b"
    let ?g = "hm_insert (?a, ?c) (genesis_outputs es outs ?a ?c @ [length outs]) (snd st)"
    have get: "hm_get (snd st) (?a, ?c) = (if genesis_outputs es outs ?a ?c = [] then None
        else Some (genesis_outputs es outs ?a ?c))"
      using assms by (simp add: collected_def Let_def)
    have "collect_output es st (length outs, x) = Inr (ctx, ?g)"
      using gen get by (auto simp: collect_output_def st Let_def)
    moreover have "collected es (outs @ [x]) (ctx, ?g)"
      using assms gen
      by (auto simp: collected_def st genesis_outputs_snoc continued_outputs_snoc binds_to_def
          continues_def Let_def)
    ultimately show ?thesis by auto
  qed
  then show "collect_output es st (length outs, x) \<noteq> Inl Panic"
    and "collect_output es st (length outs, x) = Inr st' \<Longrightarrow> collected es (outs @ [x]) st'" by blast+
qed

lemma collect_outputs:
  assumes "collected es [] st0"
  shows "fold_result (collect_output es) st0 (enumerate 0 outs) \<noteq> Inl Panic \<and>
    (\<forall>st. fold_result (collect_output es) st0 (enumerate 0 outs) = Inr st \<longrightarrow> collected es outs st)"
proof (induction outs rule: rev_induct)
  case Nil
  then show ?case using assms by simp
next
  case (snoc x outs)
  have "enumerate 0 (outs @ [x]) = enumerate 0 outs @ [(length outs, x)]"
    by (simp add: enumerate_append_eq)
  then show ?case
    using snoc collect_output_step [of es outs _ x]
    by (auto simp: fold_result_append bindR_eq_Inl bindR_eq_Inr)
qed

lemma push_covenant_inputs:
  "\<forall>e \<in> set es. \<forall>cid. covenant_id e = Some cid \<longrightarrow>
    hm_get (foldl push_covenant_input m (enumerate n es)) cid \<noteq> None"
proof -
  have keep: "hm_get m cid \<noteq> None \<Longrightarrow> hm_get (foldl push_covenant_input m xs) cid \<noteq> None" for m cid xs
    by (rule foldl_invariant)
       (auto simp: push_covenant_input_def Let_def split: prod.splits option.splits)
  show ?thesis
  proof (induction es arbitrary: m n)
    case (Cons e es)
    have "hm_get (push_covenant_input m (n, e)) cid \<noteq> None" if "covenant_id e = Some cid" for cid
      using that by (simp add: push_covenant_input_def Let_def)
    with keep Cons show ?case by auto
  qed simp
qed

lemma check_genesis_loop:
  "fold_result (check_genesis c t) () g = Inr () \<longleftrightarrow> (\<forall>x \<in> set g. check_genesis c t () x = Inr ())"
  "fold_result (check_genesis c t) () g = Inl Panic \<Longrightarrow> \<exists>x \<in> set g. check_genesis c t () x = Inl Panic"
  by (induction g) (auto simp: bindR_eq_Inr bindR_eq_Inl)

lemma from_tx_start:
  assumes "length (inputs (ptx p)) = length (entries p)"
  shows "collected (entries p) []
    (\<lparr>input_ctxs = [],
      shared_ctxs = foldl push_covenant_input [] (enumerate 0 (map snd (populated_inputs p)))\<rparr>, [])"
proof -
  have "map snd (populated_inputs p) = entries p"
    using assms by (simp add: populated_inputs_def)
  then show ?thesis
    using push_covenant_inputs [of "entries p" "[]" 0]
    by (simp add: collected_def genesis_outputs_def continued_outputs_def auth_output_list_def)
qed

lemma from_tx_Inr:
  assumes len: "length (inputs (ptx p)) = length (entries p)"
    and "CovenantsContext_from_tx c p = Inr ctx"
  shows "\<exists>gen. collected (entries p) (outputs (ptx p)) (ctx, gen) \<and>
    (\<forall>x \<in> set gen. check_genesis c (ptx p) () x = Inr ())"
  using assms(2) collect_outputs [OF from_tx_start [OF len], of "outputs (ptx p)"]
  by (auto simp: CovenantsContext_from_tx_def Let_def bindR_eq_Inr check_genesis_loop(1))

lemma genesis_group_in_range:
  assumes "collected es (outputs t) (ctx, gen)" and "((a, cid), outs) \<in> set gen"
  shows "a < length es" and "outs = genesis_outputs es (outputs t) a cid" and "outs \<noteq> []"
proof -
  have "hm_get gen (a, cid) = Some outs"
    using assms hm_get_in_set [of gen "(a, cid)" outs] by (simp add: collected_def)
  then show outs: "outs = genesis_outputs es (outputs t) a cid" "outs \<noteq> []"
    using assms(1) by (auto simp: collected_def Let_def split: if_splits)
  then obtain i where "i \<in> set (genesis_outputs es (outputs t) a cid)" by (metis list.set_intros(1) neq_Nil_conv)
  then obtain b where "i < length (outputs t)" "covenant (outputs t ! i) = Some b" "unat (authorizing_input b) = a"
    by (auto simp: genesis_outputs_def binds_to_def)
  then show "a < length es" using assms(1) by (auto simp: collected_def)
qed

lemma from_tx_no_panic:
  assumes "length (inputs (ptx p)) = length (entries p)"
  shows "CovenantsContext_from_tx c p \<noteq> Inl Panic"
proof
  let ?es = "entries p" and ?t = "ptx p"
  assume "CovenantsContext_from_tx c p = Inl Panic"
  then obtain ctx gen x where x: "collected ?es (outputs ?t) (ctx, gen)" "x \<in> set gen"
    "check_genesis c ?t () x = Inl Panic"
    using collect_outputs [OF from_tx_start [OF assms], of "outputs ?t"]
    by (auto simp: CovenantsContext_from_tx_def Let_def bindR_eq_Inl dest!: check_genesis_loop(2))
  obtain a cid outs where "x = ((a, cid), outs)" by (metis surj_pair)
  with x genesis_group_in_range [of ?es ?t ctx gen a cid outs] show False
    by (auto simp: check_genesis_def assms genesis_outputs_def split: if_splits)
qed

section \<open>Properties\<close>

text \<open>C34: Covenant ids cannot be forged.  When \<open>from_tx\<close> accepts a populated transaction, every
  output bound to a covenant names an existing input, and either that input carries the
  covenant id, or the id is the hash of the input's outpoint and of all outputs that start
  this covenant from it.  The context lists for each input exactly the outputs that
  continue its covenant.  Building the context never panics.\<close>

theorem covenants_not_forged:
  assumes "length (inputs (ptx p)) = length (entries p)"
  shows "CovenantsContext_from_tx c p \<noteq> Inl Panic \<and>
    (\<forall>ctx. CovenantsContext_from_tx c p = Inr ctx \<longrightarrow>
      (\<forall>a. auth_output_list ctx a = continued_outputs (entries p) (outputs (ptx p)) a) \<and>
      (\<forall>i b. i < length (outputs (ptx p)) \<and> covenant (outputs (ptx p) ! i) = Some b \<longrightarrow>
        unat (authorizing_input b) < length (inputs (ptx p)) \<and>
        (covenant_id (entries p ! unat (authorizing_input b)) = Some (binding_covenant_id b) \<or>
         binding_covenant_id b =
           c (previous_outpoint (inputs (ptx p) ! unat (authorizing_input b)))
             (map (\<lambda>j. (of_nat j, outputs (ptx p) ! j))
               (genesis_outputs (entries p) (outputs (ptx p)) (unat (authorizing_input b))
                 (binding_covenant_id b))))))"
proof (intro conjI allI impI)
  let ?es = "entries p" and ?t = "ptx p"
  show "CovenantsContext_from_tx c p \<noteq> Inl Panic" using assms by (rule from_tx_no_panic)
  fix ctx assume "CovenantsContext_from_tx c p = Inr ctx"
  then obtain gen where gen: "collected ?es (outputs ?t) (ctx, gen)"
    "\<forall>x \<in> set gen. check_genesis c ?t () x = Inr ()"
    using from_tx_Inr [OF assms] by blast
  show "auth_output_list ctx a = continued_outputs ?es (outputs ?t) a" for a
    using gen(1) by (simp add: collected_def)
  fix i b assume i: "i < length (outputs ?t) \<and> covenant (outputs ?t ! i) = Some b"
  let ?a = "unat (authorizing_input b)" and ?c = "binding_covenant_id b"
  show "?a < length (inputs ?t)" using gen(1) i by (auto simp: collected_def assms)
  show "covenant_id (?es ! ?a) = Some ?c \<or>
      ?c = c (previous_outpoint (inputs ?t ! ?a))
        (map (\<lambda>j. (of_nat j, outputs ?t ! j)) (genesis_outputs ?es (outputs ?t) ?a ?c))"
  proof (cases "covenant_id (?es ! ?a) = Some ?c")
    case False
    then have "i \<in> set (genesis_outputs ?es (outputs ?t) ?a ?c)"
      using i by (auto simp: genesis_outputs_def binds_to_def continues_def)
    then have "hm_get gen (?a, ?c) = Some (genesis_outputs ?es (outputs ?t) ?a ?c)"
      using gen(1) by (auto simp: collected_def Let_def)
    then have "((?a, ?c), genesis_outputs ?es (outputs ?t) ?a ?c) \<in> set gen"
      using gen(1) hm_get_in_set [of gen "(?a, ?c)" "genesis_outputs ?es (outputs ?t) ?a ?c"]
      by (simp add: collected_def)
    with gen(2) have "check_genesis c ?t () ((?a, ?c), genesis_outputs ?es (outputs ?t) ?a ?c) = Inr ()"
      by blast
    then show ?thesis by (auto simp: check_genesis_def Let_def split: if_splits)
  qed simp
qed

text \<open>Witness: the hash is the transaction id of the outpoint, and the one input, which
  carries no covenant, starts a covenant with the one output.\<close>

definition sample_bound_tx :: PopulatedTransaction where
  "sample_bound_tx =
    \<lparr>ptx = sample_covenant_tx\<lparr>outputs := [\<lparr>out_value = 5, out_spk = \<lparr>spk_version = 0, spk_script = []\<rparr>,
       covenant = Some \<lparr>authorizing_input = 0, binding_covenant_id = [7]\<rparr>\<rparr>]\<rparr>,
     entries = [\<lparr>amount = 5, entry_spk = \<lparr>spk_version = 0, spk_script = []\<rparr>, block_daa_score = 0,
       entry_is_coinbase = False, covenant_id = None\<rparr>]\<rparr>"

theorem covenants_not_forged_witness:
  "CovenantsContext_from_tx (\<lambda>pt xs. transaction_id pt) sample_bound_tx =
     Inr \<lparr>input_ctxs = [], shared_ctxs = []\<rparr> \<and>
   auth_output_list \<lparr>input_ctxs = [], shared_ctxs = []\<rparr> 0 =
     continued_outputs (entries sample_bound_tx) (outputs (ptx sample_bound_tx)) 0 \<and>
   [7] = transaction_id (previous_outpoint (inputs (ptx sample_bound_tx) ! 0))"
proof -
  have ok: "CovenantsContext_from_tx (\<lambda>pt xs. transaction_id pt) sample_bound_tx =
      Inr \<lparr>input_ctxs = [], shared_ctxs = []\<rparr>"
    by (simp add: CovenantsContext_from_tx_def sample_bound_tx_def sample_covenant_tx_def
        populated_inputs_def push_covenant_input_def collect_output_def check_genesis_def
        hm_insert_def Let_def)
  have "length (inputs (ptx sample_bound_tx)) = length (entries sample_bound_tx)"
    by (simp add: sample_bound_tx_def sample_covenant_tx_def)
  from covenants_not_forged [OF this, of "\<lambda>pt xs. transaction_id pt"] ok show ?thesis
    by (auto simp: sample_bound_tx_def sample_covenant_tx_def)
qed

end
