(* ===== verification/Diff_Algebra.thy ===== *)
theory Diff_Algebra
  imports Prelude
begin

text \<open>
  The algebra behind \<open>PoolDiff\<close> and \<open>UtxoDiff\<close>, one key at a time.  A \<^emph>\<open>cell\<close> is what a diff
  holds at a key: the entry to add and the entry to remove.  Two entries of a key are
  told apart by a \<^emph>\<open>tag\<close>: the DAA score of a UTXO entry, nothing (\<open>unit\<close>) for a note.
  The locale \<open>reversible_diffs\<close> is the contract the virtual processor relies on when it
  unwinds and applies the stored diffs of chain blocks.
\<close>

type_synonym 'v cell = "'v option \<times> 'v option"

definition same_tag :: "('v \<Rightarrow> 't) \<Rightarrow> 'v option \<Rightarrow> 'v \<Rightarrow> bool" where
  "same_tag tag e x = (case e of None \<Rightarrow> False | Some z \<Rightarrow> tag z = tag x)"

definition cell_remove :: "('v \<Rightarrow> 't) \<Rightarrow> 'v \<Rightarrow> 'v cell \<Rightarrow> 'v cell" where
  "cell_remove tag x c = (if same_tag tag (fst c) x then (None, snd c) else (fst c, Some x))"

definition cell_add :: "('v \<Rightarrow> 't) \<Rightarrow> 'v \<Rightarrow> 'v cell \<Rightarrow> 'v cell" where
  "cell_add tag y c = (if same_tag tag (snd c) y then (fst c, None) else (Some y, snd c))"

definition cell_with :: "('v \<Rightarrow> 't) \<Rightarrow> 'v cell \<Rightarrow> 'v cell \<Rightarrow> 'v cell" where
  "cell_with tag c other =
     (let c' = (case snd other of None \<Rightarrow> c | Some x \<Rightarrow> cell_remove tag x c)
      in case fst other of None \<Rightarrow> c' | Some y \<Rightarrow> cell_add tag y c')"

definition cell_apply :: "'v cell \<Rightarrow> 'v option \<Rightarrow> 'v option" where
  "cell_apply c b =
     (case fst c of Some v \<Rightarrow> Some v | None \<Rightarrow> if snd c = None then b else None)"

text \<open>A cell fits a base entry: it removes what is there, and adds where nothing is left.\<close>

definition cell_valid :: "('v \<Rightarrow> 't) \<Rightarrow> 'v cell \<Rightarrow> 'v option \<Rightarrow> bool" where
  "cell_valid tag c b \<longleftrightarrow>
     (\<forall>v. snd c = Some v \<longrightarrow> b = Some v) \<and>
     (\<forall>w v. fst c = Some w \<longrightarrow> b = Some v \<longrightarrow> snd c = Some v \<and> tag v \<noteq> tag w)"

definition cell_between :: "'v option \<Rightarrow> 'v option \<Rightarrow> 'v cell" where
  "cell_between b b' = (if b = b' then (None, None) else (b', b))"

text \<open>Entries of one key with one tag are one entry; \<open>E\<close> is the entry for a tag.\<close>

definition cell_known :: "('v \<Rightarrow> 't) \<Rightarrow> ('t \<Rightarrow> 'v) \<Rightarrow> 'v option \<Rightarrow> bool" where
  "cell_known tag E e \<longleftrightarrow> (\<forall>v. e = Some v \<longrightarrow> E (tag v) = v)"

lemma cell_knownD:
  assumes "cell_known tag E (Some v)" "cell_known tag E (Some w)" "tag v = tag w"
  shows "v = w"
  using assms by (metis cell_known_def)

lemma cell_apply_simps [simp]:
  "cell_apply (Some v, r) b = Some v"
  "cell_apply (None, Some x) b = None"
  "cell_apply (None, None) b = b"
  by (simp_all add: cell_apply_def)

lemma cell_valid_simps [simp]:
  "cell_valid tag (None, None) b"
  "cell_valid tag (None, Some x) b \<longleftrightarrow> b = Some x"
  "cell_valid tag (Some y, None) b \<longleftrightarrow> b = None"
  "cell_valid tag (Some y, Some x) b \<longleftrightarrow> b = Some x \<and> tag x \<noteq> tag y"
  by (cases b; auto simp: cell_valid_def)+

text \<open>Case analysis of a fitting cell by what it does to the base entry.\<close>

lemma cell_valid_cases [consumes 1, case_names keep remove add replace]:
  assumes "cell_valid tag c b"
  obtains "c = (None, None)"
    | x where "c = (None, Some x)" "b = Some x"
    | y where "c = (Some y, None)" "b = None"
    | x y where "c = (Some y, Some x)" "b = Some x" "tag x \<noteq> tag y"
proof -
  obtain a r where "c = (a, r)" by fastforce
  with assms that show thesis by (cases a; cases r) simp_all
qed

lemma cell_valid_canonical:
  "cell_valid tag c b \<Longrightarrow> c = cell_between b (cell_apply c b)"
  by (cases rule: cell_valid_cases) (auto simp: cell_between_def)

lemma cell_apply_between [simp]: "cell_apply (cell_between b b') b = b'"
  by (cases b'; cases b) (auto simp: cell_between_def)

lemma cell_reverse:
  assumes "cell_valid tag c b"
  shows "cell_valid tag (snd c, fst c) (cell_apply c b)"
    and "cell_apply (snd c, fst c) (cell_apply c b) = b"
  using assms by (cases rule: cell_valid_cases; simp)+

lemmas cell_with_simps = cell_with_def cell_remove_def cell_add_def same_tag_def Let_def

lemma cell_with_sound:
  assumes "cell_valid tag c b" and "cell_valid tag other (cell_apply c b)"
    and known: "cell_known tag E b" "cell_known tag E (fst other)"
  shows "cell_apply (cell_with tag c other) b = cell_apply other (cell_apply c b)"
    and "cell_valid tag (cell_with tag c other) b"
proof -
  have eq: "v = w" if "b = Some v" "fst other = Some w" "tag v = tag w" for v w
    using that known by (metis cell_knownD)
  have "cell_apply (cell_with tag c other) b = cell_apply other (cell_apply c b) \<and>
      cell_valid tag (cell_with tag c other) b"
    using assms(1)
  proof (cases rule: cell_valid_cases)
    case keep
    from assms(2) show ?thesis
      by (cases rule: cell_valid_cases) (use keep eq in \<open>simp_all add: cell_with_simps\<close>)
  next
    case (remove x)
    from assms(2) show ?thesis
      by (cases rule: cell_valid_cases) (use remove eq in \<open>simp_all add: cell_with_simps\<close>)
  next
    case (add y)
    from assms(2) show ?thesis
      by (cases rule: cell_valid_cases) (use add eq in \<open>simp_all add: cell_with_simps\<close>)
  next
    case (replace x y)
    from assms(2) show ?thesis
      by (cases rule: cell_valid_cases) (use replace eq in \<open>simp_all add: cell_with_simps\<close>)
  qed
  then show "cell_apply (cell_with tag c other) b = cell_apply other (cell_apply c b)"
    and "cell_valid tag (cell_with tag c other) b" by simp_all
qed

text \<open>The two sanity checks of \<open>with_diff_in_place\<close> at a key.\<close>

lemma cell_checks_pass:
  assumes "cell_valid tag c b" and "cell_valid tag other (cell_apply c b)"
  shows "snd other = Some x \<Longrightarrow> snd c \<noteq> None \<Longrightarrow> same_tag tag (fst c) x"
    and "fst other = Some y \<Longrightarrow> fst c = Some z \<Longrightarrow> same_tag tag (snd other) z"
proof -
  have *: "(snd other = Some x \<longrightarrow> snd c \<noteq> None \<longrightarrow> same_tag tag (fst c) x) \<and>
    (fst other = Some y \<longrightarrow> fst c = Some z \<longrightarrow> same_tag tag (snd other) z)"
    using assms(2)
  proof (cases rule: cell_valid_cases)
    case keep
    then show ?thesis by simp
  next
    case (remove x)
    from assms(1) show ?thesis
      by (cases rule: cell_valid_cases) (use remove in \<open>simp_all add: same_tag_def\<close>)
  next
    case (add y)
    from assms(1) show ?thesis
      by (cases rule: cell_valid_cases) (use add in \<open>simp_all add: same_tag_def\<close>)
  next
    case (replace x y)
    from assms(1) show ?thesis
      by (cases rule: cell_valid_cases) (use replace in \<open>simp_all add: same_tag_def\<close>)
  qed
  then show "snd other = Some x \<Longrightarrow> snd c \<noteq> None \<Longrightarrow> same_tag tag (fst c) x"
    and "fst other = Some y \<Longrightarrow> fst c = Some z \<Longrightarrow> same_tag tag (snd other) z" by simp_all
qed

section \<open>Loops over a map act key by key\<close>

lemma foldl_pointwise:
  assumes step: "\<And>s k' v k. proj k (f s (k', v)) = (if k = k' then g k v (proj k s) else proj k s)"
    and "distinct (map fst xs)"
  shows "proj k (foldl f s xs) =
    (case map_of xs k of None \<Rightarrow> proj k s | Some v \<Rightarrow> g k v (proj k s))"
  using assms(2)
proof (induction xs arbitrary: s)
  case Nil
  then show ?case by simp
next
  case (Cons x xs)
  obtain k' v where x: "x = (k', v)" by fastforce
  show ?case
  proof (cases "k = k'")
    case True
    then have "map_of xs k = None"
      using Cons.prems by (simp add: x map_of_eq_None_iff)
    then show ?thesis using Cons True by (simp add: x step)
  next
    case False
    then show ?thesis using Cons by (simp add: x step split: option.split)
  qed
qed

section \<open>The contract of reversible diffs\<close>

fun run_diffs :: "('d \<Rightarrow> 's \<Rightarrow> 's) \<Rightarrow> 's \<Rightarrow> 'd list \<Rightarrow> 's" where
  "run_diffs app s [] = s"
| "run_diffs app s (d # ds) = run_diffs app (app d s) ds"

fun valid_run :: "('d \<Rightarrow> 's \<Rightarrow> bool) \<Rightarrow> ('d \<Rightarrow> 's \<Rightarrow> 's) \<Rightarrow> 's \<Rightarrow> 'd list \<Rightarrow> bool" where
  "valid_run valid app s [] = True"
| "valid_run valid app s (d # ds) = (valid d s \<and> valid_run valid app (app d s) ds)"

lemma run_diffs_append [simp]: "run_diffs app s (ds @ es) = run_diffs app (run_diffs app s ds) es"
  by (induction ds arbitrary: s) simp_all

lemma valid_run_append [simp]:
  "valid_run valid app s (ds @ es) \<longleftrightarrow>
     valid_run valid app s ds \<and> valid_run valid app (run_diffs app s ds) es"
  by (induction ds arbitrary: s) simp_all

locale reversible_diffs =
  fixes with_diff :: "'d \<Rightarrow> 'd \<Rightarrow> 'e + 'd"
    and reversed :: "'d \<Rightarrow> 'd"
    and app :: "'d \<Rightarrow> 's \<Rightarrow> 's"
    and valid :: "'d \<Rightarrow> 's \<Rightarrow> bool"
    and no_diff :: 'd
  assumes compose_law: "valid d1 s \<Longrightarrow> valid d2 (app d1 s) \<Longrightarrow>
      \<exists>d. with_diff d1 d2 = Inr d \<and> valid d s \<and> app d s = app d2 (app d1 s)"
    and reverse_valid: "valid d s \<Longrightarrow> valid (reversed d) (app d s)"
    and reverse_app: "valid d s \<Longrightarrow> app (reversed d) (app d s) = s"
    and no_diff_valid: "\<lbrakk>valid d s\<rbrakk> \<Longrightarrow> valid no_diff s"
    and no_diff_app: "app no_diff s = s"
begin

lemma fold_with_diff:
  assumes "valid d s" and "valid_run valid app (app d s) ds"
  shows "\<exists>d'. fold_result with_diff d ds = Inr d' \<and> valid d' s \<and>
    app d' s = run_diffs app (app d s) ds"
  using assms
proof (induction ds arbitrary: d)
  case (Cons e ds)
  then obtain d1 where d1: "with_diff d e = Inr d1" "valid d1 s" "app d1 s = app e (app d s)"
    using compose_law by (metis valid_run.simps(2))
  with Cons.IH [OF d1(2)] Cons.prems show ?case by simp
qed simp

lemma unwind_run:
  assumes "valid_run valid app s ds"
  shows "valid_run valid app (run_diffs app s ds) (map reversed (rev ds))"
    and "run_diffs app (run_diffs app s ds) (map reversed (rev ds)) = s"
  using assms
  by (induction ds arbitrary: s) (simp_all add: reverse_valid reverse_app)

text \<open>Leaving one chain for another: undo the old chain's diffs newest first, then apply the
  new chain's.  From any diff \<open>d\<close> that leads from the base to the old tip, this never fails
  and gives a diff from the base to the new tip.\<close>

lemma reorg_walk:
  assumes "valid d base"
    and old: "valid_run valid app split ds" "app d base = run_diffs app split ds"
    and new: "valid_run valid app split es"
  shows "\<exists>d'. fold_result with_diff d (map reversed (rev ds) @ es) = Inr d' \<and>
    valid d' base \<and> app d' base = run_diffs app split es"
  using fold_with_diff [OF assms(1), of "map reversed (rev ds) @ es"] unwind_run [OF old(1)] old(2) new
  by simp

end

end
