(* ===== verification/Pool_Diff.thy ===== *)
theory Pool_Diff
  imports Pool_Types Diff_Algebra
begin

text \<open>
  Pool diffs and composed views: \<^verbatim>\<open>src/consensus/core/src/notepool/diff.rs\<close> and
  \<^verbatim>\<open>src/consensus/core/src/notepool/view.rs\<close>.  An \<open>ImmutablePoolDiff\<close> is a \<open>PoolDiff\<close>; its
  reversed view swaps the two collections.  The \<^verbatim>\<open>debug_assert_eq!\<close> of the source is
  compiled out of a release build; what it asserts is the hypothesis \<open>pool_known\<close>.
\<close>

type_synonym PoolCollection = "(hash, PoolEntry) hash_map"

record PoolDiff =
  pool_add :: PoolCollection
  pool_remove :: PoolCollection

record LegacyPoolDiff =
  legacy_add :: "(hash, NewNote) hash_map"
  legacy_remove :: "(hash, NewNote) hash_map"

definition PoolDiff_default :: PoolDiff where
  "PoolDiff_default = \<lparr>pool_add = [], pool_remove = []\<rparr>"

definition unlock_collection :: "(hash, NewNote) hash_map \<Rightarrow> PoolCollection" where
  "unlock_collection m = map (\<lambda>(sn, note). (sn, unlocked note)) m"

definition PoolDiff_from_legacy :: "LegacyPoolDiff \<Rightarrow> PoolDiff" where
  "PoolDiff_from_legacy l =
     \<lparr>pool_add = unlock_collection (legacy_add l),
      pool_remove = unlock_collection (legacy_remove l)\<rparr>"

definition pool_diff_is_empty :: "PoolDiff \<Rightarrow> bool" where
  "pool_diff_is_empty d \<longleftrightarrow> pool_add d = [] \<and> pool_remove d = []"

definition pool_as_reversed :: "PoolDiff \<Rightarrow> PoolDiff" where
  "pool_as_reversed d = \<lparr>pool_add = pool_remove d, pool_remove = pool_add d\<rparr>"

definition pool_to_reversed :: "PoolDiff \<Rightarrow> PoolDiff" where
  "pool_to_reversed d = \<lparr>pool_add = pool_remove d, pool_remove = pool_add d\<rparr>"

text \<open>One round of the two loops of \<open>with_diff_in_place\<close>.\<close>

definition pool_apply_removed :: "PoolDiff \<Rightarrow> hash \<times> PoolEntry \<Rightarrow> PoolDiff" where
  "pool_apply_removed d x =
     (let (sn, note) = x in
      if hm_contains (pool_add d) sn then d\<lparr>pool_add := hm_remove sn (pool_add d)\<rparr>
      else d\<lparr>pool_remove := hm_insert sn note (pool_remove d)\<rparr>)"

definition pool_apply_added :: "PoolDiff \<Rightarrow> hash \<times> PoolEntry \<Rightarrow> PoolDiff" where
  "pool_apply_added d x =
     (let (sn, note) = x in
      if hm_contains (pool_remove d) sn then d\<lparr>pool_remove := hm_remove sn (pool_remove d)\<rparr>
      else d\<lparr>pool_add := hm_insert sn note (pool_add d)\<rparr>)"

definition pool_with_diff_in_place :: "PoolDiff \<Rightarrow> PoolDiff \<Rightarrow> PoolAlgebraError + PoolDiff" where
  "pool_with_diff_in_place d other =
     (case find (\<lambda>sn. hm_contains (pool_remove d) sn \<and> \<not> hm_contains (pool_add d) sn)
             (hm_keys (pool_remove other)) of
        Some sn \<Rightarrow> Inl (DuplicateRemove sn)
      | None \<Rightarrow>
          (case find (\<lambda>sn. hm_contains (pool_add d) sn \<and> \<not> hm_contains (pool_remove other) sn)
                  (hm_keys (pool_add other)) of
             Some sn \<Rightarrow> Inl (DuplicateAdd sn)
           | None \<Rightarrow>
               Inr (foldl pool_apply_added
                     (foldl pool_apply_removed d (pool_remove other)) (pool_add other))))"

definition add_note :: "PoolDiff \<Rightarrow> hash \<Rightarrow> PoolEntry \<Rightarrow> PoolAlgebraError + PoolDiff" where
  "add_note d sn note =
     (if hm_contains (pool_remove d) sn then
        Inr (d\<lparr>pool_remove := hm_remove sn (pool_remove d)\<rparr>)
      else if \<not> hm_contains (pool_add d) sn then
        Inr (d\<lparr>pool_add := hm_insert sn note (pool_add d)\<rparr>)
      else Inl (DuplicateAdd sn))"

definition remove_note :: "PoolDiff \<Rightarrow> hash \<Rightarrow> PoolEntry \<Rightarrow> PoolAlgebraError + PoolDiff" where
  "remove_note d sn note =
     (if hm_contains (pool_add d) sn then
        Inr (d\<lparr>pool_add := hm_remove sn (pool_add d)\<rparr>)
      else if \<not> hm_contains (pool_remove d) sn then
        Inr (d\<lparr>pool_remove := hm_insert sn note (pool_remove d)\<rparr>)
      else Inl (DuplicateRemove sn))"

text \<open>A view is its \<open>get_note\<close>.\<close>

type_synonym pool_view = "hash \<Rightarrow> PoolEntry option"

definition pool_compose :: "pool_view \<Rightarrow> PoolDiff \<Rightarrow> pool_view" where
  "pool_compose base d sn =
     (case hm_get (pool_add d) sn of
        Some note \<Rightarrow> Some note
      | None \<Rightarrow> if hm_contains (pool_remove d) sn then None else base sn)"

section \<open>Well-formed diffs and diffs that fit a state\<close>

definition pool_diff_wf :: "PoolDiff \<Rightarrow> bool" where
  "pool_diff_wf d \<longleftrightarrow> hm_wf (pool_add d) \<and> hm_wf (pool_remove d)"

definition pool_cell :: "PoolDiff \<Rightarrow> hash \<Rightarrow> PoolEntry cell" where
  "pool_cell d sn = (hm_get (pool_add d) sn, hm_get (pool_remove d) sn)"

abbreviation no_tag :: "PoolEntry \<Rightarrow> unit" where
  "no_tag e \<equiv> ()"

text \<open>Invariants I1 and I3: a serial determines its entry; \<open>E\<close> is that assignment.\<close>

definition pool_known :: "(hash \<Rightarrow> PoolEntry) \<Rightarrow> pool_view \<Rightarrow> bool" where
  "pool_known E v \<longleftrightarrow> (\<forall>sn e. v sn = Some e \<longrightarrow> E sn = e)"

definition pool_diff_fits :: "PoolDiff \<Rightarrow> pool_view \<Rightarrow> bool" where
  "pool_diff_fits d v \<longleftrightarrow>
     (\<forall>sn. (\<forall>e. hm_get (pool_remove d) sn = Some e \<longrightarrow> v sn = Some e) \<and>
           (\<forall>e. hm_get (pool_add d) sn = Some e \<longrightarrow> v sn = None))"

definition pool_diff_valid :: "(hash \<Rightarrow> PoolEntry) \<Rightarrow> PoolDiff \<Rightarrow> pool_view \<Rightarrow> bool" where
  "pool_diff_valid E d v \<longleftrightarrow>
     pool_diff_wf d \<and> pool_diff_fits d v \<and> pool_known E v \<and> pool_known E (hm_get (pool_add d))"

section \<open>Lemmas\<close>

lemma pool_compose_cell: "pool_compose base d sn = cell_apply (pool_cell d sn) (base sn)"
  by (auto simp: pool_compose_def cell_apply_def pool_cell_def split: option.split)

lemma pool_diff_fits_cell:
  "pool_diff_fits d v \<longleftrightarrow> (\<forall>sn. cell_valid no_tag (pool_cell d sn) (v sn))"
  unfolding pool_diff_fits_def cell_valid_def pool_cell_def
  by (metis fst_conv not_None_eq snd_conv)

lemma pool_known_compose:
  "pool_known E v \<Longrightarrow> pool_known E (hm_get (pool_add d)) \<Longrightarrow> pool_known E (pool_compose v d)"
  by (simp add: pool_known_def pool_compose_def split: option.splits)

lemma pool_cell_apply_removed:
  "pool_cell (pool_apply_removed d (sn', note)) sn =
     (if sn = sn' then cell_remove no_tag note (pool_cell d sn) else pool_cell d sn)"
  by (auto simp: pool_apply_removed_def pool_cell_def cell_remove_def same_tag_def
      split: option.splits)

lemma pool_cell_apply_added:
  "pool_cell (pool_apply_added d (sn', note)) sn =
     (if sn = sn' then cell_add no_tag note (pool_cell d sn) else pool_cell d sn)"
  by (auto simp: pool_apply_added_def pool_cell_def cell_add_def same_tag_def
      split: option.splits)

lemma pool_diff_wf_rounds:
  "pool_diff_wf d \<Longrightarrow> pool_diff_wf (pool_apply_removed d x)"
  "pool_diff_wf d \<Longrightarrow> pool_diff_wf (pool_apply_added d x)"
  by (simp_all add: pool_apply_removed_def pool_apply_added_def pool_diff_wf_def split: prod.split)

lemma pool_diff_wf_loops:
  "pool_diff_wf d \<Longrightarrow> pool_diff_wf (foldl pool_apply_removed d xs)"
  "pool_diff_wf d \<Longrightarrow> pool_diff_wf (foldl pool_apply_added d xs)"
  by (induction xs arbitrary: d) (simp_all add: pool_diff_wf_rounds)

lemma pool_cell_loops:
  assumes "pool_diff_wf other"
  shows "pool_cell (foldl pool_apply_added (foldl pool_apply_removed d (pool_remove other))
      (pool_add other)) sn = cell_with no_tag (pool_cell d sn) (pool_cell other sn)"
proof -
  have dist: "distinct (map fst (pool_add other))" "distinct (map fst (pool_remove other))"
    using assms by (simp_all add: pool_diff_wf_def hm_wf_def)
  note removed = foldl_pointwise [where proj = "\<lambda>sn d. pool_cell d sn" and f = pool_apply_removed
      and g = "\<lambda>_. cell_remove no_tag", OF pool_cell_apply_removed dist(2)]
  note added = foldl_pointwise [where proj = "\<lambda>sn d. pool_cell d sn" and f = pool_apply_added
      and g = "\<lambda>_. cell_add no_tag", OF pool_cell_apply_added dist(1)]
  show ?thesis
    by (simp add: added removed cell_with_def Let_def pool_cell_def [of other] hm_get_def
        split: option.split)
qed

lemma pool_with_diff_checks_pass:
  assumes "pool_diff_fits d v" and "pool_diff_fits other (pool_compose v d)"
  shows "pool_with_diff_in_place d other =
    Inr (foldl pool_apply_added (foldl pool_apply_removed d (pool_remove other)) (pool_add other))"
proof -
  have fits: "cell_valid no_tag (pool_cell d sn) (v sn)"
    "cell_valid no_tag (pool_cell other sn) (cell_apply (pool_cell d sn) (v sn))" for sn
    using assms by (simp_all add: pool_diff_fits_cell pool_compose_cell)
  have "\<not> (hm_contains (pool_remove d) sn \<and> \<not> hm_contains (pool_add d) sn)"
    if "hm_get (pool_remove other) sn = Some x" for sn x
    using cell_checks_pass(1) [OF fits, of sn x] that
    by (cases "hm_get (pool_add d) sn"; cases "hm_get (pool_remove d) sn")
       (simp_all add: pool_cell_def same_tag_def domIff)
  then have "find (\<lambda>sn. hm_contains (pool_remove d) sn \<and> \<not> hm_contains (pool_add d) sn)
      (hm_keys (pool_remove other)) = None"
    unfolding find_None_iff set_hm_keys by blast
  moreover have "\<not> (hm_contains (pool_add d) sn \<and> \<not> hm_contains (pool_remove other) sn)"
    if "hm_get (pool_add other) sn = Some x" for sn x
    using cell_checks_pass(2) [OF fits, of sn x] that
    by (cases "hm_get (pool_remove other) sn"; cases "hm_get (pool_add d) sn")
       (simp_all add: pool_cell_def same_tag_def domIff)
  then have "find (\<lambda>sn. hm_contains (pool_add d) sn \<and> \<not> hm_contains (pool_remove other) sn)
      (hm_keys (pool_add other)) = None"
    unfolding find_None_iff set_hm_keys by blast
  ultimately show ?thesis by (simp add: pool_with_diff_in_place_def)
qed

lemma pool_with_diff_law:
  assumes "pool_diff_valid E d v" and "pool_diff_valid E other (pool_compose v d)"
  shows "\<exists>d'. pool_with_diff_in_place d other = Inr d' \<and> pool_diff_valid E d' v \<and>
    pool_compose v d' = pool_compose (pool_compose v d) other"
proof -
  define d' where
    "d' = foldl pool_apply_added (foldl pool_apply_removed d (pool_remove other)) (pool_add other)"
  have fits: "cell_valid no_tag (pool_cell d sn) (v sn)"
    "cell_valid no_tag (pool_cell other sn) (cell_apply (pool_cell d sn) (v sn))" for sn
    using assms by (simp_all add: pool_diff_valid_def pool_diff_fits_cell pool_compose_cell)
  have known: "cell_known no_tag (\<lambda>_. E sn) (v sn)"
    "cell_known no_tag (\<lambda>_. E sn) (fst (pool_cell other sn))" for sn
    using assms by (simp_all add: pool_diff_valid_def pool_known_def cell_known_def pool_cell_def)
  have cell: "pool_cell d' sn = cell_with no_tag (pool_cell d sn) (pool_cell other sn)" for sn
    unfolding d'_def using assms by (intro pool_cell_loops) (simp add: pool_diff_valid_def)
  have app: "pool_compose v d' = pool_compose (pool_compose v d) other"
    by (rule ext) (simp add: pool_compose_cell cell cell_with_sound(1) [OF fits known])
  have fit: "pool_diff_fits d' v"
    by (simp add: pool_diff_fits_cell cell cell_with_sound(2) [OF fits known])
  have "pool_known E (pool_compose v d')"
    unfolding app using assms by (simp add: pool_diff_valid_def pool_known_compose)
  then have "pool_known E (hm_get (pool_add d'))"
    by (simp add: pool_known_def pool_compose_def split: option.splits)
  moreover have "pool_diff_wf d'"
    using assms by (simp add: d'_def pool_diff_valid_def pool_diff_wf_loops)
  moreover have "pool_with_diff_in_place d other = Inr d'"
    unfolding d'_def using assms
    by (intro pool_with_diff_checks_pass [of d v]) (simp_all add: pool_diff_valid_def)
  ultimately show ?thesis
    using app fit assms(1) by (auto simp: pool_diff_valid_def)
qed

lemma pool_reverse_law:
  assumes "pool_diff_valid E d v"
  shows "pool_diff_valid E (pool_to_reversed d) (pool_compose v d)"
    and "pool_compose (pool_compose v d) (pool_to_reversed d) = v"
proof -
  have cell: "pool_cell (pool_to_reversed d) sn = (snd (pool_cell d sn), fst (pool_cell d sn))" for sn
    by (simp add: pool_cell_def pool_to_reversed_def)
  have fits: "cell_valid no_tag (pool_cell d sn) (v sn)" for sn
    using assms by (simp add: pool_diff_valid_def pool_diff_fits_cell)
  show "pool_compose (pool_compose v d) (pool_to_reversed d) = v"
    by (rule ext) (simp add: pool_compose_cell cell cell_reverse [OF fits])
  have "pool_diff_fits (pool_to_reversed d) (pool_compose v d)"
    by (simp add: pool_diff_fits_cell pool_compose_cell cell cell_reverse [OF fits])
  moreover have "pool_known E (pool_compose v d)"
    using assms by (simp add: pool_diff_valid_def pool_known_compose)
  moreover have "pool_known E (hm_get (pool_remove d))"
    using assms by (simp add: pool_diff_valid_def pool_known_def pool_diff_fits_def)
  ultimately show "pool_diff_valid E (pool_to_reversed d) (pool_compose v d)"
    using assms by (simp add: pool_diff_valid_def pool_diff_wf_def pool_to_reversed_def)
qed

interpretation pd: reversible_diffs pool_with_diff_in_place pool_to_reversed
  "\<lambda>d v. pool_compose v d" "pool_diff_valid E" PoolDiff_default for E
proof
  show "pool_diff_valid E d v \<Longrightarrow> pool_diff_valid E PoolDiff_default v" for d v
    by (simp add: pool_diff_valid_def pool_diff_wf_def pool_diff_fits_def pool_known_def
        PoolDiff_default_def)
  show "pool_compose v PoolDiff_default = v" for v
    by (rule ext) (simp add: pool_compose_def PoolDiff_default_def)
qed (simp_all add: pool_with_diff_law pool_reverse_law)

text \<open>A diff that fits a state is determined by the state and the state it leads to: it adds
  what is new and removes what is gone.\<close>

lemma pool_diff_canonical:
  assumes "pool_diff_fits d v"
  shows "hm_get (pool_add d) sn = (if v sn = pool_compose v d sn then None else pool_compose v d sn)"
    and "hm_get (pool_remove d) sn = (if v sn = pool_compose v d sn then None else v sn)"
proof -
  have "pool_cell d sn = cell_between (v sn) (pool_compose v d sn)"
    unfolding pool_compose_cell using assms
    by (intro cell_valid_canonical [where tag = no_tag]) (simp add: pool_diff_fits_cell)
  then show "hm_get (pool_add d) sn =
      (if v sn = pool_compose v d sn then None else pool_compose v d sn)"
    and "hm_get (pool_remove d) sn = (if v sn = pool_compose v d sn then None else v sn)"
    by (simp_all add: pool_cell_def cell_between_def split: if_splits)
qed

text \<open>Recording single notes: adding an absent note and removing a present one always
  succeed, and act on the composed view as insertion and deletion.\<close>

lemma add_note_law:
  assumes valid: "pool_diff_valid E d v" and "pool_compose v d sn = None" and "E sn = e"
  shows "\<exists>d'. add_note d sn e = Inr d' \<and> pool_diff_valid E d' v \<and>
    pool_compose v d' = (pool_compose v d)(sn \<mapsto> e)"
proof (cases "hm_get (pool_remove d) sn")
  case None
  then have "hm_get (pool_add d) sn = None" "v sn = None"
    using assms by (auto simp: pool_compose_def split: option.splits)
  with None valid \<open>E sn = e\<close> show ?thesis
    by (auto simp: add_note_def pool_diff_valid_def pool_diff_wf_def pool_diff_fits_def
        pool_known_def pool_compose_def fun_eq_iff domIff)
next
  case (Some x)
  then have "v sn = Some x" "x = e" "hm_get (pool_add d) sn = None"
    using assms by (auto simp: pool_diff_valid_def pool_diff_fits_def pool_known_def
        pool_compose_def split: option.splits)
  with Some valid show ?thesis
    by (auto simp: add_note_def pool_diff_valid_def pool_diff_wf_def pool_diff_fits_def
        pool_known_def pool_compose_def fun_eq_iff domIff split: option.splits)
qed

lemma remove_note_law:
  assumes valid: "pool_diff_valid E d v" and "pool_compose v d sn = Some e"
  shows "\<exists>d'. remove_note d sn e = Inr d' \<and> pool_diff_valid E d' v \<and>
    pool_compose v d' = (pool_compose v d)(sn := None)"
proof (cases "hm_get (pool_add d) sn")
  case None
  then have "hm_get (pool_remove d) sn = None" "v sn = Some e"
    using assms by (auto simp: pool_compose_def domIff split: if_splits)
  with None valid show ?thesis
    by (auto simp: remove_note_def pool_diff_valid_def pool_diff_wf_def pool_diff_fits_def
        pool_known_def pool_compose_def fun_eq_iff domIff)
next
  case (Some x)
  then have "v sn = None"
    using valid by (auto simp: pool_diff_valid_def pool_diff_fits_def)
  with Some valid show ?thesis
    by (auto simp: remove_note_def pool_diff_valid_def pool_diff_wf_def pool_diff_fits_def
        pool_known_def pool_compose_def fun_eq_iff domIff)
qed

lemma add_note_conflict:
  "hm_get (pool_remove d) sn = None \<Longrightarrow> hm_get (pool_add d) sn \<noteq> None
    \<Longrightarrow> add_note d sn e = Inl (DuplicateAdd sn)"
  by (auto simp: add_note_def domIff)

lemma remove_note_conflict:
  "hm_get (pool_add d) sn = None \<Longrightarrow> hm_get (pool_remove d) sn \<noteq> None
    \<Longrightarrow> remove_note d sn e = Inl (DuplicateRemove sn)"
  by (auto simp: remove_note_def domIff)

section \<open>Properties\<close>

text \<open>Composing pool diffs.  When \<open>d\<close> fits a pool state and \<open>other\<close> fits the state after \<open>d\<close>,
  \<open>with_diff_in_place\<close> succeeds, the result fits the first state and shows through a composed
  view what the two stacked views show; and the reversed result leads back.\<close>

lemma pool_with_diff_composes:
  assumes "pool_diff_valid E d v" and "pool_diff_valid E other (pool_compose v d)"
  shows "\<exists>d'. pool_with_diff_in_place d other = Inr d' \<and> pool_diff_valid E d' v \<and>
    pool_compose v d' = pool_compose (pool_compose v d) other \<and>
    pool_compose (pool_compose v d') (pool_to_reversed d') = v"
  using pool_with_diff_law [OF assms] pool_reverse_law(2) by blast

definition sample_note :: PoolEntry where
  "sample_note = unlocked \<lparr>nn_d = D1, nn_pk = [4]\<rparr>"

lemmas pool_sample_simps =
  pool_diff_valid_def pool_diff_wf_def hm_wf_def pool_diff_fits_def pool_known_def
  pool_compose_def hm_get_def

lemma pool_with_diff_composes_witness:
  "\<exists>d'. pool_with_diff_in_place
      \<lparr>pool_add = [([1], sample_note)], pool_remove = [([0], sample_note)]\<rparr>
      \<lparr>pool_add = [([0], sample_note)], pool_remove = [([1], sample_note)]\<rparr> = Inr d' \<and>
    pool_compose [[0] \<mapsto> sample_note] d' = [[0] \<mapsto> sample_note]"
proof -
  let ?v = "[[0] \<mapsto> sample_note]"
  let ?d = "\<lparr>pool_add = [([1], sample_note)], pool_remove = [([0], sample_note)]\<rparr>"
  let ?o = "\<lparr>pool_add = [([0], sample_note)], pool_remove = [([1], sample_note)]\<rparr>"
  have "pool_diff_valid (\<lambda>_. sample_note) ?d ?v"
    by (auto simp: pool_sample_simps split: if_splits)
  moreover have "pool_diff_valid (\<lambda>_. sample_note) ?o (pool_compose ?v ?d)"
    by (auto simp: pool_sample_simps split: if_splits)
  ultimately obtain d' where "pool_with_diff_in_place ?d ?o = Inr d'"
    "pool_compose ?v d' = pool_compose (pool_compose ?v ?d) ?o"
    using pool_with_diff_composes by blast
  moreover have "pool_compose (pool_compose ?v ?d) ?o = ?v"
    by (auto simp: pool_compose_def hm_get_def fun_eq_iff)
  ultimately show ?thesis by metis
qed

end
