(* ===== verification/Pool_Validate.thy ===== *)
theory Pool_Validate
  imports Pool_Diff Pool_Hashing
begin

text \<open>
  Validation of pool operations: \<^verbatim>\<open>src/consensus/core/src/notepool/validate.rs\<close>, stateless
  and against a composed pool view.
\<close>

section \<open>Stateless validation\<close>

definition MAX_POOL_OP_COLLECTION_LEN :: nat where "MAX_POOL_OP_COLLECTION_LEN = 1000"
definition POOL_FRESHNESS_WINDOW :: u64 where "POOL_FRESHNESS_WINDOW = 36000"

text \<open>The loop of \<open>validate_locks\<close>; its state is \<open>last\<close>.\<close>

definition check_lock :: "nat \<Rightarrow> u32 option \<Rightarrow> ProducedLock \<Rightarrow> PoolOpValidationError + u32 option" where
  "check_lock produced_len prev l =
     (if produced_len \<le> unat (lock_index l) then Inl (LockIndexOutOfRange (lock_index l) produced_len)
      else case prev of
        Some p \<Rightarrow> if lock_index l \<le> p then Inl LockIndicesNotAscending else Inr (Some (lock_index l))
      | None \<Rightarrow> Inr (Some (lock_index l)))"

definition validate_locks :: "ProducedLock list \<Rightarrow> nat \<Rightarrow> PoolOpValidationError + unit" where
  "validate_locks locks produced_len =
     bindR (fold_result (check_lock produced_len) None locks) (\<lambda>_. Inr ())"

definition validate_mint :: "MintOp \<Rightarrow> PoolOpValidationError + unit" where
  "validate_mint mint =
     (if new_notes mint = [] then Inl (EmptyCollection ''new_notes'')
      else if MAX_POOL_OP_COLLECTION_LEN < length (new_notes mint) then
        Inl (TooManyItems (length (new_notes mint)) ''new_notes'' MAX_POOL_OP_COLLECTION_LEN)
      else Inr ())"

text \<open>One group of the loop of \<open>validate_consumed_groups\<close>; the state is \<open>seen\<close>.\<close>

definition check_group :: "hash set \<Rightarrow> nat \<times> SignedGroup \<Rightarrow> PoolOpValidationError + hash set" where
  "check_group seen x =
     (let (i, g) = x in
      if serials g = [] then Inl (EmptySignedGroup i)
      else case first_dup seen (serials g) of
        Some sn \<Rightarrow> Inl (DuplicateSerial sn)
      | None \<Rightarrow> Inr (seen \<union> set (serials g)))"

definition validate_consumed_groups :: "SignedGroup list \<Rightarrow> PoolOpValidationError + unit" where
  "validate_consumed_groups groups =
     (let total_serials = sum_list (map (\<lambda>g. length (serials g)) groups) in
      if MAX_POOL_OP_COLLECTION_LEN < total_serials then
        Inl (TooManyItems total_serials ''consumed serials'' MAX_POOL_OP_COLLECTION_LEN)
      else bindR (fold_result check_group {} (enumerate 0 groups)) (\<lambda>_. Inr ()))"

definition validate_transfer :: "TransferOp \<Rightarrow> PoolOpValidationError + unit" where
  "validate_transfer tr =
     (if t_consumed tr = [] then Inl (EmptyCollection ''consumed'')
      else if MAX_POOL_OP_COLLECTION_LEN < length (t_produced tr) then
        Inl (TooManyItems (length (t_produced tr)) ''produced'' MAX_POOL_OP_COLLECTION_LEN)
      else validate_consumed_groups (t_consumed tr))"

definition validate_transfer_locked :: "TransferLockedOp \<Rightarrow> PoolOpValidationError + unit" where
  "validate_transfer_locked tr =
     (if tl_consumed tr = [] then Inl (EmptyCollection ''consumed'')
      else if MAX_POOL_OP_COLLECTION_LEN < length (tl_produced tr) then
        Inl (TooManyItems (length (tl_produced tr)) ''produced'' MAX_POOL_OP_COLLECTION_LEN)
      else if tl_locks tr = [] then Inl (EmptyCollection ''locks'')
      else bindR (validate_locks (tl_locks tr) (length (tl_produced tr)))
             (\<lambda>_. validate_consumed_groups (tl_consumed tr)))"

definition validate_redeem :: "RedeemOp \<Rightarrow> PoolOpValidationError + unit" where
  "validate_redeem r =
     (if r_consumed r = [] then Inl (EmptyCollection ''consumed'')
      else validate_consumed_groups (r_consumed r))"

fun validate_stateless :: "PoolOp \<Rightarrow> PoolOpValidationError + unit" where
  "validate_stateless (Mint mint) = validate_mint mint"
| "validate_stateless (Transfer tr) = validate_transfer tr"
| "validate_stateless (Redeem r) = validate_redeem r"
| "validate_stateless (TransferLocked tr) = validate_transfer_locked tr"

section \<open>Stateful validation\<close>

record ValidatedPoolOp =
  vop_diff :: PoolDiff
  consumed_petals :: u64
  produced_petals :: u64

definition ValidatedPoolOp_default :: ValidatedPoolOp where
  "ValidatedPoolOp_default = \<lparr>vop_diff = PoolDiff_default, consumed_petals = 0, produced_petals = 0\<rparr>"

type_synonym 'a pool_result = "(PoolOpContextError, 'a) outcome"

definition check_freshness :: "FreshnessAnchor \<Rightarrow> u64 \<Rightarrow> unit pool_result" where
  "check_freshness freshness pov =
     (let anchor = anchor_daa_score freshness in
      if pov < anchor then Inl (Err (AnchorInFuture anchor pov))
      else bindR (psub pov anchor) (\<lambda>age.
        if POOL_FRESHNESS_WINDOW < age then
          Inl (Err (StaleAnchor anchor pov POOL_FRESHNESS_WINDOW))
        else Inr ()))"

definition check_produced_serial_is_fresh :: "hash \<Rightarrow> pool_view \<Rightarrow> unit pool_result" where
  "check_produced_serial_is_fresh sn view =
     (if view sn \<noteq> None then Inl (Err (SerialAlreadyExists sn)) else Inr ())"

text \<open>The loop that creates notes, shared by mint and transfer: note \<open>i\<close> gets the serial of
  the transaction id and \<open>i\<close>.\<close>

definition produce_entry ::
    "PoolCrypto \<Rightarrow> hash \<Rightarrow> pool_view \<Rightarrow> ValidatedPoolOp \<Rightarrow> nat \<times> PoolEntry \<Rightarrow> ValidatedPoolOp pool_result" where
  "produce_entry C txid view v x =
     (let (i, e) = x; sn = serial_hash C txid (of_nat i) in
      bindR (check_produced_serial_is_fresh sn view) (\<lambda>_.
      bindR (map_err (\<lambda>a. Err (Algebra a)) (add_note (vop_diff v) sn e)) (\<lambda>d.
      bindR (padd (produced_petals v) (petals (entry_d e))) (\<lambda>p.
      Inr (v\<lparr>vop_diff := d, produced_petals := p\<rparr>)))))"

definition validate_mint_stateful ::
    "PoolCrypto \<Rightarrow> MintOp \<Rightarrow> hash \<Rightarrow> pool_view \<Rightarrow> ValidatedPoolOp pool_result" where
  "validate_mint_stateful C mint txid view =
     fold_result (produce_entry C txid view) ValidatedPoolOp_default
       (enumerate 0 (map unlocked (new_notes mint)))"

text \<open>The loops of \<open>validate_consumed_groups_stateful\<close>.  The inner one keeps the key of the
  group, the diff and the petals consumed so far.\<close>

type_synonym consume_state = "bytes option \<times> PoolDiff \<times> u64"

definition consume_serial ::
    "pool_view \<Rightarrow> u64 \<Rightarrow> bool \<Rightarrow> nat \<Rightarrow> consume_state \<Rightarrow> hash \<Rightarrow> consume_state pool_result" where
  "consume_serial view pov skip_signature i st sn =
     (let (group_pk, d, consumed) = st in
      bindR (ok_or (Err (SerialNotFound sn)) (view sn)) (\<lambda>e.
      bindR (if skip_signature then Inr group_pk
             else let pk = spending_pk e pov in
               case group_pk of
                 None \<Rightarrow> Inr (Some pk)
               | Some seen \<Rightarrow> if seen \<noteq> pk then Inl (Err (MixedKeysInGroup i)) else Inr group_pk) (\<lambda>group_pk.
      bindR (map_err (\<lambda>a. Err (Algebra a)) (remove_note d sn e)) (\<lambda>d.
      bindR (padd consumed (petals (entry_d e))) (\<lambda>consumed.
      Inr (group_pk, d, consumed))))))"

definition check_group_signature ::
    "PoolCrypto \<Rightarrow> nat \<Rightarrow> SignedGroup \<Rightarrow> bytes option \<Rightarrow> hash \<Rightarrow> unit pool_result" where
  "check_group_signature C i g group_pk msg =
     bindR (unwrap group_pk) (\<lambda>pk.
     bindR (ok_or (Err (BadPublicKey i)) (xonly_from_slice C pk)) (\<lambda>xonly.
     bindR (unwrap (signature_from_slice C (signature g))) (\<lambda>sig.
     guardR (schnorr_verify C sig msg xonly) (Err (BadSignature i)))))"

definition consume_group ::
    "PoolCrypto \<Rightarrow> u8 \<Rightarrow> NewNote list \<Rightarrow> ProducedLock list \<Rightarrow> hash \<Rightarrow> u64 \<Rightarrow> pool_view \<Rightarrow> u64 \<Rightarrow> bool \<Rightarrow>
     PoolDiff \<times> u64 \<Rightarrow> nat \<times> SignedGroup \<Rightarrow> (PoolDiff \<times> u64) pool_result" where
  "consume_group C opt produced locks outs_hash anchor view pov skip_signature st x =
     (let (d, consumed) = st; (i, g) = x in
      bindR (fold_result (consume_serial view pov skip_signature i) (None, d, consumed) (serials g))
        (\<lambda>(group_pk, d, consumed).
      bindR (if skip_signature then Inr ()
             else check_group_signature C i g group_pk
                    (signing_hash_with_locks C opt (serials g) produced locks outs_hash anchor)) (\<lambda>_.
      Inr (d, consumed))))"

definition validate_consumed_groups_stateful ::
    "PoolCrypto \<Rightarrow> SignedGroup list \<Rightarrow> u8 \<Rightarrow> NewNote list \<Rightarrow> ProducedLock list \<Rightarrow> hash \<Rightarrow> u64 \<Rightarrow>
     pool_view \<Rightarrow> u64 \<Rightarrow> bool \<Rightarrow> PoolDiff \<Rightarrow> (PoolDiff \<times> u64) pool_result" where
  "validate_consumed_groups_stateful C groups opt produced locks outs_hash anchor view pov skip_signature d =
     fold_result (consume_group C opt produced locks outs_hash anchor view pov skip_signature) (d, 0)
       (enumerate 0 groups)"

text \<open>\<^verbatim>\<open>entries[l.index as usize].lock = Some(l.lock)\<close> panics out of range.\<close>

definition join_lock :: "PoolEntry list \<Rightarrow> ProducedLock \<Rightarrow> PoolEntry list pool_result" where
  "join_lock es l =
     (let i = unat (lock_index l) in
      if i < length es then Inr (es[i := (es ! i)\<lparr>entry_lock := Some (lock_lock l)\<rparr>]) else Inl Panic)"

definition validate_transfer_stateful ::
    "PoolCrypto \<Rightarrow> SignedGroup list \<Rightarrow> NewNote list \<Rightarrow> ProducedLock list \<Rightarrow> FreshnessAnchor \<Rightarrow> u8 \<Rightarrow> hash \<Rightarrow>
     TransactionOutput list \<Rightarrow> pool_view \<Rightarrow> u64 \<Rightarrow> bool \<Rightarrow> ValidatedPoolOp pool_result" where
  "validate_transfer_stateful C consumed produced locks freshness opt txid outs view pov skip =
     bindR (if skip then Inr () else check_freshness freshness pov) (\<lambda>_.
        let outs_hash = transparent_outputs_hash C outs in
        bindR (validate_consumed_groups_stateful C consumed opt produced locks outs_hash
                 (anchor_daa_score freshness) view pov skip PoolDiff_default) (\<lambda>(d, consumed_petals).
        bindR (fold_result join_lock (map unlocked produced) locks) (\<lambda>es.
        bindR (fold_result (produce_entry C txid view)
                 \<lparr>vop_diff = d, consumed_petals = consumed_petals, produced_petals = 0\<rparr>
                 (enumerate 0 es)) (\<lambda>v.
        if consumed_petals < produced_petals v then
          Inl (Err (InsufficientConsumedValue consumed_petals (produced_petals v)))
        else Inr v))))"

definition validate_redeem_stateful ::
    "PoolCrypto \<Rightarrow> RedeemOp \<Rightarrow> TransactionOutput list \<Rightarrow> pool_view \<Rightarrow> u64 \<Rightarrow> bool \<Rightarrow> ValidatedPoolOp pool_result" where
  "validate_redeem_stateful C redeem outs view pov skip =
     bindR (if skip then Inr () else check_freshness (r_freshness redeem) pov) (\<lambda>_.
        let outs_hash = transparent_outputs_hash C outs in
        bindR (validate_consumed_groups_stateful C (r_consumed redeem) 2 [] [] outs_hash
                 (anchor_daa_score (r_freshness redeem)) view pov skip PoolDiff_default)
          (\<lambda>(d, consumed_petals).
        Inr \<lparr>vop_diff = d, consumed_petals = consumed_petals, produced_petals = 0\<rparr>))"

fun validate_stateful ::
    "PoolCrypto \<Rightarrow> PoolOp \<Rightarrow> hash \<Rightarrow> TransactionOutput list \<Rightarrow> pool_view \<Rightarrow> u64 \<Rightarrow> bool \<Rightarrow> bool \<Rightarrow>
     ValidatedPoolOp pool_result" where
  "validate_stateful C (Mint mint) txid outs view pov skip locks_active =
     validate_mint_stateful C mint txid view"
| "validate_stateful C (Transfer tr) txid outs view pov skip locks_active =
     validate_transfer_stateful C (t_consumed tr) (t_produced tr) [] (t_freshness tr) 1 txid outs view pov skip"
| "validate_stateful C (TransferLocked tr) txid outs view pov skip locks_active =
     (if \<not> locks_active then Inl (Err (LocksNotActive pov))
      else validate_transfer_stateful C (tl_consumed tr) (tl_produced tr) (tl_locks tr) (tl_freshness tr)
             3 txid outs view pov skip)"
| "validate_stateful C (Redeem r) txid outs view pov skip locks_active =
     validate_redeem_stateful C r outs view pov skip"

section \<open>What an accepted operation is\<close>

fun op_groups :: "PoolOp \<Rightarrow> SignedGroup list" where
  "op_groups (Mint _) = []"
| "op_groups (Transfer tr) = t_consumed tr"
| "op_groups (Redeem r) = r_consumed r"
| "op_groups (TransferLocked tr) = tl_consumed tr"

fun op_produced :: "PoolOp \<Rightarrow> NewNote list" where
  "op_produced (Mint m) = new_notes m"
| "op_produced (Transfer tr) = t_produced tr"
| "op_produced (Redeem r) = []"
| "op_produced (TransferLocked tr) = tl_produced tr"

fun op_locks :: "PoolOp \<Rightarrow> ProducedLock list" where
  "op_locks (TransferLocked tr) = tl_locks tr"
| "op_locks _ = []"

fun op_anchor :: "PoolOp \<Rightarrow> u64 option" where
  "op_anchor (Mint _) = None"
| "op_anchor (Transfer tr) = Some (anchor_daa_score (t_freshness tr))"
| "op_anchor (Redeem r) = Some (anchor_daa_score (r_freshness r))"
| "op_anchor (TransferLocked tr) = Some (anchor_daa_score (tl_freshness tr))"

text \<open>The entries an operation creates, in order.\<close>

fun op_entries :: "PoolOp \<Rightarrow> PoolEntry list" where
  "op_entries (TransferLocked tr) = produced_entries tr"
| "op_entries op = map unlocked (op_produced op)"

definition note_value :: "pool_view \<Rightarrow> hash \<Rightarrow> nat" where
  "note_value view sn = (case view sn of None \<Rightarrow> 0 | Some e \<Rightarrow> unat (petals (entry_d e)))"

definition entries_value :: "PoolEntry list \<Rightarrow> nat" where
  "entries_value es = sum_list (map (\<lambda>e. unat (petals (entry_d e))) es)"

definition produced_serials :: "PoolCrypto \<Rightarrow> hash \<Rightarrow> PoolOp \<Rightarrow> hash list" where
  "produced_serials C txid op = map (\<lambda>i. serial_hash C txid (of_nat i)) [0..<length (op_entries op)]"

section \<open>Lemmas: the consuming loops\<close>

definition removed_notes :: "pool_view \<Rightarrow> PoolDiff \<Rightarrow> hash list \<Rightarrow> PoolDiff" where
  "removed_notes view d sns =
     foldl (\<lambda>d sn. d\<lparr>pool_remove := hm_insert sn (the (view sn)) (pool_remove d)\<rparr>) d sns"

fun same_key :: "pool_view \<Rightarrow> u64 \<Rightarrow> bytes option \<Rightarrow> hash list \<Rightarrow> bool" where
  "same_key view pov k [] = True"
| "same_key view pov k (sn # sns) =
     (let pk = spending_pk (the (view sn)) pov
      in (k = None \<or> k = Some pk) \<and> same_key view pov (Some pk) sns)"

fun group_key :: "pool_view \<Rightarrow> u64 \<Rightarrow> bool \<Rightarrow> bytes option \<Rightarrow> hash list \<Rightarrow> bytes option" where
  "group_key view pov skip k [] = k"
| "group_key view pov skip k (sn # sns) =
     group_key view pov skip (if skip then k else Some (spending_pk (the (view sn)) pov)) sns"

definition notes_value :: "pool_view \<Rightarrow> hash list \<Rightarrow> nat" where
  "notes_value view sns = sum_list (map (note_value view) sns)"

lemma note_value_bound: "note_value view sn \<le> 10 ^ 13"
  using petals_bounds(2) by (simp add: note_value_def split: option.split)

lemma notes_value_simps [simp]:
  "notes_value view [] = 0"
  "notes_value view (sn # sns) = note_value view sn + notes_value view sns"
  "notes_value view (sns @ sns') = notes_value view sns + notes_value view sns'"
  by (simp_all add: notes_value_def)

lemma notes_value_bound: "notes_value view sns \<le> length sns * 10 ^ 13"
  by (induction sns) (use note_value_bound in \<open>auto simp: add_mono\<close>)

lemma removed_notes_simps [simp]:
  "removed_notes view d [] = d"
  "removed_notes view d (sn # sns) =
     removed_notes view (d\<lparr>pool_remove := hm_insert sn (the (view sn)) (pool_remove d)\<rparr>) sns"
  "removed_notes view d (sns @ sns') = removed_notes view (removed_notes view d sns) sns'"
  "pool_add (removed_notes view d sns) = pool_add d"
  by (simp_all add: removed_notes_def foldl_invariant [where P = "\<lambda>d'. pool_add d' = pool_add d"])

lemma removed_notes_get:
  "hm_get (pool_remove (removed_notes view d sns)) sn =
    (if sn \<in> set sns then Some (the (view sn)) else hm_get (pool_remove d) sn)"
  by (induction sns arbitrary: d) simp_all

lemma removed_notes_wf: "hm_wf (pool_remove d) \<Longrightarrow> hm_wf (pool_remove (removed_notes view d sns))"
  unfolding removed_notes_def by (rule foldl_invariant) simp_all

lemma of_nat_petals: "(of_nat (unat (petals d)) :: u64) = petals d"
  by simp

lemma consume_serial_eq:
  assumes "pool_add d = []" and "unat a + 10 ^ 13 < 2 ^ 64"
  shows "consume_serial view pov skip i (k, d, a) sn =
    (case view sn of
       None \<Rightarrow> Inl (Err (SerialNotFound sn))
     | Some e \<Rightarrow>
         if \<not> skip \<and> \<not> (k = None \<or> k = Some (spending_pk e pov)) then Inl (Err (MixedKeysInGroup i))
         else if hm_get (pool_remove d) sn \<noteq> None then Inl (Err (Algebra (DuplicateRemove sn)))
         else Inr (if skip then k else Some (spending_pk e pov),
                   d\<lparr>pool_remove := hm_insert sn e (pool_remove d)\<rparr>, a + petals (entry_d e)))"
proof -
  have "(padd a (petals (entry_d e)) :: u64 pool_result) = Inr (a + petals (entry_d e))" for e
    using assms(2) petals_bounds(2) [of "entry_d e"] by (intro padd_ok) simp
  then show ?thesis
    using assms(1)
    by (auto simp: consume_serial_def remove_note_def ok_or_def split: option.split)
qed

lemma consume_serials_iff:
  assumes "pool_add d = []" and "unat a + length sns * 10 ^ 13 < 2 ^ 64"
  shows "fold_result (consume_serial view pov skip i) (k, d, a) sns = Inr r \<longleftrightarrow>
    distinct sns \<and> (\<forall>sn \<in> set sns. hm_get (pool_remove d) sn = None \<and> view sn \<noteq> None) \<and>
    (\<not> skip \<longrightarrow> same_key view pov k sns) \<and>
    r = (group_key view pov skip k sns, removed_notes view d sns, a + of_nat (notes_value view sns))"
  using assms
proof (induction sns arbitrary: k d a)
  case (Cons sn sns)
  have a: "unat a + 10 ^ 13 < 2 ^ 64" using Cons.prems(2) by simp
  show ?case
  proof (cases "view sn")
    case None
    then show ?thesis by (simp add: consume_serial_eq [OF Cons.prems(1) a])
  next
    case (Some e)
    let ?d = "d\<lparr>pool_remove := hm_insert sn e (pool_remove d)\<rparr>"
    let ?a = "a + petals (entry_d e)"
    have "unat ?a = unat a + unat (petals (entry_d e))"
      using a petals_bounds(2) [of "entry_d e"] by (intro unat_add_no_overflow) simp
    then have "unat ?a + length sns * 10 ^ 13 < 2 ^ 64"
      using Cons.prems(2) petals_bounds(2) [of "entry_d e"] by simp
    moreover have "pool_add ?d = []" using Cons.prems(1) by simp
    ultimately have IH: "fold_result (consume_serial view pov skip i) (k', ?d, ?a) sns = Inr r \<longleftrightarrow>
        distinct sns \<and> (\<forall>sn \<in> set sns. hm_get (pool_remove ?d) sn = None \<and> view sn \<noteq> None) \<and>
        (\<not> skip \<longrightarrow> same_key view pov k' sns) \<and>
        r = (group_key view pov skip k' sns, removed_notes view ?d sns,
             ?a + of_nat (notes_value view sns))" for k'
      using Cons.IH by blast
    have "note_value view sn = unat (petals (entry_d e))" using Some by (simp add: note_value_def)
    then have sum: "?a + of_nat (notes_value view sns) = a + of_nat (notes_value view (sn # sns))"
      by (simp add: ac_simps)
    have rest: "(\<forall>x \<in> set sns. hm_get (pool_remove ?d) x = None \<and> view x \<noteq> None) \<longleftrightarrow>
        sn \<notin> set sns \<and> (\<forall>x \<in> set sns. hm_get (pool_remove d) x = None \<and> view x \<noteq> None)"
      by (auto split: if_splits)
    consider (mixed) "\<not> skip" "\<not> (k = None \<or> k = Some (spending_pk e pov))"
      | (dup) "skip \<or> k = None \<or> k = Some (spending_pk e pov)" "hm_get (pool_remove d) sn \<noteq> None"
      | (step) "skip \<or> k = None \<or> k = Some (spending_pk e pov)" "hm_get (pool_remove d) sn = None"
      by blast
    then show ?thesis
    proof cases
      case step
      then have eq: "fold_result (consume_serial view pov skip i) (k, d, a) (sn # sns) =
          fold_result (consume_serial view pov skip i)
            (if skip then k else Some (spending_pk e pov), ?d, ?a) sns"
        using Some by (auto simp: consume_serial_eq [OF Cons.prems(1) a])
      show ?thesis unfolding eq IH rest sum using Some step by (auto simp: Let_def)
    qed (use Some in \<open>auto simp: consume_serial_eq [OF Cons.prems(1) a]\<close>)
  qed
qed auto

lemma consume_serials_no_panic:
  assumes "pool_add d = []" and "unat a + length sns * 10 ^ 13 < 2 ^ 64"
  shows "fold_result (consume_serial view pov skip i) (k, d, a) sns \<noteq> Inl Panic"
  using assms
proof (induction sns arbitrary: k d a)
  case (Cons sn sns)
  have a: "unat a + 10 ^ 13 < 2 ^ 64" using Cons.prems(2) by simp
  have "fold_result (consume_serial view pov skip i)
      (k', d\<lparr>pool_remove := hm_insert sn e (pool_remove d)\<rparr>, a + petals (entry_d e)) sns \<noteq> Inl Panic"
    for k' e
  proof (rule Cons.IH)
    have "unat (a + petals (entry_d e)) = unat a + unat (petals (entry_d e))"
      using a petals_bounds(2) [of "entry_d e"] by (intro unat_add_no_overflow) simp
    then show "unat (a + petals (entry_d e)) + length sns * 10 ^ 13 < 2 ^ 64"
      using Cons.prems(2) petals_bounds(2) [of "entry_d e"] by simp
  qed (use Cons.prems(1) in simp)
  then show ?case
    by (auto simp: consume_serial_eq [OF Cons.prems(1) a] split: option.split)
qed simp

definition sig_ok :: "PoolCrypto \<Rightarrow> SignedGroup \<Rightarrow> bytes \<Rightarrow> hash \<Rightarrow> bool" where
  "sig_ok C g pk msg \<longleftrightarrow>
     (case xonly_from_slice C pk of None \<Rightarrow> False | Some xonly \<Rightarrow>
      case signature_from_slice C (signature g) of None \<Rightarrow> False | Some sig \<Rightarrow>
      schnorr_verify C sig msg xonly)"

lemma check_group_signature_iff:
  "check_group_signature C i g k msg = Inr u \<longleftrightarrow> (\<exists>pk. k = Some pk \<and> sig_ok C g pk msg)"
  by (cases k; cases "xonly_from_slice C (the k)"; cases "signature_from_slice C (signature g)")
     (simp_all add: check_group_signature_def sig_ok_def unwrap_def guardR_def)

text \<open>All serials of a group answer to one key, under which the signature verifies.\<close>

definition group_signed ::
    "PoolCrypto \<Rightarrow> pool_view \<Rightarrow> u64 \<Rightarrow> (hash list \<Rightarrow> hash) \<Rightarrow> SignedGroup \<Rightarrow> bool" where
  "group_signed C view pov msg g \<longleftrightarrow>
     (\<exists>pk. (\<forall>sn \<in> set (serials g). \<forall>e. view sn = Some e \<longrightarrow> spending_pk e pov = pk) \<and>
       sig_ok C g pk (msg (serials g)))"

lemma same_key_Some:
  "same_key view pov (Some pk) sns \<longleftrightarrow> (\<forall>sn \<in> set sns. spending_pk (the (view sn)) pov = pk)"
  by (induction sns) (auto simp: Let_def)

lemma group_key_same:
  assumes "sns \<noteq> []" and "\<forall>sn \<in> set sns. spending_pk (the (view sn)) pov = pk"
  shows "group_key view pov False k sns = Some pk"
  using assms
proof (induction sns arbitrary: k)
  case (Cons sn sns)
  then show ?case by (cases "sns = []") simp_all
qed simp

lemma group_key_not_None: "sns \<noteq> [] \<Longrightarrow> group_key view pov False k sns \<noteq> None"
proof (induction sns arbitrary: k)
  case (Cons sn sns)
  then show ?case by (cases "sns = []") simp_all
qed simp

lemma check_group_signature_no_panic:
  "k \<noteq> None \<Longrightarrow> signature_from_slice C (signature g) \<noteq> None \<Longrightarrow>
    check_group_signature C i g k msg \<noteq> Inl Panic"
  by (cases k; cases "xonly_from_slice C (the k)"; cases "signature_from_slice C (signature g)")
     (simp_all add: check_group_signature_def unwrap_def guardR_def)

lemma group_signed_iff:
  assumes "serials g \<noteq> []" and "\<forall>sn \<in> set (serials g). view sn \<noteq> None"
  shows "same_key view pov None (serials g) \<and>
      (\<exists>pk. group_key view pov False None (serials g) = Some pk \<and> sig_ok C g pk (msg (serials g)))
    \<longleftrightarrow> group_signed C view pov msg g"
proof -
  obtain sn sns where s: "serials g = sn # sns" using assms(1) by (cases "serials g") auto
  have same: "same_key view pov None (serials g) \<longleftrightarrow>
      (\<forall>x \<in> set (serials g). spending_pk (the (view x)) pov = spending_pk (the (view sn)) pov)"
    by (auto simp: s same_key_Some Let_def)
  have keys: "(\<forall>x \<in> set (serials g). \<forall>e. view x = Some e \<longrightarrow> spending_pk e pov = pk) \<longleftrightarrow>
      (\<forall>x \<in> set (serials g). spending_pk (the (view x)) pov = pk)" for pk
    using assms(2) by (metis option.exhaust_sel option.sel)
  show ?thesis
    unfolding same group_signed_def keys
    using group_key_same [OF assms(1), of view pov "spending_pk (the (view sn)) pov" None]
    by (auto simp: s)
qed

lemma consume_group_iff:
  assumes "pool_add d = []" and "unat a + length (serials g) * 10 ^ 13 < 2 ^ 64" and "serials g \<noteq> []"
  shows "consume_group C opt produced locks oh anchor view pov skip (d, a) (i, g) = Inr r \<longleftrightarrow>
    distinct (serials g) \<and>
    (\<forall>sn \<in> set (serials g). hm_get (pool_remove d) sn = None \<and> view sn \<noteq> None) \<and>
    (\<not> skip \<longrightarrow> group_signed C view pov
       (\<lambda>sns. signing_hash_with_locks C opt sns produced locks oh anchor) g) \<and>
    r = (removed_notes view d (serials g), a + of_nat (notes_value view (serials g)))"
    (is "?lhs \<longleftrightarrow> ?fresh \<and> ?exist \<and> ?signed \<and> ?r")
proof -
  let ?msg = "\<lambda>sns. signing_hash_with_locks C opt sns produced locks oh anchor"
  have lhs: "?lhs \<longleftrightarrow> ?fresh \<and> ?exist \<and> ?r \<and> (\<not> skip \<longrightarrow> same_key view pov None (serials g) \<and>
      (\<exists>pk. group_key view pov False None (serials g) = Some pk \<and> sig_ok C g pk (?msg (serials g))))"
    by (cases skip)
       (auto simp: consume_group_def bindR_eq_Inr consume_serials_iff [OF assms(1,2)]
         check_group_signature_iff)
  have "same_key view pov None (serials g) \<and>
      (\<exists>pk. group_key view pov False None (serials g) = Some pk \<and> sig_ok C g pk (?msg (serials g))) \<longleftrightarrow>
      group_signed C view pov ?msg g" if ?exist
    using that by (intro group_signed_iff [OF assms(3), where msg = ?msg]) simp
  then show ?thesis unfolding lhs by blast
qed

lemma group_serials_simps [simp]:
  "group_serials [] = []"
  "group_serials (g # gs) = serials g @ group_serials gs"
  by (simp_all add: group_serials_def)

lemma unat_add_notes_value:
  assumes "unat a + (length sns + m) * 10 ^ 13 < 2 ^ 64"
  shows "unat (a + of_nat (notes_value view sns) :: u64) = unat a + notes_value view sns"
    and "unat (a + of_nat (notes_value view sns) :: u64) + m * 10 ^ 13 < 2 ^ 64"
proof -
  have b: "notes_value view sns \<le> length sns * 10 ^ 13" by (rule notes_value_bound)
  then have n: "notes_value view sns < 2 ^ 64" using assms by (simp add: add_mult_distrib)
  then have "unat (of_nat (notes_value view sns) :: u64) = notes_value view sns"
    by (simp add: unat_of_nat)
  moreover have "unat a + notes_value view sns < 2 ^ 64" using assms b by (simp add: add_mult_distrib)
  ultimately show "unat (a + of_nat (notes_value view sns) :: u64) = unat a + notes_value view sns"
    by (simp add: unat_add_no_overflow)
  then show "unat (a + of_nat (notes_value view sns) :: u64) + m * 10 ^ 13 < 2 ^ 64"
    using assms b by (simp add: add_mult_distrib)
qed

lemma consume_groups_iff:
  assumes "pool_add d = []" and "unat a + length (group_serials gs) * 10 ^ 13 < 2 ^ 64"
    and "\<forall>g \<in> set gs. serials g \<noteq> []"
  shows "fold_result (consume_group C opt produced locks oh anchor view pov skip) (d, a) (enumerate n gs)
      = Inr r \<longleftrightarrow>
    distinct (group_serials gs) \<and>
    (\<forall>sn \<in> set (group_serials gs). hm_get (pool_remove d) sn = None \<and> view sn \<noteq> None) \<and>
    (\<not> skip \<longrightarrow> (\<forall>g \<in> set gs. group_signed C view pov
       (\<lambda>sns. signing_hash_with_locks C opt sns produced locks oh anchor) g)) \<and>
    r = (removed_notes view d (group_serials gs), a + of_nat (notes_value view (group_serials gs)))"
  using assms
proof (induction gs arbitrary: n d a)
  case (Cons g gs)
  let ?f = "consume_group C opt produced locks oh anchor view pov skip"
  let ?d = "removed_notes view d (serials g)"
  let ?a = "a + of_nat (notes_value view (serials g))"
  have a: "unat a + (length (serials g) + length (group_serials gs)) * 10 ^ 13 < 2 ^ 64"
    using Cons.prems(2) by simp
  then have a1: "unat a + length (serials g) * 10 ^ 13 < 2 ^ 64" by (simp add: add_mult_distrib)
  have g: "serials g \<noteq> []" using Cons.prems(3) by simp
  note step = consume_group_iff [OF Cons.prems(1) a1 g]
  have d: "pool_add ?d = []" using Cons.prems(1) by simp
  have gs: "\<forall>g \<in> set gs. serials g \<noteq> []" using Cons.prems(3) by simp
  note IH = Cons.IH [OF d unat_add_notes_value(2) [OF a] gs]
  have sum: "?a + of_nat (notes_value view (group_serials gs)) =
      a + of_nat (notes_value view (group_serials (g # gs)))" by (simp add: ac_simps)
  have rest: "(\<forall>sn \<in> set (group_serials gs). hm_get (pool_remove ?d) sn = None \<and> view sn \<noteq> None) \<longleftrightarrow>
      set (serials g) \<inter> set (group_serials gs) = {} \<and>
      (\<forall>sn \<in> set (group_serials gs). hm_get (pool_remove d) sn = None \<and> view sn \<noteq> None)"
    by (auto simp: removed_notes_get split: if_splits)
  have "fold_result ?f (d, a) (enumerate n (g # gs)) = Inr r \<longleftrightarrow>
      (\<exists>s. ?f (d, a) (n, g) = Inr s \<and> fold_result ?f s (enumerate (Suc n) gs) = Inr r)"
    by (simp add: bindR_eq_Inr)
  also have "\<dots> \<longleftrightarrow> ?f (d, a) (n, g) = Inr (?d, ?a) \<and>
      fold_result ?f (?d, ?a) (enumerate (Suc n) gs) = Inr r"
    unfolding step by blast
  finally show ?case unfolding step IH rest sum by auto
qed auto

lemma consume_groups_no_panic:
  assumes "pool_add d = []" and "unat a + length (group_serials gs) * 10 ^ 13 < 2 ^ 64"
    and "\<forall>g \<in> set gs. serials g \<noteq> [] \<and> signature_from_slice C (signature g) \<noteq> None"
  shows "fold_result (consume_group C opt produced locks oh anchor view pov skip) (d, a) (enumerate n gs)
      \<noteq> Inl Panic"
  using assms
proof (induction gs arbitrary: n d a)
  case (Cons g gs)
  let ?f = "consume_group C opt produced locks oh anchor view pov skip"
  have a: "unat a + (length (serials g) + length (group_serials gs)) * 10 ^ 13 < 2 ^ 64"
    using Cons.prems(2) by simp
  then have a1: "unat a + length (serials g) * 10 ^ 13 < 2 ^ 64" by (simp add: add_mult_distrib)
  have g: "serials g \<noteq> []" using Cons.prems(3) by simp
  have "?f (d, a) (n, g) \<noteq> Inl Panic"
  proof (cases "fold_result (consume_serial view pov skip n) (None, d, a) (serials g)")
    case (Inl e)
    then show ?thesis
      using consume_serials_no_panic [OF Cons.prems(1) a1, of view pov skip n None]
      by (simp add: consume_group_def)
  next
    case (Inr r)
    then have "r = (group_key view pov skip None (serials g), removed_notes view d (serials g),
        a + of_nat (notes_value view (serials g)))"
      unfolding consume_serials_iff [OF Cons.prems(1) a1] by blast
    moreover have "check_group_signature C n g (group_key view pov False None (serials g)) msg \<noteq> Inl Panic" for msg
      using Cons.prems(3) g by (intro check_group_signature_no_panic group_key_not_None) simp_all
    ultimately show ?thesis
      using Inr by (cases skip) (simp_all add: consume_group_def bindR_eq_Inl)
  qed
  moreover have "fold_result ?f s (enumerate (Suc n) gs) \<noteq> Inl Panic"
    if "?f (d, a) (n, g) = Inr s" for s
    using that Cons.IH [OF _ unat_add_notes_value(2) [OF a], of "removed_notes view d (serials g)"]
      Cons.prems(1,3)
    unfolding consume_group_iff [OF Cons.prems(1) a1 g] by simp
  ultimately show ?case by (auto simp: bindR_eq_Inl)
qed simp

section \<open>Lemmas: the producing loop\<close>

definition added_notes :: "PoolDiff \<Rightarrow> (hash \<times> PoolEntry) list \<Rightarrow> PoolDiff" where
  "added_notes d xs = foldl (\<lambda>d (sn, e). d\<lparr>pool_add := hm_insert sn e (pool_add d)\<rparr>) d xs"

definition serials_from :: "PoolCrypto \<Rightarrow> hash \<Rightarrow> nat \<Rightarrow> nat \<Rightarrow> hash list" where
  "serials_from C txid n m = map (\<lambda>i. serial_hash C txid (of_nat i)) [n..<n + m]"

lemma serials_from_Suc [simp]:
  "serials_from C txid n 0 = []"
  "serials_from C txid n (Suc m) = serial_hash C txid (of_nat n) # serials_from C txid (Suc n) m"
  by (simp_all add: serials_from_def upt_conv_Cons del: upt_Suc)

lemma length_serials_from [simp]: "length (serials_from C txid n m) = m"
  by (simp add: serials_from_def)

lemma added_notes_simps [simp]:
  "added_notes d [] = d"
  "added_notes d ((sn, e) # xs) = added_notes (d\<lparr>pool_add := hm_insert sn e (pool_add d)\<rparr>) xs"
  by (simp_all add: added_notes_def)

lemma pool_remove_added_notes [simp]: "pool_remove (added_notes d xs) = pool_remove d"
  unfolding added_notes_def by (rule foldl_invariant) (auto split: prod.splits)

lemma added_notes_wf: "hm_wf (pool_add d) \<Longrightarrow> hm_wf (pool_add (added_notes d xs))"
  unfolding added_notes_def by (rule foldl_invariant) (auto split: prod.splits)

lemma added_notes_get:
  "distinct (map fst xs) \<Longrightarrow> hm_get (pool_add (added_notes d xs)) sn =
    (case map_of xs sn of Some e \<Rightarrow> Some e | None \<Rightarrow> hm_get (pool_add d) sn)"
proof (induction xs arbitrary: d)
  case (Cons x xs)
  obtain k e where x: "x = (k, e)" by fastforce
  have "sn = k \<Longrightarrow> map_of xs sn = None" using Cons.prems by (auto simp: x map_of_eq_None_iff)
  then show ?case using Cons by (auto simp: x split: option.splits)
qed simp

lemma entries_value_simps [simp]:
  "entries_value [] = 0" "entries_value (e # es) = unat (petals (entry_d e)) + entries_value es"
  by (simp_all add: entries_value_def)

lemma entries_value_bound: "entries_value es \<le> length es * 10 ^ 13"
  by (induction es) (use petals_bounds(2) in \<open>auto simp: add_mono\<close>)

lemma produce_entry_eq:
  assumes "\<forall>sn. hm_get (pool_remove (vop_diff v)) sn \<noteq> None \<longrightarrow> view sn \<noteq> None"
    and "unat (produced_petals v) + 10 ^ 13 < 2 ^ 64"
  shows "produce_entry C txid view v (n, e) =
    (let sn = serial_hash C txid (of_nat n) in
     if view sn \<noteq> None then Inl (Err (SerialAlreadyExists sn))
     else if hm_get (pool_add (vop_diff v)) sn \<noteq> None then Inl (Err (Algebra (DuplicateAdd sn)))
     else Inr (v\<lparr>vop_diff := (vop_diff v)\<lparr>pool_add := hm_insert sn e (pool_add (vop_diff v))\<rparr>,
                produced_petals := produced_petals v + petals (entry_d e)\<rparr>))"
proof -
  have "(padd (produced_petals v) (petals (entry_d e)) :: u64 pool_result) =
      Inr (produced_petals v + petals (entry_d e))"
    using assms(2) petals_bounds(2) [of "entry_d e"] by (intro padd_ok) simp
  moreover have "hm_get (pool_remove (vop_diff v)) sn = None" if "view sn = None" for sn
    using assms(1) that by blast
  ultimately show ?thesis
    by (simp add: produce_entry_def Let_def check_produced_serial_is_fresh_def add_note_def)
qed

lemma produce_entries_iff:
  assumes "\<forall>sn. hm_get (pool_remove (vop_diff v)) sn \<noteq> None \<longrightarrow> view sn \<noteq> None"
    and "unat (produced_petals v) + length es * 10 ^ 13 < 2 ^ 64"
  shows "fold_result (produce_entry C txid view) v (enumerate n es) = Inr v' \<longleftrightarrow>
      distinct (serials_from C txid n (length es)) \<and>
      (\<forall>sn \<in> set (serials_from C txid n (length es)).
        hm_get (pool_add (vop_diff v)) sn = None \<and> view sn = None) \<and>
      v' = v\<lparr>vop_diff := added_notes (vop_diff v) (zip (serials_from C txid n (length es)) es),
             produced_petals := produced_petals v + of_nat (entries_value es)\<rparr>"
    and "fold_result (produce_entry C txid view) v (enumerate n es) \<noteq> Inl Panic"
proof -
  have "(fold_result (produce_entry C txid view) v (enumerate n es) = Inr v' \<longleftrightarrow>
      distinct (serials_from C txid n (length es)) \<and>
      (\<forall>sn \<in> set (serials_from C txid n (length es)).
        hm_get (pool_add (vop_diff v)) sn = None \<and> view sn = None) \<and>
      v' = v\<lparr>vop_diff := added_notes (vop_diff v) (zip (serials_from C txid n (length es)) es),
             produced_petals := produced_petals v + of_nat (entries_value es)\<rparr>) \<and>
      fold_result (produce_entry C txid view) v (enumerate n es) \<noteq> Inl Panic"
    using assms
  proof (induction es arbitrary: n v)
    case (Cons e es)
    let ?sn = "serial_hash C txid (of_nat n)"
    let ?v = "v\<lparr>vop_diff := (vop_diff v)\<lparr>pool_add := hm_insert ?sn e (pool_add (vop_diff v))\<rparr>,
                produced_petals := produced_petals v + petals (entry_d e)\<rparr>"
    have p: "unat (produced_petals v) + 10 ^ 13 < 2 ^ 64" using Cons.prems(2) by simp
    have "unat (produced_petals ?v) = unat (produced_petals v) + unat (petals (entry_d e))"
      using p petals_bounds(2) [of "entry_d e"] by (simp add: unat_add_no_overflow)
    then have "unat (produced_petals ?v) + length es * 10 ^ 13 < 2 ^ 64"
      using Cons.prems(2) petals_bounds(2) [of "entry_d e"] by simp
    note IH = Cons.IH [of ?v "Suc n", OF _ this]
    have r: "\<forall>sn. hm_get (pool_remove (vop_diff ?v)) sn \<noteq> None \<longrightarrow> view sn \<noteq> None"
      using Cons.prems(1) by simp
    show ?case
    proof (cases "view ?sn \<noteq> None \<or> hm_get (pool_add (vop_diff v)) ?sn \<noteq> None")
      case True
      then show ?thesis by (auto simp: produce_entry_eq [OF Cons.prems(1) p] Let_def)
    next
      case False
      then have "fold_result (produce_entry C txid view) v (enumerate n (e # es)) =
          fold_result (produce_entry C txid view) ?v (enumerate (Suc n) es)"
        by (simp add: produce_entry_eq [OF Cons.prems(1) p])
      then show ?thesis using IH [OF r] False by (auto simp: ac_simps split: if_splits)
    qed
  qed auto
  then show "fold_result (produce_entry C txid view) v (enumerate n es) = Inr v' \<longleftrightarrow>
      distinct (serials_from C txid n (length es)) \<and>
      (\<forall>sn \<in> set (serials_from C txid n (length es)).
        hm_get (pool_add (vop_diff v)) sn = None \<and> view sn = None) \<and>
      v' = v\<lparr>vop_diff := added_notes (vop_diff v) (zip (serials_from C txid n (length es)) es),
             produced_petals := produced_petals v + of_nat (entries_value es)\<rparr>"
    and "fold_result (produce_entry C txid view) v (enumerate n es) \<noteq> Inl Panic" by blast+
qed

section \<open>Lemmas: stateless validity\<close>

lemma check_locks_ascending:
  assumes "fold_result (check_lock n) prev ls = Inr r"
  shows "(\<forall>l \<in> set ls. unat (lock_index l) < n) \<and> sorted_wrt (<) (map lock_index ls) \<and>
    (\<forall>p l. prev = Some p \<longrightarrow> l \<in> set ls \<longrightarrow> p < lock_index l)"
  using assms
proof (induction ls arbitrary: prev)
  case (Cons l ls)
  then obtain q where "check_lock n prev l = Inr q" "fold_result (check_lock n) q ls = Inr r"
    by (auto simp: bindR_eq_Inr)
  then have l: "unat (lock_index l) < n" "\<And>p. prev = Some p \<Longrightarrow> p < lock_index l"
    and rest: "fold_result (check_lock n) (Some (lock_index l)) ls = Inr r"
    by (auto simp: check_lock_def not_le split: if_splits option.splits)
  from Cons.IH [OF rest] l show ?case by (auto dest: less_trans)
qed simp

lemma validate_locks_Inr:
  assumes "validate_locks ls n = Inr ()"
  shows "\<forall>l \<in> set ls. unat (lock_index l) < n" and "distinct (map lock_index ls)"
proof -
  obtain r where "fold_result (check_lock n) None ls = Inr r"
    using assms by (auto simp: validate_locks_def bindR_eq_Inr)
  then show "\<forall>l \<in> set ls. unat (lock_index l) < n" "distinct (map lock_index ls)"
    using check_locks_ascending strict_sorted_iff by blast+
qed

lemma check_groups_Inr:
  "fold_result check_group seen (enumerate n gs) = Inr seen' \<longleftrightarrow>
    (\<forall>g \<in> set gs. serials g \<noteq> []) \<and> distinct (group_serials gs) \<and> set (group_serials gs) \<inter> seen = {} \<and>
    seen' = seen \<union> set (group_serials gs)"
proof (induction gs arbitrary: n seen)
  case (Cons g gs)
  have "fold_result check_group seen (enumerate n (g # gs)) = Inr seen' \<longleftrightarrow>
      serials g \<noteq> [] \<and> first_dup seen (serials g) = None \<and>
      fold_result check_group (seen \<union> set (serials g)) (enumerate (Suc n) gs) = Inr seen'"
    by (simp add: check_group_def split: option.split)
  then show ?case unfolding Cons.IH first_dup_None by auto
qed auto

lemma validate_consumed_groups_Inr:
  "validate_consumed_groups gs = Inr () \<longleftrightarrow>
    length (group_serials gs) \<le> MAX_POOL_OP_COLLECTION_LEN \<and> (\<forall>g \<in> set gs. serials g \<noteq> []) \<and>
    distinct (group_serials gs)"
proof -
  have "length (group_serials gs) = sum_list (map (\<lambda>g. length (serials g)) gs)"
    by (simp add: group_serials_def length_concat comp_def)
  then show ?thesis
    by (auto simp: validate_consumed_groups_def Let_def bindR_eq_Inr check_groups_Inr not_less)
qed

text \<open>Everything stateless validation guarantees.\<close>

definition op_well_formed :: "PoolOp \<Rightarrow> bool" where
  "op_well_formed op \<longleftrightarrow>
     length (consumed_serials op) \<le> 1000 \<and> length (op_produced op) \<le> 1000 \<and>
     distinct (consumed_serials op) \<and> (\<forall>g \<in> set (op_groups op). serials g \<noteq> []) \<and>
     (\<forall>l \<in> set (op_locks op). unat (lock_index l) < length (op_produced op)) \<and>
     distinct (map lock_index (op_locks op)) \<and>
     (op_groups op = [] \<longrightarrow> (\<exists>m. op = Mint m \<and> new_notes m \<noteq> []))"

lemma consumed_serials_groups: "consumed_serials op = group_serials (op_groups op)"
  by (cases op) simp_all

lemma validate_stateless_well_formed:
  assumes "validate_stateless op = Inr ()"
  shows "op_well_formed op"
proof (cases op)
  case (TransferLocked tr)
  then have "validate_locks (tl_locks tr) (length (tl_produced tr)) = Inr ()"
    "validate_consumed_groups (tl_consumed tr) = Inr ()"
    "tl_consumed tr \<noteq> []" "length (tl_produced tr) \<le> 1000"
    using assms
    by (auto simp: validate_transfer_locked_def bindR_eq_Inr MAX_POOL_OP_COLLECTION_LEN_def split: if_splits)
  then show ?thesis
    using validate_locks_Inr [of "tl_locks tr"]
    by (auto simp: TransferLocked op_well_formed_def validate_consumed_groups_Inr MAX_POOL_OP_COLLECTION_LEN_def)
qed (use assms in \<open>auto simp: op_well_formed_def validate_mint_def validate_transfer_def validate_redeem_def
  validate_consumed_groups_Inr MAX_POOL_OP_COLLECTION_LEN_def split: if_splits\<close>)

lemma join_locks:
  assumes "\<forall>l \<in> set ls. unat (lock_index l) < length es"
  shows "fold_result join_lock es ls = Inr (foldl set_entry_lock es ls)"
  using assms
proof (induction ls arbitrary: es)
  case (Cons l ls)
  then have "join_lock es l = Inr (set_entry_lock es l)"
    by (simp add: join_lock_def set_entry_lock_def Let_def)
  with Cons show ?case by simp
qed simp

lemma op_entries_alt: "op_entries op = foldl set_entry_lock (map unlocked (op_produced op)) (op_locks op)"
  by (cases op) (simp_all add: produced_entries_def)

lemma length_op_entries [simp]: "length (op_entries op) = length (op_produced op)"
  by (simp add: op_entries_alt)

section \<open>The rule of acceptance\<close>

definition anchor_fresh :: "u64 \<Rightarrow> u64 \<Rightarrow> bool" where
  "anchor_fresh anchor pov \<longleftrightarrow> unat anchor \<le> unat pov \<and> unat pov \<le> unat anchor + 36000"

lemma check_freshness_iff:
  "check_freshness f pov = Inr u \<longleftrightarrow> anchor_fresh (anchor_daa_score f) pov"
  "check_freshness f pov \<noteq> Inl Panic"
proof -
  have "unat (pov - anchor_daa_score f) = unat pov - unat (anchor_daa_score f)"
    if "anchor_daa_score f \<le> pov" using that by (rule unat_sub)
  then show "check_freshness f pov = Inr u \<longleftrightarrow> anchor_fresh (anchor_daa_score f) pov"
    by (auto simp: check_freshness_def anchor_fresh_def Let_def psub_def word_less_nat_alt
        word_le_nat_alt POOL_FRESHNESS_WINDOW_def checked_sub_def unwrap_def)
  show "check_freshness f pov \<noteq> Inl Panic"
    by (auto simp: check_freshness_def Let_def psub_def checked_sub_def unwrap_def not_less)
qed

text \<open>The message the groups of an operation sign.\<close>

definition op_message :: "PoolCrypto \<Rightarrow> PoolOp \<Rightarrow> TransactionOutput list \<Rightarrow> hash list \<Rightarrow> hash" where
  "op_message C op outs sns =
     signing_hash_with_locks C (op_type op) sns (op_produced op) (op_locks op)
       (transparent_outputs_hash C outs) (the (op_anchor op))"

definition op_acceptable ::
    "PoolCrypto \<Rightarrow> PoolOp \<Rightarrow> hash \<Rightarrow> TransactionOutput list \<Rightarrow> pool_view \<Rightarrow> u64 \<Rightarrow> bool \<Rightarrow> bool \<Rightarrow> bool" where
  "op_acceptable C op txid outs view pov skip locks_active \<longleftrightarrow>
     (locks_active \<or> op_type op \<noteq> 3) \<and>
     (skip \<or> (\<forall>a. op_anchor op = Some a \<longrightarrow> anchor_fresh a pov) \<and>
             (\<forall>g \<in> set (op_groups op). group_signed C view pov (op_message C op outs) g)) \<and>
     (\<forall>sn \<in> set (consumed_serials op). view sn \<noteq> None) \<and>
     distinct (produced_serials C txid op) \<and>
     (\<forall>sn \<in> set (produced_serials C txid op). view sn = None) \<and>
     (op_type op = 1 \<or> op_type op = 3 \<longrightarrow>
        entries_value (op_entries op) \<le> notes_value view (consumed_serials op))"

definition op_result :: "PoolCrypto \<Rightarrow> PoolOp \<Rightarrow> hash \<Rightarrow> pool_view \<Rightarrow> ValidatedPoolOp" where
  "op_result C op txid view =
     \<lparr>vop_diff = added_notes (removed_notes view PoolDiff_default (consumed_serials op))
        (zip (produced_serials C txid op) (op_entries op)),
      consumed_petals = of_nat (notes_value view (consumed_serials op)),
      produced_petals = of_nat (entries_value (op_entries op))\<rparr>"

lemma thousand_fits: "n \<le> 1000 \<Longrightarrow> unat (0 :: u64) + n * 10 ^ 13 < 2 ^ 64"
  by simp

lemma unat_of_nat_bounded: "n \<le> 1000 * 10 ^ 13 \<Longrightarrow> unat (of_nat n :: u64) = n"
  by (simp add: unat_of_nat)

lemma unat_of_nat_values:
  "length sns \<le> 1000 \<Longrightarrow> unat (of_nat (notes_value view sns) :: u64) = notes_value view sns"
  "length es \<le> 1000 \<Longrightarrow> unat (of_nat (entries_value es) :: u64) = entries_value es"
proof -
  show "unat (of_nat (notes_value view sns) :: u64) = notes_value view sns" if "length sns \<le> 1000"
    using notes_value_bound [of view sns] that by (intro unat_of_nat_bounded) simp
  show "unat (of_nat (entries_value es) :: u64) = entries_value es" if "length es \<le> 1000"
    using entries_value_bound [of es] that by (intro unat_of_nat_bounded) simp
qed

lemma consumed_stateful_iff:
  assumes "length (group_serials gs) \<le> 1000" and "\<forall>g \<in> set gs. serials g \<noteq> []"
    and "distinct (group_serials gs)"
  shows "validate_consumed_groups_stateful C gs opt produced locks oh anchor view pov skip PoolDiff_default
      = Inr r \<longleftrightarrow>
    (\<forall>sn \<in> set (group_serials gs). view sn \<noteq> None) \<and>
    (\<not> skip \<longrightarrow> (\<forall>g \<in> set gs. group_signed C view pov
       (\<lambda>sns. signing_hash_with_locks C opt sns produced locks oh anchor) g)) \<and>
    r = (removed_notes view PoolDiff_default (group_serials gs), of_nat (notes_value view (group_serials gs)))"
  unfolding validate_consumed_groups_stateful_def
  using assms consume_groups_iff [of PoolDiff_default 0 gs, OF _ thousand_fits [OF assms(1)] assms(2)]
  by (auto simp: PoolDiff_default_def)

lemma transfer_stateful_iff:
  fixes C :: PoolCrypto and txid :: hash and produced :: "NewNote list"
  defines "sns \<equiv> serials_from C txid 0 (length produced)"
    and "es locks \<equiv> foldl set_entry_lock (map unlocked produced) locks"
  assumes "length (group_serials gs) \<le> 1000" and "\<forall>g \<in> set gs. serials g \<noteq> []"
    and "distinct (group_serials gs)" and len: "length produced \<le> 1000"
    and locks: "\<forall>l \<in> set locks. unat (lock_index l) < length produced"
  shows "validate_transfer_stateful C gs produced locks freshness opt txid outs view pov skip = Inr v \<longleftrightarrow>
    (skip \<or> anchor_fresh (anchor_daa_score freshness) pov \<and>
       (\<forall>g \<in> set gs. group_signed C view pov (\<lambda>sns. signing_hash_with_locks C opt sns produced locks
          (transparent_outputs_hash C outs) (anchor_daa_score freshness)) g)) \<and>
    (\<forall>sn \<in> set (group_serials gs). view sn \<noteq> None) \<and>
    distinct sns \<and> (\<forall>sn \<in> set sns. view sn = None) \<and>
    entries_value (es locks) \<le> notes_value view (group_serials gs) \<and>
    v = \<lparr>vop_diff = added_notes (removed_notes view PoolDiff_default (group_serials gs)) (zip sns (es locks)),
         consumed_petals = of_nat (notes_value view (group_serials gs)),
         produced_petals = of_nat (entries_value (es locks))\<rparr>"
proof -
  let ?d = "removed_notes view PoolDiff_default (group_serials gs)"
  let ?n = "of_nat (notes_value view (group_serials gs)) :: u64"
  let ?v0 = "\<lparr>vop_diff = ?d, consumed_petals = ?n, produced_petals = 0\<rparr>"
  have join: "fold_result join_lock (map unlocked produced) locks = Inr (es locks)"
    unfolding es_def using locks by (intro join_locks) simp
  have len_es: "length (es locks) = length produced" by (simp add: es_def)
  have loop: "fold_result (produce_entry C txid view) ?v0 (enumerate 0 (es locks)) = Inr v' \<longleftrightarrow>
      distinct sns \<and> (\<forall>sn \<in> set sns. view sn = None) \<and>
      v' = \<lparr>vop_diff = added_notes ?d (zip sns (es locks)), consumed_petals = ?n,
            produced_petals = of_nat (entries_value (es locks))\<rparr>"
    if "\<forall>sn \<in> set (group_serials gs). view sn \<noteq> None" for v'
    using that thousand_fits [OF len]
    by (subst produce_entries_iff(1))
       (auto simp: sns_def len_es removed_notes_get PoolDiff_default_def split: if_splits)
  have less: "?n < of_nat (entries_value (es locks)) \<longleftrightarrow>
      \<not> entries_value (es locks) \<le> notes_value view (group_serials gs)"
    using unat_of_nat_values(1) [OF assms(3)] unat_of_nat_values(2) [of "es locks"] len
    by (simp add: word_less_nat_alt len_es not_le)
  have main: "validate_transfer_stateful C gs produced locks freshness opt txid outs view pov skip = Inr v \<longleftrightarrow>
      (skip \<or> anchor_fresh (anchor_daa_score freshness) pov) \<and>
      (\<forall>sn \<in> set (group_serials gs). view sn \<noteq> None) \<and>
      (\<not> skip \<longrightarrow> (\<forall>g \<in> set gs. group_signed C view pov (\<lambda>sns. signing_hash_with_locks C opt sns produced
          locks (transparent_outputs_hash C outs) (anchor_daa_score freshness)) g)) \<and>
      (\<exists>v'. fold_result (produce_entry C txid view) ?v0 (enumerate 0 (es locks)) = Inr v' \<and>
         \<not> ?n < produced_petals v' \<and> v = v')"
    unfolding validate_transfer_stateful_def Let_def bindR_eq_Inr
    by (auto simp: consumed_stateful_iff [OF assms(3-5)] check_freshness_iff join bindR_eq_Inr
        split: if_splits)
  show ?thesis
  proof (cases "\<forall>sn \<in> set (group_serials gs). view sn \<noteq> None")
    case True
    have "(\<exists>v'. fold_result (produce_entry C txid view) ?v0 (enumerate 0 (es locks)) = Inr v' \<and>
         \<not> ?n < produced_petals v' \<and> v = v') \<longleftrightarrow>
      distinct sns \<and> (\<forall>sn \<in> set sns. view sn = None) \<and>
      entries_value (es locks) \<le> notes_value view (group_serials gs) \<and>
      v = \<lparr>vop_diff = added_notes ?d (zip sns (es locks)), consumed_petals = ?n,
           produced_petals = of_nat (entries_value (es locks))\<rparr>"
      unfolding loop [OF True] using less by (metis ValidatedPoolOp.select_convs(3))
    with True show ?thesis unfolding main by blast
  next
    case False
    then show ?thesis unfolding main by blast
  qed
qed

lemma produced_serials_alt: "produced_serials C txid op = serials_from C txid 0 (length (op_produced op))"
  by (simp add: produced_serials_def serials_from_def)

lemma mint_stateful_iff:
  assumes "length (new_notes m) \<le> 1000"
  shows "validate_mint_stateful C m txid view = Inr v \<longleftrightarrow>
    distinct (serials_from C txid 0 (length (new_notes m))) \<and>
    (\<forall>sn \<in> set (serials_from C txid 0 (length (new_notes m))). view sn = None) \<and>
    v = \<lparr>vop_diff = added_notes PoolDiff_default
           (zip (serials_from C txid 0 (length (new_notes m))) (map unlocked (new_notes m))),
         consumed_petals = 0, produced_petals = of_nat (entries_value (map unlocked (new_notes m)))\<rparr>"
  unfolding validate_mint_stateful_def
  by (subst produce_entries_iff(1))
     (use assms thousand_fits [OF assms] in \<open>auto simp: ValidatedPoolOp_default_def PoolDiff_default_def\<close>)

lemma validate_stateful_iff:
  assumes "op_well_formed op"
  shows "validate_stateful C op txid outs view pov skip locks_active = Inr v \<longleftrightarrow>
    op_acceptable C op txid outs view pov skip locks_active \<and> v = op_result C op txid view"
proof (cases op)
  case (Mint m)
  then have "length (new_notes m) \<le> 1000" using assms by (simp add: op_well_formed_def)
  from mint_stateful_iff [OF this] show ?thesis
    by (simp add: Mint op_acceptable_def op_result_def produced_serials_alt)
next
  case (Transfer tr)
  then have wf: "length (group_serials (t_consumed tr)) \<le> 1000" "\<forall>g \<in> set (t_consumed tr). serials g \<noteq> []"
    "distinct (group_serials (t_consumed tr))" "length (t_produced tr) \<le> 1000"
    using assms by (simp_all add: op_well_formed_def)
  show ?thesis
    unfolding Transfer validate_stateful.simps
    by (subst transfer_stateful_iff [OF wf])
       (auto simp: op_acceptable_def op_result_def produced_serials_alt op_message_def [abs_def])
next
  case (Redeem r)
  then have wf: "length (group_serials (r_consumed r)) \<le> 1000" "\<forall>g \<in> set (r_consumed r). serials g \<noteq> []"
    "distinct (group_serials (r_consumed r))"
    using assms by (simp_all add: op_well_formed_def)
  have "validate_stateful C op txid outs view pov skip locks_active = Inr v \<longleftrightarrow>
      (skip \<or> anchor_fresh (anchor_daa_score (r_freshness r)) pov) \<and>
      (\<exists>x. validate_consumed_groups_stateful C (r_consumed r) 2 [] [] (transparent_outputs_hash C outs)
         (anchor_daa_score (r_freshness r)) view pov skip PoolDiff_default = Inr x \<and>
       v = \<lparr>vop_diff = fst x, consumed_petals = snd x, produced_petals = 0\<rparr>)"
    by (auto simp: Redeem validate_redeem_stateful_def bindR_eq_Inr check_freshness_iff Let_def
        split: if_splits)
  then show ?thesis
    unfolding consumed_stateful_iff [OF wf]
    by (auto simp: Redeem op_acceptable_def op_result_def produced_serials_alt op_message_def [abs_def])
next
  case (TransferLocked tr)
  then have wf: "length (group_serials (tl_consumed tr)) \<le> 1000" "\<forall>g \<in> set (tl_consumed tr). serials g \<noteq> []"
    "distinct (group_serials (tl_consumed tr))" "length (tl_produced tr) \<le> 1000"
    "\<forall>l \<in> set (tl_locks tr). unat (lock_index l) < length (tl_produced tr)"
    using assms by (simp_all add: op_well_formed_def)
  show ?thesis
    unfolding TransferLocked validate_stateful.simps
    using transfer_stateful_iff [OF wf]
    by (auto simp: op_acceptable_def op_result_def produced_serials_alt op_message_def [abs_def] produced_entries_def)
qed

lemma validate_stateful_no_panic_lemma:
  assumes wf: "op_well_formed op"
    and sigs: "\<forall>g \<in> set (op_groups op). signature_from_slice C (signature g) \<noteq> None"
  shows "validate_stateful C op txid outs view pov skip locks_active \<noteq> Inl Panic"
proof -
  have consume: "validate_consumed_groups_stateful C (op_groups op) opt produced locks oh anchor view pov
      skip PoolDiff_default \<noteq> Inl Panic" for opt produced locks oh anchor
    unfolding validate_consumed_groups_stateful_def
    using wf sigs
    by (intro consume_groups_no_panic)
       (auto simp: PoolDiff_default_def op_well_formed_def consumed_serials_groups)
  have consume_get: "hm_get (pool_remove (fst x)) sn \<noteq> None \<longrightarrow> view sn \<noteq> None"
    if "validate_consumed_groups_stateful C (op_groups op) opt produced locks oh anchor view pov
      skip PoolDiff_default = Inr x" for opt produced locks oh anchor x sn
    using that wf
    by (subst (asm) consumed_stateful_iff)
       (auto simp: op_well_formed_def consumed_serials_groups removed_notes_get PoolDiff_default_def
         split: if_splits)
  have produce: "fold_result (produce_entry C txid view) v (enumerate 0 es) \<noteq> Inl Panic"
    if "\<forall>sn. hm_get (pool_remove (vop_diff v)) sn \<noteq> None \<longrightarrow> view sn \<noteq> None"
      "produced_petals v = 0" "length es \<le> 1000" for v es
    using that thousand_fits [OF that(3)] by (intro produce_entries_iff(2)) simp_all
  have transfer: "validate_transfer_stateful C (op_groups op) (op_produced op) (op_locks op) freshness opt
      txid outs view pov skip \<noteq> Inl Panic" for freshness opt
  proof -
    have join: "fold_result join_lock (map unlocked (op_produced op)) (op_locks op) = Inr (op_entries op)"
      unfolding op_entries_alt using wf by (intro join_locks) (simp add: op_well_formed_def)
    have len: "length (op_entries op) \<le> 1000" using wf by (simp add: op_well_formed_def)
    show ?thesis
      using consume consume_get len
      by (auto simp: validate_transfer_stateful_def Let_def bindR_eq_Inl check_freshness_iff(2) join
          split: if_splits dest!: produce [rotated 2, THEN notE, rotated -1])
  qed
  show ?thesis
  proof (cases op)
    case (Mint m)
    then have "length (new_notes m) \<le> 1000" using wf by (simp add: op_well_formed_def)
    then show ?thesis
      using produce [of ValidatedPoolOp_default "map unlocked (new_notes m)"]
      by (simp add: Mint validate_mint_stateful_def ValidatedPoolOp_default_def PoolDiff_default_def)
  next
    case (Redeem r)
    then show ?thesis
      using consume by (auto simp: validate_redeem_stateful_def Let_def bindR_eq_Inl check_freshness_iff(2)
          split: if_splits)
  qed (use transfer in auto)
qed

section \<open>The effect of an accepted operation\<close>

definition created_notes :: "PoolCrypto \<Rightarrow> hash \<Rightarrow> PoolOp \<Rightarrow> (hash \<times> PoolEntry) list" where
  "created_notes C txid op = zip (produced_serials C txid op) (op_entries op)"

definition pool_value :: "pool_view \<Rightarrow> nat" where
  "pool_value = total_value (\<lambda>e. unat (petals (entry_d e)))"

lemma map_fst_created_notes: "map fst (created_notes C txid op) = produced_serials C txid op"
  by (simp add: created_notes_def produced_serials_alt)

lemma map_snd_created_notes: "map snd (created_notes C txid op) = op_entries op"
  by (simp add: created_notes_def produced_serials_alt)

lemma op_result_diff:
  assumes "op_acceptable C op txid outs view pov skip locks_active"
  defines "d \<equiv> vop_diff (op_result C op txid view)"
  shows "pool_diff_wf d" and "pool_diff_fits d view"
    and "pool_compose view d =
      (view |` (- set (consumed_serials op))) ++ map_of (created_notes C txid op)"
proof -
  have d: "d = added_notes (removed_notes view PoolDiff_default (consumed_serials op)) (created_notes C txid op)"
    by (simp add: d_def op_result_def created_notes_def)
  have dist: "distinct (map fst (created_notes C txid op))"
    using assms(1) by (simp add: op_acceptable_def map_fst_created_notes)
  have exist: "view sn \<noteq> None" if "sn \<in> set (consumed_serials op)" for sn
    using assms(1) that by (simp add: op_acceptable_def)
  have fresh: "view sn = None" if "map_of (created_notes C txid op) sn = Some e" for sn e
  proof -
    have "sn \<in> set (map fst (created_notes C txid op))" using map_of_SomeD [OF that] by force
    then show ?thesis using assms(1) by (simp add: op_acceptable_def map_fst_created_notes)
  qed
  have add: "hm_get (pool_add d) sn = map_of (created_notes C txid op) sn" for sn
    by (simp add: d added_notes_get [OF dist] PoolDiff_default_def split: option.split)
  have rem: "hm_get (pool_remove d) sn = (if sn \<in> set (consumed_serials op) then view sn else None)" for sn
    using exist [of sn] by (auto simp: d removed_notes_get PoolDiff_default_def)
  show "pool_diff_wf d"
    by (simp add: pool_diff_wf_def d added_notes_wf removed_notes_wf PoolDiff_default_def)
  show "pool_diff_fits d view"
    using fresh by (auto simp: pool_diff_fits_def add rem split: if_splits)
  show "pool_compose view d =
      (view |` (- set (consumed_serials op))) ++ map_of (created_notes C txid op)"
    using exist by (auto simp: pool_compose_def add rem map_add_def restrict_map_def fun_eq_iff
        split: option.split)
qed

lemma op_result_petals:
  assumes "op_well_formed op"
  shows "unat (consumed_petals (op_result C op txid view)) = notes_value view (consumed_serials op)"
    and "unat (produced_petals (op_result C op txid view)) = entries_value (op_entries op)"
  using assms unat_of_nat_values by (simp_all add: op_result_def op_well_formed_def)

lemma op_result_value:
  assumes acc: "op_acceptable C op txid outs view pov skip locks_active" and wf: "op_well_formed op"
    and fin: "finite (dom view)"
  defines "v \<equiv> op_result C op txid view"
  shows "pool_value (pool_compose view (vop_diff v)) + unat (consumed_petals v) =
    pool_value view + unat (produced_petals v)"
proof -
  let ?w = "\<lambda>e. unat (petals (entry_d e))"
  let ?kept = "view |` (- set (consumed_serials op))"
  have "pool_value view = notes_value view (consumed_serials op) + pool_value ?kept"
  proof -
    have "note_value view sn = ?w (the (view sn))" if "sn \<in> set (consumed_serials op)" for sn
      using acc that by (auto simp: op_acceptable_def note_value_def)
    then have "notes_value view (consumed_serials op) =
        sum_list (map (\<lambda>sn. ?w (the (view sn))) (consumed_serials op))"
      by (simp add: notes_value_def cong: map_cong)
    then show ?thesis
      using total_value_restrict [OF fin, of "consumed_serials op" ?w] acc wf
      by (simp add: pool_value_def op_acceptable_def op_well_formed_def)
  qed
  moreover have "pool_value (?kept ++ map_of (created_notes C txid op)) =
      entries_value (op_entries op) + pool_value ?kept"
  proof -
    have "sum_list (map (\<lambda>(k, e). ?w e) (created_notes C txid op)) = entries_value (op_entries op)"
      unfolding entries_value_def map_snd_created_notes [of C txid op, symmetric]
      by (induction "created_notes C txid op") (simp_all add: comp_def case_prod_unfold)
    moreover have "\<forall>(sn, e) \<in> set (created_notes C txid op). ?kept sn = None"
      using acc by (auto simp: op_acceptable_def restrict_map_def created_notes_def dest: set_zip_leftD)
    moreover have "distinct (map fst (created_notes C txid op))"
      using acc by (simp add: op_acceptable_def map_fst_created_notes)
    ultimately show ?thesis
      using total_value_map_add [of ?kept "created_notes C txid op" ?w] fin
      by (simp add: pool_value_def)
  qed
  ultimately show ?thesis
    by (simp add: v_def op_result_diff(3) [OF acc] op_result_petals [OF wf])
qed

section \<open>A sample operation\<close>

text \<open>A note of ten, locked until score 50, is spent at score 120 with the refund key and turned
  into a note of one; hashers and signatures are stand-ins.\<close>

definition sample_op :: PoolOp where
  "sample_op = Transfer
     \<lparr>t_consumed = [\<lparr>serials = [[7]], signature = replicate 64 4\<rparr>],
      t_produced = [\<lparr>nn_d = D1, nn_pk = replicate 32 5\<rparr>],
      t_freshness = \<lparr>anchor_daa_score = 100\<rparr>\<rparr>"

definition sample_view :: pool_view where
  "sample_view = [[7] \<mapsto> locked \<lparr>nn_d = D10, nn_pk = replicate 32 9\<rparr>
     \<lparr>refund_pk = replicate 32 4, until_daa = 50\<rparr>]"

lemma sample_stateless: "validate_stateless sample_op = Inr ()"
  by (simp add: sample_op_def validate_transfer_def validate_consumed_groups_def
      MAX_POOL_OP_COLLECTION_LEN_def check_group_def)

lemma sample_acceptable: "op_acceptable plain_crypto sample_op [1] [] sample_view 120 False False"
  by (simp add: op_acceptable_def sample_op_def sample_view_def anchor_fresh_def group_signed_def
      group_serials_def produced_serials_def serial_hash_def sig_ok_def plain_crypto_def
      spending_pk_def notes_value_def note_value_def unat_petals entry_d_def)

lemma finite_sample_view: "finite (dom sample_view)"
  by (simp add: sample_view_def)

lemma sample_accepted:
  "validate_stateful plain_crypto sample_op [1] [] sample_view 120 False False =
     Inr (op_result plain_crypto sample_op [1] sample_view)"
  using sample_acceptable validate_stateful_iff [OF validate_stateless_well_formed [OF sample_stateless]]
  by blast

section \<open>Properties\<close>

text \<open>C1: Validation of a pool operation is exactly the rule of acceptance.  For an operation that
  passed stateless validation, \<open>validate_stateful\<close> succeeds if and only if: lock operations
  are active where used; on a first validation the anchor is at most 36000 behind the point
  of view and every group is signed, over the message of the whole operation, by the one
  key all its notes answer to; every consumed serial exists; the serials of the created
  notes are new and pairwise different; and a transfer creates no more value than it
  consumes.  The result then records precisely the consumed entries and the created notes.\<close>

theorem validate_stateful_exact:
  assumes "validate_stateless op = Inr ()"
  shows "validate_stateful C op txid outs view pov skip locks_active = Inr v \<longleftrightarrow>
    op_acceptable C op txid outs view pov skip locks_active \<and> v = op_result C op txid view"
  by (rule validate_stateful_iff [OF validate_stateless_well_formed [OF assms]])

theorem validate_stateful_exact_witness:
  "validate_stateful plain_crypto sample_op [1] [] sample_view 120 False False =
     Inr (op_result plain_crypto sample_op [1] sample_view) \<and>
   \<not> is_ok (validate_stateful plain_crypto sample_op [1] [] Map.empty 120 False False)"
proof
  show "validate_stateful plain_crypto sample_op [1] [] sample_view 120 False False =
      Inr (op_result plain_crypto sample_op [1] sample_view)"
    using sample_acceptable by (simp add: validate_stateful_exact [OF sample_stateless])
  have "\<not> op_acceptable plain_crypto sample_op [1] [] Map.empty 120 False False"
    by (simp add: op_acceptable_def sample_op_def group_serials_def)
  then show "\<not> is_ok (validate_stateful plain_crypto sample_op [1] [] Map.empty 120 False False)"
    by (simp add: is_ok_iff validate_stateful_exact [OF sample_stateless])
qed

text \<open>C26: Validation never panics: with the stateless checks passed and 64-byte signatures (the
  parameter accepts every 64-byte signature), no unwrap, index or addition of the stateful
  validation fails, whatever the pool state.\<close>

theorem validate_stateful_no_panic:
  assumes "validate_stateless op = Inr ()"
    and "\<And>s. length s = 64 \<Longrightarrow> signature_from_slice C s \<noteq> None"
    and "\<forall>g \<in> set (op_groups op). length (signature g) = 64"
  shows "validate_stateful C op txid outs view pov skip locks_active \<noteq> Inl Panic"
  using validate_stateless_well_formed [OF assms(1)] assms(2,3)
  by (intro validate_stateful_no_panic_lemma) auto

theorem validate_stateful_no_panic_witness:
  "validate_stateful plain_crypto sample_op [1] [] Map.empty 120 False False \<noteq> Inl Panic"
  by (rule validate_stateful_no_panic [OF sample_stateless])
     (simp_all add: plain_crypto_def sample_op_def)



text \<open>C6: Only the holder of the current key spends a note.  When a first validation accepts an
  operation, each group's signature verifies, over the message of the operation, under the
  key of every note it consumes: the note's own key while a lock runs or when there is no
  lock, the refund key from the lock's DAA score on.\<close>

theorem validate_stateful_authorises:
  assumes "validate_stateless op = Inr ()"
    and "validate_stateful C op txid outs view pov False locks_active = Inr v"
    and "g \<in> set (op_groups op)" and "sn \<in> set (serials g)"
  shows "\<exists>e xonly sig. view sn = Some e \<and>
    xonly_from_slice C (case entry_lock e of
        None \<Rightarrow> entry_pk e
      | Some l \<Rightarrow> if until_daa l \<le> pov then refund_pk l else entry_pk e) = Some xonly \<and>
    signature_from_slice C (signature g) = Some sig \<and>
    schnorr_verify C sig (op_message C op outs (serials g)) xonly"
proof -
  have wf: "op_well_formed op" using assms(1) by (rule validate_stateless_well_formed)
  then have acc: "op_acceptable C op txid outs view pov False locks_active"
    using assms(2) by (simp add: validate_stateful_iff)
  have "sn \<in> set (consumed_serials op)"
    using assms(3,4) by (auto simp: consumed_serials_groups group_serials_def)
  then obtain e where e: "view sn = Some e" using acc by (auto simp: op_acceptable_def)
  have "group_signed C view pov (op_message C op outs) g"
    using acc assms(3) by (simp add: op_acceptable_def)
  with e assms(4) have "sig_ok C g (spending_pk e pov) (op_message C op outs (serials g))"
    by (auto simp: group_signed_def)
  then show ?thesis
    using e by (auto simp: sig_ok_def spending_pk_def entry_pk_def split: option.splits if_splits)
qed

theorem validate_stateful_authorises_witness:
  "\<exists>sig. signature_from_slice plain_crypto (replicate 64 4) = Some sig \<and>
     schnorr_verify plain_crypto sig (op_message plain_crypto sample_op [] [[7]]) (replicate 32 4)"
proof -
  obtain e xonly sig where "sample_view [7] = Some e"
    "xonly_from_slice plain_crypto (case entry_lock e of None \<Rightarrow> entry_pk e
       | Some l \<Rightarrow> if until_daa l \<le> 120 then refund_pk l else entry_pk e) = Some xonly"
    "signature_from_slice plain_crypto (replicate 64 4) = Some sig"
    "schnorr_verify plain_crypto sig (op_message plain_crypto sample_op [] [[7]]) xonly"
    using validate_stateful_authorises [OF sample_stateless sample_accepted,
        of "\<lparr>serials = [[7]], signature = replicate 64 4\<rparr>" "[7]"]
    by (auto simp: sample_op_def)
  then show ?thesis by (auto simp: sample_view_def plain_crypto_def)
qed

text \<open>C25: Replaying the operations of the selected parent gives the same result: what a first
  validation accepted at one DAA score is accepted at every score when signatures and
  freshness are skipped, with the same diff and the same petals.\<close>

theorem validate_stateful_replay:
  assumes "validate_stateless op = Inr ()"
    and "validate_stateful C op txid outs view pov False locks_active = Inr v"
  shows "validate_stateful C op txid outs view pov' True locks_active = Inr v"
  using assms(2) unfolding validate_stateful_iff [OF validate_stateless_well_formed [OF assms(1)]]
  by (auto simp: op_acceptable_def)

theorem validate_stateful_replay_witness:
  "validate_stateful plain_crypto sample_op [1] [] sample_view 1000000 True False =
     Inr (op_result plain_crypto sample_op [1] sample_view)"
  by (rule validate_stateful_replay [OF sample_stateless sample_accepted])

end
