(* ===== verification/Tx_Rules.thy ===== *)
theory Tx_Rules
  imports Mass Covenants Pool_Validate Finality_Anchor
begin

text \<open>
  The types of transaction validation: \<open>ForkActivation\<close> of
  \<^verbatim>\<open>src/consensus/core/src/config/params.rs\<close>, the rule errors of
  \<^verbatim>\<open>src/consensus/core/src/errors/tx.rs\<close> and the validator of
  \<^verbatim>\<open>src/consensus/src/processes/transaction_validator/mod.rs\<close>.  The record \<open>TxEnv\<close> holds what the validator calls
  and these files do not define: the borsh decoders of the two payloads, the hash of a covenant
  group, the signature scheme, the script engine run on one input (the one of \<open>Script_Engine\<close> is put
  in by \<open>Tx_Scripts\<close>), the order in which the thread pool runs the inputs and the 64-bit floating-point comparison of fee rates.
\<close>

section \<open>Fork activation\<close>

type_synonym ForkActivation = u64

definition fork_never :: ForkActivation where "fork_never = - 1"
definition fork_always :: ForkActivation where "fork_always = 0"

definition is_active :: "ForkActivation \<Rightarrow> u64 \<Rightarrow> bool" where
  "is_active fork current_daa_score \<longleftrightarrow> fork \<le> current_daa_score"

definition delayed_by :: "ForkActivation \<Rightarrow> u64 \<Rightarrow> ForkActivation" where
  "delayed_by fork delta =
     (if fork = fork_always \<or> fork = fork_never then fork else saturating_add fork delta)"

definition early_by :: "ForkActivation \<Rightarrow> u64 \<Rightarrow> ForkActivation" where
  "early_by fork delta =
     (if fork = fork_always \<or> fork = fork_never then fork else saturating_sub fork delta)"

definition is_within_range_from_activation :: "ForkActivation \<Rightarrow> u64 \<Rightarrow> u64 \<Rightarrow> ('e, bool) outcome" where
  "is_within_range_from_activation fork current_daa_score rng =
     (if fork \<noteq> fork_always \<and> is_active fork current_daa_score
      then bindR (padd fork rng) (\<lambda>stop. Inr (current_daa_score < stop))
      else Inr False)"

definition is_within_range_before_activation :: "ForkActivation \<Rightarrow> u64 \<Rightarrow> u64 \<Rightarrow> ('e, u64 option) outcome" where
  "is_within_range_before_activation fork current_daa_score rng =
     (if \<not> is_active fork current_daa_score
      then bindR (padd current_daa_score rng) (\<lambda>stop.
        if fork < stop then bindR (psub fork current_daa_score) (\<lambda>d. Inr (Some d)) else Inr None)
      else Inr None)"

section \<open>Errors and the validator\<close>

text \<open>\<open>'s\<close> is the script engine's error type.\<close>

datatype 's TxRuleError =
    NoTxInputs
  | MalformedNotePoolPayload
  | InvalidNotePoolOp PoolOpValidationError
  | InvalidNotePoolOpInContext PoolOpContextError
  | MalformedFinalityAnchorPayload
  | InvalidFinalityAnchor FinalityAnchorError
  | FinalityAnchorsUnavailable
  | TxDuplicateInputs
  | TxHasGas string
  | UnknownTxVersion u16
  | TooManyInputs nat nat
  | TooManyOutputs nat nat
  | TooBigSignatureScript nat nat
  | TooBigScriptPublicKey nat nat
  | NotFinalized nat
  | CoinbaseHasInputs nat
  | CoinbaseTooManyOutputs nat u64
  | CoinbaseScriptPublicKeyTooLong nat
  | CoinbaseNonZeroMassCommitment
  | ImmatureCoinbaseSpend nat TransactionOutpoint u64 u64 u64
  | InputAmountOverflow
  | InputAmountTooHigh
  | TxOutZero nat
  | TxOutTooHigh nat
  | OutputsValueOverflow
  | TotalTxOutTooHigh
  | SpendTooHigh u64 u64
  | SequenceLockConditionsAreNotMet
  | MissingTxOutpoints
  | SignatureInvalid 's
  | SignatureEmpty 's
  | WrongSigOpCount nat u64 u64
  | MassIncomputable
  | WrongMass u64 u64
  | SubnetworksDisabled SubnetworkId
  | FeerateTooLow
  | CovenantBindingInV0 nat
  | SigopCountInV1 nat u8
  | ComputeBudgetInV0 nat u16
  | TxCovenantsError CovenantsError

type_synonym ('s, 'a) tx_result = "('s TxRuleError, 'a) outcome"

type_synonym f64 = u64 \<comment> \<open>the bits of the number\<close>

record 's TxEnv =
  PoolOp_decode_payload :: "bytes \<Rightarrow> PoolOp option"
  AnchorPayload_decode_payload :: "bytes \<Rightarrow> AnchorPayload option"
  trustee_crypto :: TrusteeCrypto
  covenant_id_hash :: "TransactionOutpoint \<Rightarrow> (u32 \<times> TransactionOutput) list \<Rightarrow> hash"
  vm_execute :: "PopulatedTransaction \<Rightarrow> CovenantsContext \<Rightarrow> u64 \<Rightarrow> nat \<Rightarrow> ScriptUnits \<Rightarrow> ('s, unit) outcome"
  par_order :: "nat \<Rightarrow> nat list"
  feerate_at_most :: "u64 \<Rightarrow> u64 \<Rightarrow> f64 \<Rightarrow> bool"

record TransactionValidator =
  max_tx_inputs :: nat
  max_tx_outputs :: nat
  max_signature_script_len :: nat
  max_script_public_key_len :: nat
  coinbase_payload_script_public_key_max_len :: u8
  coinbase_maturity :: u64
  ghostdag_k :: u16
  wide_lanes_activation :: ForkActivation
  mass_per_sig_op :: u64
  finality_anchor_params :: FinalityAnchorParams
  mass_calculator :: MassCalculator

end
