(* ===== verification/Tx_Validation.thy ===== *)
theory Tx_Validation
  imports Tx_Rules
begin

text \<open>
  Transaction validation: \<^verbatim>\<open>src/consensus/src/processes/transaction_validator\<close>, in isolation, in
  header context and in UTXO context.  The theorems say which transactions pass in isolation, that
  value is conserved, that a transaction which passed in isolation cannot panic the node in UTXO
  context, and that running the scripts in parallel changes no verdict.
\<close>

unbundle bit_operations_syntax

section \<open>In isolation\<close>

text \<open>\<^verbatim>\<open>iter().position(p)\<close>.\<close>

fun position :: "('a \<Rightarrow> bool) \<Rightarrow> 'a list \<Rightarrow> nat option" where
  "position p [] = None"
| "position p (x # xs) = (if p x then Some 0 else map_option Suc (position p xs))"

definition check_transaction_inputs_count :: "TransactionValidator \<Rightarrow> Transaction \<Rightarrow> ('s, unit) tx_result" where
  "check_transaction_inputs_count v t =
     (if \<not> is_coinbase t \<and> inputs t = [] \<and> subnetwork_id t \<noteq> SUBNETWORK_ID_NOTE_POOL \<and>
         subnetwork_id t \<noteq> SUBNETWORK_ID_FINALITY_ANCHOR
      then Inl (Err NoTxInputs)
      else if max_tx_inputs v < length (inputs t)
      then Inl (Err (TooManyInputs (length (inputs t)) (max_tx_inputs v)))
      else Inr ())"

definition check_transaction_signature_scripts :: "TransactionValidator \<Rightarrow> Transaction \<Rightarrow> ('s, unit) tx_result" where
  "check_transaction_signature_scripts v t =
     (case position (\<lambda>i. max_signature_script_len v < length (signature_script i)) (inputs t) of
        Some i \<Rightarrow> Inl (Err (TooBigSignatureScript i (max_signature_script_len v)))
      | None \<Rightarrow> Inr ())"

definition check_transaction_inputs_in_isolation :: "TransactionValidator \<Rightarrow> Transaction \<Rightarrow> ('s, unit) tx_result" where
  "check_transaction_inputs_in_isolation v t =
     bindR (check_transaction_inputs_count v t) (\<lambda>_. check_transaction_signature_scripts v t)"

text \<open>The error of the output count carries the limit of the inputs, as in the source.\<close>

definition check_transaction_outputs_count :: "TransactionValidator \<Rightarrow> Transaction \<Rightarrow> ('s, unit) tx_result" where
  "check_transaction_outputs_count v t =
     (if is_coinbase t then Inr ()
      else if max_tx_outputs v < length (outputs t)
      then Inl (Err (TooManyOutputs (length (outputs t)) (max_tx_inputs v)))
      else Inr ())"

definition check_transaction_script_public_keys :: "TransactionValidator \<Rightarrow> Transaction \<Rightarrow> ('s, unit) tx_result" where
  "check_transaction_script_public_keys v t =
     (case position (\<lambda>out. max_script_public_key_len v < length (spk_script (out_spk out))) (outputs t) of
        Some i \<Rightarrow> Inl (Err (TooBigScriptPublicKey i (max_script_public_key_len v)))
      | None \<Rightarrow> Inr ())"

definition check_transaction_outputs_in_isolation :: "TransactionValidator \<Rightarrow> Transaction \<Rightarrow> ('s, unit) tx_result" where
  "check_transaction_outputs_in_isolation v t =
     bindR (check_transaction_outputs_count v t) (\<lambda>_. check_transaction_script_public_keys v t)"

definition check_coinbase_in_isolation :: "TransactionValidator \<Rightarrow> Transaction \<Rightarrow> ('s, unit) tx_result" where
  "check_coinbase_in_isolation v t =
     (if \<not> is_coinbase t then Inr ()
      else if inputs t \<noteq> [] then Inl (Err (CoinbaseHasInputs (length (inputs t))))
      else if 0 < storage_mass t then Inl (Err CoinbaseNonZeroMassCommitment)
      else
        bindR (padd (ucast (ghostdag_k v)) 2) (\<lambda>outputs_limit.
        if outputs_limit < of_nat (length (outputs t))
        then Inl (Err (CoinbaseTooManyOutputs (length (outputs t)) outputs_limit))
        else
          (case position (\<lambda>out. unat (coinbase_payload_script_public_key_max_len v) < length (spk_script (out_spk out)))
                  (outputs t) of
             Some i \<Rightarrow> Inl (Err (CoinbaseScriptPublicKeyTooLong i))
           | None \<Rightarrow> Inr ())))"

definition add_output_value :: "u64 \<Rightarrow> nat \<times> TransactionOutput \<Rightarrow> ('s, u64) tx_result" where
  "add_output_value tot iout =
     (let (i, out) = iout in
      if out_value out = 0 then Inl (Err (TxOutZero i))
      else if MAX_SOMPI < out_value out then Inl (Err (TxOutTooHigh i))
      else
        (case checked_add tot (out_value out) of
           None \<Rightarrow> Inl (Err OutputsValueOverflow)
         | Some tot' \<Rightarrow> if MAX_SOMPI < tot' then Inl (Err TotalTxOutTooHigh) else Inr tot'))"

definition check_transaction_output_value_ranges :: "Transaction \<Rightarrow> ('s, unit) tx_result" where
  "check_transaction_output_value_ranges t =
     bindR (fold_result add_output_value 0 (enumerate 0 (outputs t))) (\<lambda>_. Inr ())"

definition check_duplicate_transaction_inputs :: "Transaction \<Rightarrow> ('s, unit) tx_result" where
  "check_duplicate_transaction_inputs t =
     (case first_dup {} (map previous_outpoint (inputs t)) of
        Some _ \<Rightarrow> Inl (Err TxDuplicateInputs)
      | None \<Rightarrow> Inr ())"

definition ZEROES_19 :: bytes where "ZEROES_19 = replicate 19 0"

definition check_gas :: "Transaction \<Rightarrow> ('s, unit) tx_result" where
  "check_gas t =
     (if gas t = 0 then Inr ()
      else if version t < TX_VERSION_TOCCATA
      then Inl (Err (TxHasGas ''gas is only allowed for Toccata-or-newer tx versions''))
      else
        (case subnetwork_id t of
           x # rest \<Rightarrow>
             if rest \<noteq> ZEROES_19 then Inr ()
             else Inl (Err (TxHasGas ''native / system subnetworks must use zero gas''))
         | [] \<Rightarrow> Inr ()))"

definition SUBNETWORK_ZERO_TAIL_LEN :: nat where
  "SUBNETWORK_ZERO_TAIL_LEN = SUBNETWORK_ID_SIZE - SUBNETWORK_NAMESPACE_LEN"

definition SUBNETWORK_WIDE_ZERO_TAIL_LEN :: nat where
  "SUBNETWORK_WIDE_ZERO_TAIL_LEN = SUBNETWORK_ID_SIZE - SUBNETWORK_TAG_LEN"

definition check_transaction_subnetwork :: "Transaction \<Rightarrow> bool \<Rightarrow> ('s, unit) tx_result" where
  "check_transaction_subnetwork t wide_lanes =
     (let tail_len = (if wide_lanes then SUBNETWORK_TAG_LEN else SUBNETWORK_NAMESPACE_LEN);
          tail_zero = replicate (if wide_lanes then SUBNETWORK_WIDE_ZERO_TAIL_LEN else SUBNETWORK_ZERO_TAIL_LEN) 0;
          bs = subnetwork_id t
      in if (hd bs = 0 \<or> hd bs = 1) \<and> tl bs = ZEROES_19 then Inr ()
         else if tl bs = ZEROES_19 then Inl (Err (SubnetworksDisabled bs))
         else if TX_VERSION_TOCCATA \<le> version t \<and> drop tail_len bs = tail_zero then Inr ()
         else Inl (Err (SubnetworksDisabled bs)))"

definition check_transaction_version :: "Transaction \<Rightarrow> ('s, unit) tx_result" where
  "check_transaction_version t =
     (if TX_VERSION_TOCCATA < version t then Inl (Err (UnknownTxVersion (version t))) else Inr ())"

definition check_tx_version_specific_fields :: "Transaction \<Rightarrow> ('s, unit) tx_result" where
  "check_tx_version_specific_fields t =
     (if 0 < version t then
        bindR (fold_result (\<lambda>_ (i, inp). case sig_op_count (compute_commit inp) of
            Some n \<Rightarrow> Inl (Err (SigopCountInV1 i n)) | None \<Rightarrow> Inr ()) () (enumerate 0 (inputs t)))
          (\<lambda>_. Inr ())
      else
        bindR (fold_result (\<lambda>_ (i, inp). case compute_budget (compute_commit inp) of
            Some n \<Rightarrow> Inl (Err (ComputeBudgetInV0 i n)) | None \<Rightarrow> Inr ()) () (enumerate 0 (inputs t)))
          (\<lambda>_. fold_result (\<lambda>_ (i, out). if covenant out \<noteq> None then Inl (Err (CovenantBindingInV0 i)) else Inr ())
                 () (enumerate 0 (outputs t))))"

definition check_note_pool_payload :: "'s TxEnv \<Rightarrow> Transaction \<Rightarrow> ('s, unit) tx_result" where
  "check_note_pool_payload env t =
     (if subnetwork_id t \<noteq> SUBNETWORK_ID_NOTE_POOL then Inr ()
      else
        bindR (ok_or (Err MalformedNotePoolPayload) (PoolOp_decode_payload env (payload t))) (\<lambda>op.
        map_err (\<lambda>e. Err (InvalidNotePoolOp e)) (validate_stateless op)))"

definition check_finality_anchor_payload ::
    "'s TxEnv \<Rightarrow> TransactionValidator \<Rightarrow> Transaction \<Rightarrow> ('s, unit) tx_result" where
  "check_finality_anchor_payload env v t =
     (if subnetwork_id t \<noteq> SUBNETWORK_ID_FINALITY_ANCHOR then Inr ()
      else
        bindR (ok_or (Err FinalityAnchorsUnavailable) (trustees (finality_anchor_params v))) (\<lambda>keys.
        bindR (ok_or (Err MalformedFinalityAnchorPayload) (AnchorPayload_decode_payload env (payload t))) (\<lambda>pl.
        map_err (map_fail InvalidFinalityAnchor)
          (case pl of
             Anchor anchor \<Rightarrow> verify_anchor (trustee_crypto env) anchor keys
           | Equivocation evidence \<Rightarrow>
               verify_equivocation_evidence (trustee_crypto env) evidence keys
                 (cadence_interval (finality_anchor_params v))))))"

definition validate_tx_in_isolation ::
    "'s TxEnv \<Rightarrow> TransactionValidator \<Rightarrow> Transaction \<Rightarrow> u64 \<Rightarrow> ('s, unit) tx_result" where
  "validate_tx_in_isolation env v t pov_daa_score =
     bindR (check_transaction_inputs_in_isolation v t) (\<lambda>_.
     bindR (check_transaction_outputs_in_isolation v t) (\<lambda>_.
     bindR (check_coinbase_in_isolation v t) (\<lambda>_.
     bindR (check_transaction_output_value_ranges t) (\<lambda>_.
     bindR (check_duplicate_transaction_inputs t) (\<lambda>_.
     bindR (check_gas t) (\<lambda>_.
     bindR (check_transaction_subnetwork t (is_active (wide_lanes_activation v) pov_daa_score)) (\<lambda>_.
     bindR (check_transaction_version t) (\<lambda>_.
     bindR (check_tx_version_specific_fields t) (\<lambda>_.
     bindR (check_note_pool_payload env t) (\<lambda>_.
     check_finality_anchor_payload env v t))))))))))"

section \<open>In header context\<close>

datatype LockTimeType = LT_Finalized | LT_DaaScore | LT_Time

datatype LockTimeArg = Finalized | DaaScore u64 | MedianTime u64

definition get_lock_time_type :: "Transaction \<Rightarrow> LockTimeType" where
  "get_lock_time_type t =
     (if lock_time t = 0 then LT_Finalized
      else if lock_time t < LOCK_TIME_THRESHOLD then LT_DaaScore else LT_Time)"

definition check_inputs_final :: "Transaction \<Rightarrow> ('s, unit) tx_result" where
  "check_inputs_final t =
     fold_result (\<lambda>_ (i, inp). if sequence inp \<noteq> - 1 then Inl (Err (NotFinalized i)) else Inr ())
       () (enumerate 0 (inputs t))"

fun check_tx_is_finalized :: "Transaction \<Rightarrow> LockTimeArg \<Rightarrow> ('s, unit) tx_result" where
  "check_tx_is_finalized t Finalized = Inr ()"
| "check_tx_is_finalized t (DaaScore ctx_daa_score) =
     (if lock_time t < ctx_daa_score then Inr () else check_inputs_final t)"
| "check_tx_is_finalized t (MedianTime ctx_block_time) =
     (if lock_time t < ctx_block_time then Inr () else check_inputs_final t)"

definition validate_tx_in_header_context :: "Transaction \<Rightarrow> LockTimeArg \<Rightarrow> ('s, unit) tx_result" where
  "validate_tx_in_header_context t lock_time_arg = check_tx_is_finalized t lock_time_arg"

definition validate_tx_in_header_context_with_args :: "Transaction \<Rightarrow> u64 \<Rightarrow> u64 \<Rightarrow> ('s, unit) tx_result" where
  "validate_tx_in_header_context_with_args t ctx_daa_score ctx_block_time =
     validate_tx_in_header_context t
       (case get_lock_time_type t of
          LT_Finalized \<Rightarrow> Finalized
        | LT_DaaScore \<Rightarrow> DaaScore ctx_daa_score
        | LT_Time \<Rightarrow> MedianTime ctx_block_time)"

section \<open>In UTXO context\<close>

datatype TxValidationFlags = Full | SkipScriptChecks | SkipMassCheck

text \<open>Signed 64-bit addition and subtraction, checked like the unsigned ones.\<close>

type_synonym i64 = "64 word"

definition i64_checked :: "int \<Rightarrow> ('e, i64) outcome" where
  "i64_checked n = (if - (2 ^ 63) \<le> n \<and> n < 2 ^ 63 then Inr (of_int n) else Inl Panic)"

definition check_input_maturity ::
    "TransactionValidator \<Rightarrow> u64 \<Rightarrow> nat \<times> TransactionInput \<times> UtxoEntry \<Rightarrow> ('s, unit) tx_result" where
  "check_input_maturity v pov_daa_score ie =
     (let (i, inp, entry) = ie in
      if entry_is_coinbase entry then
        bindR (padd (block_daa_score entry) (coinbase_maturity v)) (\<lambda>mature.
        if pov_daa_score < mature
        then Inl (Err (ImmatureCoinbaseSpend i (previous_outpoint inp) (block_daa_score entry) pov_daa_score
               (coinbase_maturity v)))
        else Inr ())
      else Inr ())"

definition check_transaction_coinbase_maturity ::
    "TransactionValidator \<Rightarrow> PopulatedTransaction \<Rightarrow> u64 \<Rightarrow> ('s, unit) tx_result" where
  "check_transaction_coinbase_maturity v p pov_daa_score =
     fold_result (\<lambda>_. check_input_maturity v pov_daa_score) () (enumerate 0 (populated_inputs p))"

definition add_input_amount :: "u64 \<Rightarrow> TransactionInput \<times> UtxoEntry \<Rightarrow> ('s, u64) tx_result" where
  "add_input_amount tot ie =
     (case checked_add tot (amount (snd ie)) of
        None \<Rightarrow> Inl (Err InputAmountOverflow)
      | Some tot' \<Rightarrow> if MAX_SOMPI < tot' then Inl (Err InputAmountTooHigh) else Inr tot')"

definition check_transaction_input_amounts :: "PopulatedTransaction \<Rightarrow> ('s, u64) tx_result" where
  "check_transaction_input_amounts p = fold_result add_input_amount 0 (populated_inputs p)"

definition check_transaction_output_values :: "PopulatedTransaction \<Rightarrow> u64 \<Rightarrow> u64 \<Rightarrow> ('s, u64) tx_result" where
  "check_transaction_output_values p available reserved =
     bindR (psum (map out_value (outputs (ptx p)))) (\<lambda>total_out.
     bindR (ok_or (Err OutputsValueOverflow) (checked_add total_out reserved)) (\<lambda>spent.
     if available < spent then Inl (Err (SpendTooHigh spent available)) else Inr total_out))"

definition check_mass_commitment :: "TransactionValidator \<Rightarrow> PopulatedTransaction \<Rightarrow> ('s, unit) tx_result" where
  "check_mass_commitment v p =
     bindR (map_err (map_fail (\<lambda>_. MassIncomputable)) (calc_contextual_masses (mass_calculator v) p)) (\<lambda>calculated.
     if storage_mass (ptx p) \<noteq> calculated then Inl (Err (WrongMass calculated (storage_mass (ptx p))))
     else Inr ())"

definition check_input_sequence_lock :: "i64 \<Rightarrow> TransactionInput \<times> UtxoEntry \<Rightarrow> ('s, unit) tx_result" where
  "check_input_sequence_lock pov ie =
     (let (inp, entry) = ie in
      if sequence inp AND SEQUENCE_LOCK_TIME_DISABLED = SEQUENCE_LOCK_TIME_DISABLED then Inr ()
      else
        let relative_lock = (sequence inp AND SEQUENCE_LOCK_TIME_MASK :: i64) in
        bindR (i64_checked (sint (block_daa_score entry) + sint relative_lock)) (\<lambda>s.
        bindR (i64_checked (sint s - 1)) (\<lambda>lock_daa_score.
        if sint pov \<le> sint lock_daa_score then Inl (Err SequenceLockConditionsAreNotMet) else Inr ())))"

definition check_sequence_lock :: "PopulatedTransaction \<Rightarrow> u64 \<Rightarrow> ('s, unit) tx_result" where
  "check_sequence_lock p pov_daa_score =
     fold_result (\<lambda>_. check_input_sequence_lock pov_daa_score) () (populated_inputs p)"

definition check_feerate_threshold :: "'s TxEnv \<Rightarrow> u64 \<Rightarrow> (u64 \<times> f64) option \<Rightarrow> ('s, unit) tx_result" where
  "check_feerate_threshold env fee mass_and_feerate_threshold =
     (case mass_and_feerate_threshold of
        Some (contextual_mass, feerate_threshold) \<Rightarrow>
          if contextual_mass = 0 then Inl Panic
          else if feerate_at_most env fee contextual_mass feerate_threshold then Inl (Err FeerateTooLow)
          else Inr ()
      | None \<Rightarrow> Inr ())"

definition check_covenant_info :: "'s TxEnv \<Rightarrow> PopulatedTransaction \<Rightarrow> ('s, CovenantsContext) tx_result" where
  "check_covenant_info env p =
     map_err (map_fail TxCovenantsError) (CovenantsContext_from_tx (covenant_id_hash env) p)"

definition map_script_err :: "TransactionInput \<Rightarrow> 's \<Rightarrow> 's TxRuleError" where
  "map_script_err inp e = (if signature_script inp = [] then SignatureEmpty e else SignatureInvalid e)"

definition check_input_script ::
    "'s TxEnv \<Rightarrow> PopulatedTransaction \<Rightarrow> CovenantsContext \<Rightarrow> u64 \<Rightarrow> nat \<Rightarrow> ('s, unit) tx_result" where
  "check_input_script env p ctx sigop_script_units i =
     (let inp = inputs (ptx p) ! i in
      map_err (map_fail (map_script_err inp))
        (vm_execute env p ctx sigop_script_units i (allowed_script_units (compute_commit inp))))"

definition check_scripts_sequential ::
    "'s TxEnv \<Rightarrow> PopulatedTransaction \<Rightarrow> CovenantsContext \<Rightarrow> u64 \<Rightarrow> ('s, unit) tx_result" where
  "check_scripts_sequential env p ctx units =
     fold_result (\<lambda>_. check_input_script env p ctx units) () [0..<length (inputs (ptx p))]"

text \<open>The thread pool runs the inputs in some order and stops at the first error it meets.\<close>

definition check_scripts_par_iter ::
    "'s TxEnv \<Rightarrow> PopulatedTransaction \<Rightarrow> CovenantsContext \<Rightarrow> u64 \<Rightarrow> ('s, unit) tx_result" where
  "check_scripts_par_iter env p ctx units =
     fold_result (\<lambda>_. check_input_script env p ctx units) () (par_order env (length (inputs (ptx p))))"

definition CHECK_SCRIPTS_PARALLELISM_THRESHOLD :: nat where "CHECK_SCRIPTS_PARALLELISM_THRESHOLD = 1"

definition check_scripts_of ::
    "'s TxEnv \<Rightarrow> PopulatedTransaction \<Rightarrow> CovenantsContext \<Rightarrow> u64 \<Rightarrow> ('s, unit) tx_result" where
  "check_scripts_of env p ctx units =
     (if CHECK_SCRIPTS_PARALLELISM_THRESHOLD < length (inputs (ptx p))
      then check_scripts_par_iter env p ctx units
      else check_scripts_sequential env p ctx units)"

definition check_scripts ::
    "'s TxEnv \<Rightarrow> TransactionValidator \<Rightarrow> PopulatedTransaction \<Rightarrow> CovenantsContext \<Rightarrow> ('s, unit) tx_result" where
  "check_scripts env v p ctx =
     bindR (pmul (mass_per_sig_op v) SCRIPT_UNITS_PER_GRAM) (check_scripts_of env p ctx)"

definition validate_populated_transaction_and_get_fee ::
    "'s TxEnv \<Rightarrow> TransactionValidator \<Rightarrow> PopulatedTransaction \<Rightarrow> u64 \<Rightarrow> TxValidationFlags \<Rightarrow>
     (u64 \<times> f64) option \<Rightarrow> (u64 \<times> u64) option \<Rightarrow> ('s, u64) tx_result" where
  "validate_populated_transaction_and_get_fee env v p pov_daa_score flags mass_and_feerate_threshold pool_petals =
     bindR (check_transaction_coinbase_maturity v p pov_daa_score) (\<lambda>_.
     bindR (check_transaction_input_amounts p) (\<lambda>total_in.
     let (pool_consumed, pool_produced) = (case pool_petals of Some cp \<Rightarrow> cp | None \<Rightarrow> (0, 0)) in
     bindR (ok_or (Err InputAmountOverflow) (checked_add total_in pool_consumed)) (\<lambda>available.
     bindR (check_transaction_output_values p available pool_produced) (\<lambda>total_out.
     bindR (psub available total_out) (\<lambda>rest.
     bindR (psub rest pool_produced) (\<lambda>fee.
     bindR (if flags \<noteq> SkipMassCheck then check_mass_commitment v p else Inr ()) (\<lambda>_.
     bindR (check_sequence_lock p pov_daa_score) (\<lambda>_.
     bindR (check_feerate_threshold env fee mass_and_feerate_threshold) (\<lambda>_.
     bindR (check_covenant_info env p) (\<lambda>ctx.
     bindR (if flags = SkipScriptChecks then Inr () else check_scripts env v p ctx) (\<lambda>_.
     Inr fee)))))))))))"

section \<open>Lemmas: in isolation\<close>

lemma position_None: "position p xs = None \<longleftrightarrow> (\<forall>x \<in> set xs. \<not> p x)"
  by (induction xs) auto

lemma position_check: "(case position p xs of Some i \<Rightarrow> Inl (f i) | None \<Rightarrow> Inr ()) = Inr () \<longleftrightarrow> (\<forall>x \<in> set xs. \<not> p x)"
  by (cases "position p xs") (auto simp: position_None [symmetric])

lemma bindR_unit: "bindR m f = Inr y \<longleftrightarrow> m = Inr () \<and> f () = Inr y"
  by (cases m) auto

lemma unat_MAX_SOMPI: "unat MAX_SOMPI = 21000000000000000"
  by (simp add: MAX_SOMPI_def SOMPI_PER_KASPA_def)

definition output_sum :: "TransactionOutput list \<Rightarrow> nat" where
  "output_sum outs = sum_list (map (\<lambda>out. unat (out_value out)) outs)"

definition input_sum :: "(TransactionInput \<times> UtxoEntry) list \<Rightarrow> nat" where
  "input_sum ins = sum_list (map (\<lambda>(_, e). unat (amount e)) ins)"

lemma output_sum_simps [simp]: "output_sum [] = 0" "output_sum (out # outs) = unat (out_value out) + output_sum outs"
  by (simp_all add: output_sum_def)

lemma input_sum_simps [simp]: "input_sum [] = 0" "input_sum (ie # ins) = unat (amount (snd ie)) + input_sum ins"
  by (cases ie; simp add: input_sum_def)+

lemma capped_add_iff:
  "(case checked_add tot x of None \<Rightarrow> Inl e | Some tot' \<Rightarrow> if MAX_SOMPI < tot' then Inl e' else Inr tot') = Inr tot' \<longleftrightarrow>
    unat tot + unat x \<le> unat MAX_SOMPI \<and> unat tot' = unat tot + unat x"
proof (cases "checked_add tot x")
  case None
  then have "2 ^ 64 \<le> unat tot + unat x" by (simp add: checked_add_eq_None)
  with None show ?thesis by (simp add: unat_MAX_SOMPI)
next
  case (Some t)
  then have t: "unat t = unat tot + unat x" by (simp add: checked_add_eq_Some)
  then have "MAX_SOMPI < t \<longleftrightarrow> unat MAX_SOMPI < unat tot + unat x" by (simp add: word_less_nat_alt)
  with Some t show ?thesis by (auto simp: word_unat_eq_iff)
qed

lemma add_output_value_iff:
  "add_output_value tot (i, out) = Inr tot' \<longleftrightarrow> out_value out \<noteq> 0 \<and>
    unat tot + unat (out_value out) \<le> unat MAX_SOMPI \<and> unat tot' = unat tot + unat (out_value out)"
proof (cases "out_value out = 0 \<or> MAX_SOMPI < out_value out")
  case True
  then show ?thesis by (auto simp: add_output_value_def word_less_nat_alt)
next
  case False
  then show ?thesis by (simp add: add_output_value_def capped_add_iff)
qed

lemma add_output_values_iff:
  assumes "unat tot \<le> unat MAX_SOMPI"
  shows "fold_result add_output_value tot (enumerate n outs) = Inr tot' \<longleftrightarrow>
    (\<forall>out \<in> set outs. out_value out \<noteq> 0) \<and> unat tot + output_sum outs \<le> unat MAX_SOMPI \<and>
    unat tot' = unat tot + output_sum outs"
  using assms
proof (induction outs arbitrary: tot n)
  case Nil
  then show ?case by (auto simp: word_unat_eq_iff)
next
  case (Cons out outs)
  show ?case
  proof (cases "\<exists>t. add_output_value tot (n, out) = (Inr t :: ('a, u64) tx_result)")
    case True
    then obtain t where "add_output_value tot (n, out) = (Inr t :: ('a, u64) tx_result)" by blast
    moreover from this have "out_value out \<noteq> 0" "unat tot + unat (out_value out) \<le> unat MAX_SOMPI"
        "unat t = unat tot + unat (out_value out)"
      by (simp_all add: add_output_value_iff)
    ultimately show ?thesis using Cons.IH [of t "Suc n"] by (auto simp: add.assoc)
  next
    case False
    then have "out_value out = 0 \<or> unat MAX_SOMPI < unat tot + unat (out_value out)"
      by (rule contrapos_np) (auto simp: add_output_value_iff unat_MAX_SOMPI intro!: exI [of _ "tot + out_value out"]
          unat_add_no_overflow)
    with False show ?thesis by (auto simp: bindR_eq_Inr)
  qed
qed

lemma add_input_amount_iff:
  "add_input_amount tot ie = Inr tot' \<longleftrightarrow>
    unat tot + unat (amount (snd ie)) \<le> unat MAX_SOMPI \<and> unat tot' = unat tot + unat (amount (snd ie))"
  unfolding add_input_amount_def by (rule capped_add_iff)

lemma input_amounts_Inr:
  "fold_result add_input_amount tot ins = Inr tot' \<Longrightarrow> unat tot' = unat tot + input_sum ins"
  by (induction ins arbitrary: tot) (auto simp: bindR_eq_Inr add_input_amount_iff)

lemma input_amounts_bound:
  "fold_result add_input_amount tot ins = Inr tot' \<Longrightarrow> unat tot \<le> unat MAX_SOMPI \<Longrightarrow> unat tot' \<le> unat MAX_SOMPI"
  by (induction ins arbitrary: tot) (auto simp: bindR_eq_Inr add_input_amount_iff)

lemma input_amounts_no_panic: "fold_result add_input_amount tot ins \<noteq> Inl Panic"
  by (induction ins arbitrary: tot) (auto simp: bindR_eq_Inl add_input_amount_def split: option.splits)

text \<open>The lane of a transaction: native and coinbase ids, or, from version 1 on, a tag of four
  bytes (five once wide lanes are active) that is not a system id.\<close>

definition lane_ok :: "Transaction \<Rightarrow> bool \<Rightarrow> bool" where
  "lane_ok t wide_lanes \<longleftrightarrow>
     (if tl (subnetwork_id t) = ZEROES_19 then hd (subnetwork_id t) \<in> {0, 1}
      else version t = 1 \<and> drop (if wide_lanes then 5 else 4) (subnetwork_id t) = replicate (if wide_lanes then 15 else 16) 0)"

lemma check_lane_iff:
  "version t \<le> TX_VERSION_TOCCATA \<Longrightarrow> check_transaction_subnetwork t wide = Inr () \<longleftrightarrow> lane_ok t wide"
  by (auto simp: check_transaction_subnetwork_def lane_ok_def TX_VERSION_TOCCATA_def SUBNETWORK_ZERO_TAIL_LEN_def
      SUBNETWORK_WIDE_ZERO_TAIL_LEN_def SUBNETWORK_ID_SIZE_def SUBNETWORK_TAG_LEN_def SUBNETWORK_NAMESPACE_LEN_def Let_def)

definition gas_ok :: "Transaction \<Rightarrow> bool" where
  "gas_ok t \<longleftrightarrow> gas t = 0 \<or> version t = 1 \<and> tl (subnetwork_id t) \<noteq> ZEROES_19"

lemma check_gas_iff:
  "version t \<le> TX_VERSION_TOCCATA \<Longrightarrow> subnetwork_id t \<noteq> [] \<Longrightarrow> check_gas t = Inr () \<longleftrightarrow> gas_ok t"
  by (cases "subnetwork_id t") (auto simp: check_gas_def gas_ok_def TX_VERSION_TOCCATA_def word_le_nat_alt word_less_nat_alt
      word_unat_eq_iff)

definition version_fields_ok :: "Transaction \<Rightarrow> bool" where
  "version_fields_ok t \<longleftrightarrow>
     (if version t = 0
      then (\<forall>inp \<in> set (inputs t). \<exists>n. compute_commit inp = SigopCount n) \<and> (\<forall>out \<in> set (outputs t). covenant out = None)
      else (\<forall>inp \<in> set (inputs t). \<exists>n. compute_commit inp = ComputeBudget n))"

lemma fold_enumerate_units:
  "fold_result (\<lambda>_ (i, x). f i x) () (enumerate n xs) = Inr () \<longleftrightarrow> (\<forall>i < length xs. f (n + i) (xs ! i) = Inr ())"
proof (induction xs arbitrary: n)
  case (Cons x xs)
  then show ?case by (auto simp: bindR_eq_Inr All_less_Suc2)
qed simp

lemma sig_op_count_None: "sig_op_count c = None \<longleftrightarrow> (\<exists>n. c = ComputeBudget n)"
  by (cases c) auto

lemma compute_budget_None: "compute_budget c = None \<longleftrightarrow> (\<exists>n. c = SigopCount n)"
  by (cases c) auto

lemma check_version_fields_iff: "check_tx_version_specific_fields t = Inr () \<longleftrightarrow> version_fields_ok t"
  unfolding check_tx_version_specific_fields_def version_fields_ok_def
  by (auto simp: bindR_eq_Inr fold_enumerate_units all_set_conv_all_nth word_greater_zero_iff
      sig_op_count_None [symmetric] compute_budget_None [symmetric] split: option.splits if_splits)

definition coinbase_ok :: "TransactionValidator \<Rightarrow> Transaction \<Rightarrow> bool" where
  "coinbase_ok v t \<longleftrightarrow> inputs t = [] \<and> storage_mass t = 0 \<and> length (outputs t) \<le> unat (ghostdag_k v) + 2 \<and>
     (\<forall>out \<in> set (outputs t). length (spk_script (out_spk out)) \<le> unat (coinbase_payload_script_public_key_max_len v))"

lemma outputs_limit: "padd (ucast (k :: u16)) 2 = Inr (ucast k + 2 :: u64)"
  and unat_outputs_limit: "unat (ucast (k :: u16) + 2 :: u64) = unat k + 2"
proof -
  have "unat (ucast k :: u64) = unat k" "unat k < 2 ^ 16"
    using unat_less_two_power [of k] by (simp_all add: unsigned_ucast_eq take_bit_nat_eq_self)
  then show "padd (ucast k) 2 = Inr (ucast k + 2 :: u64)" "unat (ucast k + 2 :: u64) = unat k + 2"
    using unat_add_no_overflow [of "ucast k :: u64" 2] by (auto intro!: padd_ok)
qed

lemma check_coinbase_iff:
  assumes "length (outputs t) < 2 ^ 64"
  shows "check_coinbase_in_isolation v t = Inr () \<longleftrightarrow> (is_coinbase t \<longrightarrow> coinbase_ok v t)"
proof -
  have "ucast (ghostdag_k v) + 2 < (of_nat (length (outputs t)) :: u64) \<longleftrightarrow> unat (ghostdag_k v) + 2 < length (outputs t)"
    using assms by (simp add: word_less_nat_alt unat_outputs_limit unat_of_nat)
  then show ?thesis
    by (auto simp: check_coinbase_in_isolation_def coinbase_ok_def outputs_limit position_check not_less
        word_greater_zero_iff)
qed

definition payload_ok :: "'s TxEnv \<Rightarrow> TransactionValidator \<Rightarrow> Transaction \<Rightarrow> bool" where
  "payload_ok env v t \<longleftrightarrow>
     (subnetwork_id t = SUBNETWORK_ID_NOTE_POOL \<longrightarrow>
        (\<exists>op. PoolOp_decode_payload env (payload t) = Some op \<and> validate_stateless op = Inr ())) \<and>
     (subnetwork_id t = SUBNETWORK_ID_FINALITY_ANCHOR \<longrightarrow>
        (\<exists>keys pl. trustees (finality_anchor_params v) = Some keys \<and>
           AnchorPayload_decode_payload env (payload t) = Some pl \<and>
           (case pl of
              Anchor anchor \<Rightarrow> verify_anchor (trustee_crypto env) anchor keys = Inr ()
            | Equivocation evidence \<Rightarrow>
                verify_equivocation_evidence (trustee_crypto env) evidence keys
                  (cadence_interval (finality_anchor_params v)) = Inr ())))"

lemma check_payloads_iff:
  "check_note_pool_payload env t = Inr () \<and> check_finality_anchor_payload env v t = Inr () \<longleftrightarrow> payload_ok env v t"
  by (auto simp: check_note_pool_payload_def check_finality_anchor_payload_def payload_ok_def result_simps
      split: AnchorPayload.splits)

definition tx_well_formed :: "'s TxEnv \<Rightarrow> TransactionValidator \<Rightarrow> Transaction \<Rightarrow> u64 \<Rightarrow> bool" where
  "tx_well_formed env v t pov_daa_score \<longleftrightarrow>
     (inputs t = [] \<longrightarrow> is_coinbase t \<or> subnetwork_id t \<in> {SUBNETWORK_ID_NOTE_POOL, SUBNETWORK_ID_FINALITY_ANCHOR}) \<and>
     length (inputs t) \<le> max_tx_inputs v \<and>
     (\<forall>inp \<in> set (inputs t). length (signature_script inp) \<le> max_signature_script_len v) \<and>
     (\<not> is_coinbase t \<longrightarrow> length (outputs t) \<le> max_tx_outputs v) \<and>
     (\<forall>out \<in> set (outputs t). length (spk_script (out_spk out)) \<le> max_script_public_key_len v) \<and>
     (is_coinbase t \<longrightarrow> coinbase_ok v t) \<and>
     (\<forall>out \<in> set (outputs t). out_value out \<noteq> 0) \<and> output_sum (outputs t) \<le> unat MAX_SOMPI \<and>
     distinct (map previous_outpoint (inputs t)) \<and>
     version t \<le> TX_VERSION_TOCCATA \<and> gas_ok t \<and> lane_ok t (is_active (wide_lanes_activation v) pov_daa_score) \<and>
     version_fields_ok t \<and> payload_ok env v t"

lemma validate_in_isolation_iff:
  assumes "length (outputs t) < 2 ^ 64" and "subnetwork_id t \<noteq> []"
  shows "validate_tx_in_isolation env v t pov = Inr () \<longleftrightarrow> tx_well_formed env v t pov"
proof -
  have counts: "check_transaction_inputs_in_isolation v t = (Inr () :: ('a, unit) tx_result) \<longleftrightarrow>
      (inputs t = [] \<longrightarrow> is_coinbase t \<or> subnetwork_id t \<in> {SUBNETWORK_ID_NOTE_POOL, SUBNETWORK_ID_FINALITY_ANCHOR}) \<and>
      length (inputs t) \<le> max_tx_inputs v \<and>
      (\<forall>inp \<in> set (inputs t). length (signature_script inp) \<le> max_signature_script_len v)"
    by (auto simp: check_transaction_inputs_in_isolation_def check_transaction_inputs_count_def bindR_eq_Inr
        check_transaction_signature_scripts_def position_check not_less split: if_splits)
  have "check_transaction_outputs_in_isolation v t = (Inr () :: ('a, unit) tx_result) \<longleftrightarrow>
      (\<not> is_coinbase t \<longrightarrow> length (outputs t) \<le> max_tx_outputs v) \<and>
      (\<forall>out \<in> set (outputs t). length (spk_script (out_spk out)) \<le> max_script_public_key_len v)"
    by (auto simp: check_transaction_outputs_in_isolation_def check_transaction_outputs_count_def bindR_eq_Inr
        check_transaction_script_public_keys_def position_check not_less split: if_splits)
  moreover have "check_transaction_output_value_ranges t = (Inr () :: ('a, unit) tx_result) \<longleftrightarrow>
      (\<forall>out \<in> set (outputs t). out_value out \<noteq> 0) \<and> output_sum (outputs t) \<le> unat MAX_SOMPI"
    using add_output_values_iff [of 0 0 "outputs t", where 'a = 'a]
    by (auto simp: check_transaction_output_value_ranges_def bindR_eq_Inr unat_MAX_SOMPI
        intro: exI [of _ "of_nat (output_sum (outputs t))"] simp: unat_of_nat)
  moreover have "check_duplicate_transaction_inputs t = (Inr () :: ('a, unit) tx_result) \<longleftrightarrow>
      distinct (map previous_outpoint (inputs t))"
    using first_dup_None [of "{}" "map previous_outpoint (inputs t)"]
    by (auto simp: check_duplicate_transaction_inputs_def split: option.splits)
  moreover have "check_transaction_version t = (Inr () :: ('a, unit) tx_result) \<longleftrightarrow> version t \<le> TX_VERSION_TOCCATA"
    by (auto simp: check_transaction_version_def)
  moreover have "version t \<le> TX_VERSION_TOCCATA \<Longrightarrow> check_gas t = (Inr () :: ('a, unit) tx_result) \<longleftrightarrow> gas_ok t"
    using assms(2) by (rule check_gas_iff [rotated])
  moreover note check_payloads_iff [of env t v] check_lane_iff [of t "is_active (wide_lanes_activation v) pov", where 'a = 'a]
  ultimately show ?thesis
    unfolding validate_tx_in_isolation_def tx_well_formed_def bindR_unit counts
      check_coinbase_iff [OF assms(1)] check_version_fields_iff
    by argo
qed

section \<open>Lemmas: in UTXO context\<close>

lemma output_values_Inr:
  "check_transaction_output_values p available reserved = Inr total_out \<longleftrightarrow>
    unat total_out = output_sum (outputs (ptx p)) \<and> output_sum (outputs (ptx p)) + unat reserved \<le> unat available"
proof -
  have sum: "sum_list (map (unat \<circ> out_value) (outputs (ptx p))) = output_sum (outputs (ptx p))"
    by (simp add: output_sum_def o_def)
  have bound: "unat available < 2 ^ 64" using unat_less_two_power [of available] by simp
  then have "(\<exists>spent. checked_add total_out reserved = Some spent \<and> \<not> available < spent) \<longleftrightarrow>
      unat total_out + unat reserved \<le> unat available"
    using unat_add_no_overflow [of total_out reserved]
    by (auto simp: checked_add_eq_Some word_less_nat_alt not_less intro!: exI [of _ "total_out + reserved"])
  then show ?thesis
    by (auto simp: check_transaction_output_values_def result_simps psum_Inr sum split: if_splits) (use bound in simp)
qed

text \<open>What an accepted transaction did: each input's coinbase is mature, value is conserved.\<close>

lemma validate_populated_Inr:
  fixes env :: "'s TxEnv"
  assumes "validate_populated_transaction_and_get_fee env v p pov flags threshold pool_petals = Inr fee"
  obtains total_in total_out :: u64 and ctx where "check_transaction_coinbase_maturity v p pov = (Inr () :: ('s, unit) tx_result)"
    and "check_transaction_input_amounts p = (Inr total_in :: ('s, u64) tx_result)"
    and "unat total_out = output_sum (outputs (ptx p))"
    and "unat total_in + unat (fst (case pool_petals of Some cp \<Rightarrow> cp | None \<Rightarrow> (0, 0))) =
      unat total_out + unat (snd (case pool_petals of Some cp \<Rightarrow> cp | None \<Rightarrow> (0, 0))) + unat fee"
    and "flags \<noteq> SkipMassCheck \<Longrightarrow> check_mass_commitment v p = (Inr () :: ('s, unit) tx_result)"
    and "check_sequence_lock p pov = (Inr () :: ('s, unit) tx_result)"
    and "check_covenant_info env p = Inr ctx"
    and "flags \<noteq> SkipScriptChecks \<Longrightarrow> check_scripts env v p ctx = Inr ()"
proof -
  obtain c r where cr: "(case pool_petals of Some cp \<Rightarrow> cp | None \<Rightarrow> (0, 0)) = (c, r)" by fastforce
  have "\<exists>total_in available total_out ctx.
      check_transaction_coinbase_maturity v p pov = (Inr () :: ('s, unit) tx_result) \<and>
      check_transaction_input_amounts p = (Inr total_in :: ('s, u64) tx_result) \<and>
      checked_add total_in c = Some available \<and>
      check_transaction_output_values p available r = (Inr total_out :: ('s, u64) tx_result) \<and>
      total_out \<le> available \<and> r \<le> available - total_out \<and> fee = available - total_out - r \<and>
      (flags \<noteq> SkipMassCheck \<longrightarrow> check_mass_commitment v p = (Inr () :: ('s, unit) tx_result)) \<and>
      check_sequence_lock p pov = (Inr () :: ('s, unit) tx_result) \<and>
      check_covenant_info env p = Inr ctx \<and>
      (flags \<noteq> SkipScriptChecks \<longrightarrow> check_scripts env v p ctx = Inr ())"
    using assms
    unfolding validate_populated_transaction_and_get_fee_def cr Let_def prod.case bindR_unit bindR_eq_Inr ok_or_eq psub_eq
    by (elim exE conjE, intro exI conjI) (assumption | simp split: if_splits)+
  then obtain total_in available total_out ctx where
      a: "check_transaction_coinbase_maturity v p pov = (Inr () :: ('s, unit) tx_result)"
      "check_transaction_input_amounts p = (Inr total_in :: ('s, u64) tx_result)"
      "checked_add total_in c = Some available"
      "check_transaction_output_values p available r = (Inr total_out :: ('s, u64) tx_result)"
      "total_out \<le> available" "r \<le> available - total_out" "fee = available - total_out - r"
      "flags \<noteq> SkipMassCheck \<Longrightarrow> check_mass_commitment v p = (Inr () :: ('s, unit) tx_result)"
      "check_sequence_lock p pov = (Inr () :: ('s, unit) tx_result)"
      "check_covenant_info env p = Inr ctx"
      "flags \<noteq> SkipScriptChecks \<Longrightarrow> check_scripts env v p ctx = Inr ()"
    by auto
  have "unat fee = unat available - unat total_out - unat r"
    using a(5-7) by (simp add: unat_sub word_le_nat_alt)
  moreover have "unat available = unat total_in + unat c" using a(3) by (simp add: checked_add_eq_Some)
  moreover have "unat total_out = output_sum (outputs (ptx p))" "unat total_out + unat r \<le> unat available"
    using a(4) by (simp_all add: output_values_Inr)
  ultimately show thesis using a that [of total_in total_out ctx] by (simp add: cr)
qed

lemma map_fail_eq_Panic: "Panic = map_fail f e \<longleftrightarrow> e = Panic" "map_fail f e = Panic \<longleftrightarrow> e = Panic"
  by (cases e; simp)+

text \<open>Bounds under which validation cannot panic: those of every network's parameters, and of
  entries created by outputs that passed in isolation.\<close>

definition validator_bounds :: "TransactionValidator \<Rightarrow> bool" where
  "validator_bounds v \<longleftrightarrow> max_tx_inputs v \<le> 2 ^ 32 \<and> max_tx_outputs v \<le> 2 ^ 32 \<and>
     max_script_public_key_len v \<le> 10000 \<and> unat (storage_mass_parameter (mass_calculator v)) \<le> 10 ^ 12 \<and>
     unat (mass_per_sig_op v) \<le> 10 ^ 6 \<and> unat (coinbase_maturity v) < 2 ^ 62"

definition entry_bounds :: "TransactionValidator \<Rightarrow> UtxoEntry \<Rightarrow> bool" where
  "entry_bounds v e \<longleftrightarrow> 0 < unat (amount e) \<and> length (spk_script (entry_spk e)) \<le> max_script_public_key_len v \<and>
     unat (block_daa_score e) < 2 ^ 62"

lemma fold_units_no_panic: "(\<And>x. x \<in> set xs \<Longrightarrow> f x \<noteq> Inl Panic) \<Longrightarrow> fold_result (\<lambda>_. f) () xs \<noteq> Inl Panic"
  by (induction xs) (auto simp: bindR_eq_Inl)

lemma maturity_no_panic:
  assumes "validator_bounds v" and "\<forall>e \<in> set (entries p). entry_bounds v e"
  shows "check_transaction_coinbase_maturity v p pov \<noteq> Inl Panic"
  unfolding check_transaction_coinbase_maturity_def
proof (rule fold_units_no_panic)
  fix x assume "x \<in> set (enumerate 0 (populated_inputs p))"
  then have "snd x \<in> set (populated_inputs p)" by (simp add: in_set_enumerate_eq) (metis nth_mem)
  moreover obtain i inp e where x: "x = (i, inp, e)" by (rule prod_cases3)
  ultimately have "e \<in> set (entries p)" by (auto simp: populated_inputs_def dest: set_zip_rightD)
  with assms have "unat (block_daa_score e) < 2 ^ 62" "unat (coinbase_maturity v) < 2 ^ 62"
    by (simp_all add: entry_bounds_def validator_bounds_def)
  then have "(padd (block_daa_score e) (coinbase_maturity v) :: ('a, u64) tx_result) =
      Inr (block_daa_score e + coinbase_maturity v)"
    by (intro padd_ok) simp
  then show "check_input_maturity v pov x \<noteq> (Inl Panic :: ('a, unit) tx_result)"
    by (simp add: check_input_maturity_def x)
qed

lemma sint_small: "uint (w :: u64) < 2 ^ 63 \<Longrightarrow> sint w = uint w"
proof -
  assume w: "uint w < 2 ^ 63"
  have "- (2 ^ 63) \<le> uint w" by (rule order_trans [of _ 0]) simp_all
  from signed_take_bit_int_eq_self [OF this w] show "sint w = uint w" by (simp add: sint_uint)
qed

lemma uint_bound: "unat (w :: u64) < 2 ^ n \<Longrightarrow> uint w < 2 ^ n"
  by (drule of_nat_less_iff [where 'a = int, THEN iffD2]) simp

lemma relative_lock_small: "uint (s AND SEQUENCE_LOCK_TIME_MASK :: u64) < 2 ^ 32"
proof -
  have "SEQUENCE_LOCK_TIME_MASK = mask 32" by (simp add: SEQUENCE_LOCK_TIME_MASK_def mask_eq_exp_minus_1)
  then have "s AND SEQUENCE_LOCK_TIME_MASK = take_bit 32 s" by (simp add: take_bit_eq_mask)
  then show ?thesis using take_bit_int_less_exp [of 32 "uint s"] by (simp add: unsigned_take_bit_eq)
qed

lemma i64_checked_ok: "- (2 ^ 63) \<le> n \<Longrightarrow> n < 2 ^ 63 \<Longrightarrow> i64_checked n = Inr (of_int n)"
  and sint_of_int: "- (2 ^ 63) \<le> n \<Longrightarrow> n < 2 ^ 63 \<Longrightarrow> sint (of_int n :: i64) = n"
  by (simp_all add: i64_checked_def signed_of_int signed_take_bit_int_eq_self)

text \<open>The relative lock of an input, where the signed arithmetic does not overflow.\<close>

lemma input_sequence_lock_eq:
  assumes "unat (block_daa_score e) < 2 ^ 62"
  shows "check_input_sequence_lock pov (inp, e) =
    (if sequence inp AND SEQUENCE_LOCK_TIME_DISABLED \<noteq> SEQUENCE_LOCK_TIME_DISABLED \<and>
        sint pov < uint (block_daa_score e) + uint (sequence inp AND SEQUENCE_LOCK_TIME_MASK)
     then Inl (Err SequenceLockConditionsAreNotMet) else Inr ())"
proof -
  let ?lock = "sequence inp AND SEQUENCE_LOCK_TIME_MASK"
  define n where "n = uint (block_daa_score e) + uint ?lock"
  have lock: "uint ?lock < 2 ^ 32" by (rule relative_lock_small)
  have daa: "uint (block_daa_score e) < 2 ^ 62" using assms by (rule uint_bound)
  have n: "0 \<le> n" "n < 2 ^ 63" using lock daa by (simp_all add: n_def)
  have "sint (block_daa_score e) + sint ?lock = n" using lock daa by (simp add: sint_small n_def)
  moreover have "i64_checked n = (Inr (of_int n) :: ('a, i64) tx_result)"
      "i64_checked (n - 1) = (Inr (of_int (n - 1)) :: ('a, i64) tx_result)"
    using n by (intro i64_checked_ok; linarith)+
  moreover have "sint (of_int n :: i64) = n" "sint (of_int (n - 1) :: i64) = n - 1"
    using n by (intro sint_of_int; linarith)+
  ultimately show ?thesis
    unfolding check_input_sequence_lock_def Let_def prod.case n_def [symmetric]
    by (simp del: of_int_diff)
qed

lemma sequence_lock_no_panic:
  assumes "\<forall>e \<in> set (entries p). entry_bounds v e"
  shows "check_sequence_lock p pov \<noteq> Inl Panic"
  unfolding check_sequence_lock_def
proof (rule fold_units_no_panic)
  fix x assume "x \<in> set (populated_inputs p)"
  moreover obtain inp e where x: "x = (inp, e)" by fastforce
  ultimately have "e \<in> set (entries p)" by (auto simp: populated_inputs_def dest: set_zip_rightD)
  with assms have "unat (block_daa_score e) < 2 ^ 62" by (simp add: entry_bounds_def)
  then show "check_input_sequence_lock pov x \<noteq> (Inl Panic :: ('a, unit) tx_result)"
    by (simp add: x input_sequence_lock_eq)
qed

text \<open>The scripts run on every input and on nothing else, without a panic.\<close>

definition scripts_run :: "'s TxEnv \<Rightarrow> PopulatedTransaction \<Rightarrow> bool" where
  "scripts_run env p \<longleftrightarrow> set (par_order env (length (inputs (ptx p)))) = {..<length (inputs (ptx p))} \<and>
     (\<forall>ctx units i limit. i < length (inputs (ptx p)) \<longrightarrow> vm_execute env p ctx units i limit \<noteq> Inl Panic)"

lemma scripts_no_panic:
  assumes "validator_bounds v" and "scripts_run env p"
  shows "check_scripts env v p ctx \<noteq> Inl Panic"
proof -
  have "(pmul (mass_per_sig_op v) SCRIPT_UNITS_PER_GRAM :: ('a, u64) tx_result) \<noteq> Inl Panic"
    using assms by (simp add: pmul_eq validator_bounds_def SCRIPT_UNITS_PER_GRAM_def)
  moreover have "check_input_script env p ctx units i \<noteq> Inl Panic" if "i < length (inputs (ptx p))" for units i
    using assms(2) that by (auto simp: check_input_script_def map_err_eq map_fail_eq_Panic Let_def scripts_run_def)
  then have "fold_result (\<lambda>_. check_input_script env p ctx units) () xs \<noteq> Inl Panic"
    if "set xs \<subseteq> {..<length (inputs (ptx p))}" for units xs
    using that by (intro fold_units_no_panic) auto
  ultimately show ?thesis
    using assms(2)
    by (simp add: lessThan_atLeast0 scripts_run_def check_scripts_def bindR_eq_Inl check_scripts_of_def check_scripts_sequential_def check_scripts_par_iter_def)
qed

lemma mass_commitment_no_panic:
  assumes "validator_bounds v" and "\<forall>e \<in> set (entries p). entry_bounds v e"
    and "tx_well_formed env v (ptx p) daa" and "length (inputs (ptx p)) = length (entries p)"
    and "input_sum (populated_inputs p) \<le> unat MAX_SOMPI"
  shows "check_mass_commitment v p \<noteq> Inl Panic"
proof (cases "is_coinbase (ptx p)")
  case True
  then show ?thesis by (simp add: check_mass_commitment_def calc_contextual_masses_def calc_storage_mass_def)
next
  case False
  let ?ins = "map (\<lambda>(_, e). UtxoCell_from_entry e) (populated_inputs p)" and ?outs = "map UtxoCell_from_output (outputs (ptx p))"
  let ?C = "storage_mass_parameter (mass_calculator v)"
  have C: "unat ?C \<le> 10 ^ 12" using assms(1) by (simp add: validator_bounds_def)
  have len: "length ?ins \<le> 2 ^ 32" "length ?outs \<le> 2 ^ 32"
    using assms(1,3,4) False by (auto simp: validator_bounds_def tx_well_formed_def populated_inputs_def)
  have ins: "cell_ok cell \<and> unat (plurality cell) \<le> 102" if "cell \<in> set ?ins" for cell
  proof -
    obtain e where "e \<in> set (entries p)" and cell: "cell = UtxoCell_from_entry e"
      using \<open>cell \<in> set ?ins\<close> by (auto simp: populated_inputs_def dest: set_zip_rightD)
    with assms(1,2) have "length (spk_script (entry_spk e)) \<le> 10000" "0 < unat (amount e)"
      by (auto simp: entry_bounds_def validator_bounds_def dest!: bspec)
    then show ?thesis by (simp add: cell UtxoCell_from_entry_def cell_ok_def utxo_plurality_bounds)
  qed
  have outs: "cell_ok cell \<and> unat (plurality cell) \<le> 102" if "cell \<in> set ?outs" for cell
  proof -
    obtain out where "out \<in> set (outputs (ptx p))" and cell: "cell = UtxoCell_from_output out"
      using \<open>cell \<in> set ?outs\<close> by auto
    with assms(1,3) have "length (spk_script (out_spk out)) \<le> 10000" "out_value out \<noteq> 0"
      by (auto simp: tx_well_formed_def validator_bounds_def dest!: bspec)
    then show ?thesis
      by (simp add: cell UtxoCell_from_output_def cell_ok_def utxo_plurality_bounds word_unat_eq_iff)
  qed
  have "amount_sum ?ins = input_sum (populated_inputs p)"
    by (simp add: amount_sum_def input_sum_def UtxoCell_from_entry_def comp_def split_def)
  then have "amount_sum ?ins < 2 ^ 64" using assms(5) by (simp add: unat_MAX_SOMPI)
  moreover have "plurality_sum ?ins < 2 ^ 64" "plurality_sum ?outs < 2 ^ 64"
    using plurality_sum_small [of ?ins] plurality_sum_small [of ?outs] ins outs len by fastforce+
  moreover have "\<forall>cell \<in> set ?ins. product_fits ?C cell" using ins C product_fits_small by blast
  moreover have "\<forall>cell \<in> set ?ins \<union> set ?outs. cell_ok cell" using ins outs by blast
  ultimately have "calc_storage_mass False ?ins ?outs ?C \<noteq> Inl Panic" by (simp add: storage_mass_eq)
  then show ?thesis
    using False by (auto simp: check_mass_commitment_def calc_contextual_masses_def bindR_eq_Inl map_err_eq map_fail_eq_Panic)
qed

lemma populated_no_panic:
  fixes env :: "'s TxEnv"
  assumes "validator_bounds v" and "\<forall>e \<in> set (entries p). entry_bounds v e"
    and "tx_well_formed env v (ptx p) daa" and "length (inputs (ptx p)) = length (entries p)"
    and "\<forall>m r. threshold = Some (m, r) \<longrightarrow> m \<noteq> 0" and "scripts_run env p"
  shows "validate_populated_transaction_and_get_fee env v p pov flags threshold pool_petals \<noteq> Inl Panic"
proof
  assume *: "validate_populated_transaction_and_get_fee env v p pov flags threshold pool_petals = Inl Panic"
  obtain c r where cr: "(case pool_petals of Some cp \<Rightarrow> cp | None \<Rightarrow> (0, 0)) = (c, r)" by fastforce
  have sum: "output_sum (outputs (ptx p)) < 2 ^ 64" using assms(3) by (simp add: tx_well_formed_def unat_MAX_SOMPI)
  have no_panic: "check_transaction_coinbase_maturity v p pov \<noteq> (Inl Panic :: ('s, unit) tx_result)"
      "check_transaction_input_amounts p \<noteq> (Inl Panic :: ('s, u64) tx_result)"
      "check_sequence_lock p pov \<noteq> (Inl Panic :: ('s, unit) tx_result)"
      "check_covenant_info env p \<noteq> Inl Panic" "check_scripts env v p ctx \<noteq> Inl Panic" for ctx
    using assms from_tx_no_panic [of p]
    by (auto simp: maturity_no_panic sequence_lock_no_panic scripts_no_panic check_transaction_input_amounts_def
        input_amounts_no_panic check_covenant_info_def map_err_eq map_fail_eq_Panic)
  have feerate: "check_feerate_threshold env fee threshold \<noteq> Inl Panic" for fee
    using assms(5) by (auto simp: check_feerate_threshold_def split: option.split prod.split)
  have out: "check_transaction_output_values p available r \<noteq> (Inl Panic :: ('s, u64) tx_result)" for available
    using sum by (auto simp: check_transaction_output_values_def bindR_eq_Inl psum_Inl ok_or_eq output_sum_def comp_def)
  have mass: "check_mass_commitment v p \<noteq> (Inl Panic :: ('s, unit) tx_result)"
    if "check_transaction_input_amounts p = (Inr total_in :: ('s, u64) tx_result)" for total_in
  proof (rule mass_commitment_no_panic [OF assms(1-4)])
    show "input_sum (populated_inputs p) \<le> unat MAX_SOMPI"
      using input_amounts_bound [OF that [unfolded check_transaction_input_amounts_def]]
        input_amounts_Inr [OF that [unfolded check_transaction_input_amounts_def]] by simp
  qed
  have sub: "total_out \<le> available \<and> r \<le> available - total_out"
    if "check_transaction_output_values p available r = (Inr total_out :: ('s, u64) tx_result)" for available total_out
    using that by (auto simp: output_values_Inr word_le_nat_alt unat_sub)
  from * show False
    unfolding validate_populated_transaction_and_get_fee_def cr Let_def prod.case
    by (auto simp: bindR_eq_Inl no_panic feerate out mass ok_or_eq psub_eq dest!: sub split: if_splits)
qed

section \<open>A sample transaction\<close>

text \<open>Two inputs of 2 and 1 coins pay an output of 2.5 coins; half a coin is the fee.  The
  validator has the main network's limits, the engine accepts every script.\<close>

definition sample_validator :: TransactionValidator where
  "sample_validator = \<lparr>max_tx_inputs = 1000, max_tx_outputs = 1000, max_signature_script_len = 250000,
     max_script_public_key_len = 10000, coinbase_payload_script_public_key_max_len = 150,
     coinbase_maturity = 1000, ghostdag_k = 124, wide_lanes_activation = fork_never, mass_per_sig_op = 1000,
     finality_anchor_params = LAUNCH_UNKEYED,
     mass_calculator = \<lparr>mass_per_tx_byte = 1, mass_per_script_pub_key_byte = 10, storage_mass_parameter = 1000000000000\<rparr>\<rparr>"

definition sample_env :: "unit TxEnv" where
  "sample_env = \<lparr>PoolOp_decode_payload = \<lambda>_. None, AnchorPayload_decode_payload = \<lambda>_. None,
     trustee_crypto = plain_trustee_crypto, covenant_id_hash = \<lambda>op _. transaction_id op,
     vm_execute = \<lambda>_ _ _ _ _. Inr (), par_order = \<lambda>n. rev [0..<n], feerate_at_most = \<lambda>fee m t. fee div m \<le> t\<rparr>"

definition sample_spk :: ScriptPublicKey where
  "sample_spk = \<lparr>spk_version = 0, spk_script = 0x20 # replicate 32 5 @ [0xac]\<rparr>"

definition sample_tx :: Transaction where
  "sample_tx = \<lparr>version = 0,
     inputs = map (\<lambda>i. \<lparr>previous_outpoint = \<lparr>transaction_id = replicate 32 1, outpoint_index = i\<rparr>,
       signature_script = 0x41 # replicate 32 5 @ replicate 32 1 @ [1],
       sequence = 2, compute_commit = SigopCount 1\<rparr>) [0, 1],
     outputs = [\<lparr>out_value = 250000000, out_spk = sample_spk, covenant = None\<rparr>],
     lock_time = 70, subnetwork_id = SUBNETWORK_ID_NATIVE, gas = 0, payload = [], storage_mass = 0, tx_id = [9]\<rparr>"

definition sample_populated :: PopulatedTransaction where
  "sample_populated = \<lparr>ptx = sample_tx,
     entries = [\<lparr>amount = 200000000, entry_spk = sample_spk, block_daa_score = 50, entry_is_coinbase = True, covenant_id = None\<rparr>,
       \<lparr>amount = 100000000, entry_spk = sample_spk, block_daa_score = 60, entry_is_coinbase = False, covenant_id = None\<rparr>]\<rparr>"

lemma native_lane:
  "SUBNETWORK_ID_NATIVE \<noteq> SUBNETWORK_ID_COINBASE" "SUBNETWORK_ID_NATIVE \<noteq> SUBNETWORK_ID_NOTE_POOL"
  "SUBNETWORK_ID_NATIVE \<noteq> SUBNETWORK_ID_FINALITY_ANCHOR" "tl SUBNETWORK_ID_NATIVE = ZEROES_19" "hd SUBNETWORK_ID_NATIVE = 0"
  by code_simp+

lemma sample_well_formed: "tx_well_formed sample_env sample_validator sample_tx 5000"
  by (simp add: tx_well_formed_def sample_tx_def sample_validator_def sample_spk_def is_coinbase_def gas_ok_def lane_ok_def
      version_fields_ok_def payload_ok_def output_sum_def unat_MAX_SOMPI TX_VERSION_TOCCATA_def native_lane)

lemma sample_amounts:
  "check_transaction_input_amounts sample_populated = Inr 300000000"
  "check_transaction_output_values sample_populated 300000000 0 = Inr 250000000"
  by (simp_all add: check_transaction_input_amounts_def populated_inputs_def sample_populated_def sample_tx_def
      add_input_amount_def checked_add_def MAX_SOMPI_def SOMPI_PER_KASPA_def output_values_Inr output_sum_def)

lemma sample_maturity: "check_transaction_coinbase_maturity sample_validator sample_populated 5000 = Inr ()"
  by (simp add: check_transaction_coinbase_maturity_def check_input_maturity_def populated_inputs_def sample_populated_def
      sample_tx_def sample_validator_def padd_def unwrap_def checked_add_def)

lemma sample_mass: "check_mass_commitment sample_validator sample_populated = Inr ()"
proof -
  have plur: "utxo_plurality sample_spk False = 1"
    by (simp add: utxo_plurality_def sample_spk_def nat_div_ceil_def UTXO_CONST_STORAGE_def UTXO_UNIT_SIZE_def)
  let ?ins = "[\<lparr>plurality = 1, cell_amount = 200000000\<rparr>, \<lparr>plurality = 1, cell_amount = 100000000\<rparr>]"
    and ?outs = "[\<lparr>plurality = 1, cell_amount = 250000000\<rparr>]"
  have "calc_storage_mass False ?ins ?outs 1000000000000 = Inr 0"
    using storage_mass_eq [of ?ins ?outs 1000000000000]
    by (simp add: cell_ok_def product_fits_def plurality_sum_def amount_sum_def harmonic_sum_def cell_share_def
        storage_mass_formula_def)
  then show ?thesis
    by (simp add: check_mass_commitment_def calc_contextual_masses_def sample_populated_def sample_tx_def sample_validator_def
        is_coinbase_def native_lane populated_inputs_def UtxoCell_from_entry_def UtxoCell_from_output_def plur)
qed

lemma sample_locks: "check_sequence_lock sample_populated 5000 = Inr ()"
proof -
  have "(2 :: u64) AND SEQUENCE_LOCK_TIME_MASK = 2" by (simp add: SEQUENCE_LOCK_TIME_MASK_def)
  then show ?thesis
    by (simp add: check_sequence_lock_def populated_inputs_def sample_populated_def sample_tx_def input_sequence_lock_eq)
qed

lemma sample_scripts:
  "check_covenant_info sample_env sample_populated = Inr \<lparr>input_ctxs = [], shared_ctxs = []\<rparr>"
  "check_scripts sample_env sample_validator sample_populated ctx = Inr ()"
  by (simp_all add: check_covenant_info_def CovenantsContext_from_tx_def collect_output_def push_covenant_input_def
      check_scripts_def check_scripts_of_def check_scripts_par_iter_def check_scripts_sequential_def check_input_script_def
      sample_env_def sample_populated_def sample_tx_def populated_inputs_def sample_validator_def pmul_def unwrap_def
      checked_mul_def SCRIPT_UNITS_PER_GRAM_def fold_units_Inr)

lemma sample_passes:
  "validate_tx_in_isolation sample_env sample_validator sample_tx 5000 = Inr ()"
  "validate_populated_transaction_and_get_fee sample_env sample_validator sample_populated 5000 Full None None = Inr 50000000"
proof -
  have "length (outputs sample_tx) < 2 ^ 64" "subnetwork_id sample_tx \<noteq> []"
    using native_lane(5) by (auto simp: sample_tx_def SUBNETWORK_ID_NATIVE_def from_byte_def SUBNETWORK_ID_SIZE_def)
  then show "validate_tx_in_isolation sample_env sample_validator sample_tx 5000 = Inr ()"
    by (simp add: validate_in_isolation_iff sample_well_formed)
  show "validate_populated_transaction_and_get_fee sample_env sample_validator sample_populated 5000 Full None None = Inr 50000000"
    by (simp add: validate_populated_transaction_and_get_fee_def sample_maturity sample_amounts sample_mass sample_locks
        sample_scripts check_feerate_threshold_def psub_def unwrap_def checked_sub_def checked_add_def)
qed

section \<open>Properties\<close>

text \<open>C20: Isolation is exact.  \<open>validate_tx_in_isolation\<close> accepts a transaction if and only if it is
  well formed: counts and script lengths within the limits, inputs present and distinct (only
  coinbase, note-pool and anchor transactions may have none), the coinbase rules, positive output
  values whose sum is at most the money supply, a known version with the fields of that version,
  gas and lane rules, and a valid payload on the note-pool and anchor lanes.\<close>

theorem tx_isolation_exact:
  assumes "length (outputs t) < 2 ^ 64" and "subnetwork_id t \<noteq> []"
  shows "validate_tx_in_isolation env v t pov = Inr () \<longleftrightarrow> tx_well_formed env v t pov"
  using assms by (rule validate_in_isolation_iff)

theorem tx_isolation_exact_witness: "validate_tx_in_isolation sample_env sample_validator sample_tx 5000 = Inr ()"
proof -
  have "length (outputs sample_tx) < 2 ^ 64" "subnetwork_id sample_tx \<noteq> []"
    by (simp_all add: sample_tx_def SUBNETWORK_ID_NATIVE_def from_byte_def SUBNETWORK_ID_SIZE_def)
  with tx_isolation_exact [of sample_tx sample_env sample_validator 5000] sample_well_formed show ?thesis by blast
qed

text \<open>C4: Value is conserved.  When a populated transaction is accepted with fee \<open>fee\<close>, its inputs
  and the notes its pool operation consumes are worth exactly its outputs, the notes it produces
  and the fee, over the natural numbers; no sum wrapped.\<close>

theorem tx_conserves_value:
  fixes env :: "'s TxEnv"
  assumes "validate_populated_transaction_and_get_fee env v p pov flags threshold pool_petals = Inr fee"
  shows "input_sum (populated_inputs p) + unat (fst (case pool_petals of Some cp \<Rightarrow> cp | None \<Rightarrow> (0, 0))) =
      output_sum (outputs (ptx p)) + unat (snd (case pool_petals of Some cp \<Rightarrow> cp | None \<Rightarrow> (0, 0))) + unat fee \<and>
    input_sum (populated_inputs p) \<le> unat MAX_SOMPI"
proof -
  from assms obtain total_in total_out where
      "check_transaction_input_amounts p = (Inr total_in :: ('s, u64) tx_result)" "unat total_out = output_sum (outputs (ptx p))"
      "unat total_in + unat (fst (case pool_petals of Some cp \<Rightarrow> cp | None \<Rightarrow> (0, 0))) =
        unat (total_out :: u64) + unat (snd (case pool_petals of Some cp \<Rightarrow> cp | None \<Rightarrow> (0, 0))) + unat fee"
    by (rule validate_populated_Inr)
  then show ?thesis
    using input_amounts_Inr [of 0 "populated_inputs p" total_in, where 'a = 's]
      input_amounts_bound [of 0 "populated_inputs p" total_in, where 'a = 's]
    by (simp add: check_transaction_input_amounts_def)
qed

theorem tx_conserves_value_witness:
  "input_sum (populated_inputs sample_populated) = output_sum (outputs sample_tx) + 50000000"
  using tx_conserves_value [OF sample_passes(2)] by (simp add: sample_populated_def)

lemma validated_no_panic:
  assumes "validator_bounds v" and "\<forall>e \<in> set (entries p). entry_bounds v e"
    and "validate_tx_in_isolation env v (ptx p) daa = Inr ()" and "length (outputs (ptx p)) < 2 ^ 64"
    and "subnetwork_id (ptx p) \<noteq> []" and "length (inputs (ptx p)) = length (entries p)"
    and "\<forall>m r. threshold = Some (m, r) \<longrightarrow> m \<noteq> 0" and "scripts_run env p"
  shows "validate_populated_transaction_and_get_fee env v p pov flags threshold pool_petals \<noteq> Inl Panic"
  using assms by (intro populated_no_panic) (simp_all add: validate_in_isolation_iff [symmetric])

text \<open>C33: Spends respect maturity and relative locks.  In an accepted transaction every coinbase
  entry is at least \<open>coinbase_maturity\<close> old, and every input whose lock is not disabled is at
  least as old as its sequence number demands.\<close>

theorem tx_spends_mature:
  fixes env :: "'s TxEnv"
  assumes "validate_populated_transaction_and_get_fee env v p pov flags threshold pool_petals = Inr fee"
    and "(inp, e) \<in> set (populated_inputs p)" and "unat (block_daa_score e) < 2 ^ 62"
  shows "(entry_is_coinbase e \<longrightarrow> unat (block_daa_score e) + unat (coinbase_maturity v) \<le> unat pov) \<and>
    (sequence inp AND SEQUENCE_LOCK_TIME_DISABLED \<noteq> SEQUENCE_LOCK_TIME_DISABLED \<longrightarrow>
      uint (block_daa_score e) + uint (sequence inp AND SEQUENCE_LOCK_TIME_MASK) \<le> sint pov)"
proof -
  from assms(1) have mature: "check_transaction_coinbase_maturity v p pov = (Inr () :: ('s, unit) tx_result)"
    and lock: "check_sequence_lock p pov = (Inr () :: ('s, unit) tx_result)"
    by (rule validate_populated_Inr; blast)+
  obtain i where "i < length (populated_inputs p)" "populated_inputs p ! i = (inp, e)"
    using assms(2) by (auto simp: in_set_conv_nth)
  then have "(i, inp, e) \<in> set (enumerate 0 (populated_inputs p))" by (simp add: in_set_enumerate_eq)
  with mature have "check_input_maturity v pov (i, inp, e) = (Inr () :: ('s, unit) tx_result)"
    by (auto simp: check_transaction_coinbase_maturity_def fold_units_Inr)
  moreover from lock assms(2) have "check_input_sequence_lock pov (inp, e) = (Inr () :: ('s, unit) tx_result)"
    by (auto simp: check_sequence_lock_def fold_units_Inr)
  ultimately show ?thesis
    using assms(3)
    by (auto simp: check_input_maturity_def input_sequence_lock_eq bindR_eq_Inr padd_eq word_less_nat_alt not_less
        split: if_splits)
qed

theorem tx_spends_mature_witness: "unat (50 :: u64) + unat (coinbase_maturity sample_validator) \<le> unat (5000 :: u64)"
  using tx_spends_mature [OF sample_passes(2), of "hd (inputs sample_tx)" "hd (entries sample_populated)"]
  by (simp add: sample_populated_def sample_tx_def populated_inputs_def)

text \<open>Parallel script checking changes no verdict.  Whatever order the thread pool runs the
  inputs in, \<open>check_scripts\<close> accepts if and only if the sequential loop does.\<close>

lemma parallel_scripts_agree:
  assumes "set (par_order env (length (inputs (ptx p)))) = {..<length (inputs (ptx p))}"
  shows "check_scripts_of env p ctx units = Inr () \<longleftrightarrow> check_scripts_sequential env p ctx units = Inr ()"
  using assms
  by (auto simp: check_scripts_of_def check_scripts_par_iter_def check_scripts_sequential_def fold_units_Inr)

lemma parallel_scripts_agree_witness:
  "check_scripts_of sample_env sample_populated \<lparr>input_ctxs = [], shared_ctxs = []\<rparr> 7 = Inr () \<longleftrightarrow>
   check_scripts_sequential sample_env sample_populated \<lparr>input_ctxs = [], shared_ctxs = []\<rparr> 7 = Inr ()"
  by (rule parallel_scripts_agree) (auto simp: sample_env_def)

text \<open>Finality of a transaction.  It is final in a block exactly when its lock time is zero, or
  lies below the block's DAA score or, from the threshold on, below its median time, or every input
  opted out with the maximal sequence number; a transaction final in a block stays final in blocks
  of higher score and time.\<close>

lemma tx_finality_exact:
  "(validate_tx_in_header_context_with_args t daa time = (Inr () :: ('s, unit) tx_result) \<longleftrightarrow>
     lock_time t = 0 \<or> lock_time t < (if lock_time t < LOCK_TIME_THRESHOLD then daa else time) \<or>
     (\<forall>inp \<in> set (inputs t). sequence inp = - 1)) \<and>
   (validate_tx_in_header_context_with_args t daa time = (Inr () :: ('s, unit) tx_result) \<longrightarrow> daa \<le> daa' \<longrightarrow> time \<le> time' \<longrightarrow>
     validate_tx_in_header_context_with_args t daa' time' = (Inr () :: ('s, unit) tx_result))"
proof -
  have "check_inputs_final t = (Inr () :: ('s, unit) tx_result) \<longleftrightarrow> (\<forall>inp \<in> set (inputs t). sequence inp = - 1)"
    by (auto simp: check_inputs_final_def fold_enumerate_units all_set_conv_all_nth split: if_splits)
  then have "validate_tx_in_header_context_with_args t d m = (Inr () :: ('s, unit) tx_result) \<longleftrightarrow>
     lock_time t = 0 \<or> lock_time t < (if lock_time t < LOCK_TIME_THRESHOLD then d else m) \<or>
     (\<forall>inp \<in> set (inputs t). sequence inp = - 1)" for d m
    by (auto simp: validate_tx_in_header_context_with_args_def validate_tx_in_header_context_def get_lock_time_type_def)
  then show ?thesis by (auto dest: order.strict_trans2 split: if_splits)
qed

lemma tx_finality_exact_witness:
  "validate_tx_in_header_context_with_args sample_tx 71 0 = (Inr () :: (unit, unit) tx_result) \<and>
   validate_tx_in_header_context_with_args sample_tx 5000 9 = (Inr () :: (unit, unit) tx_result)"
proof -
  have "lock_time sample_tx = 70" by (simp add: sample_tx_def)
  then show ?thesis
    using tx_finality_exact [of sample_tx 71 0 5000 9, where 's = unit] by (auto simp: LOCK_TIME_THRESHOLD_def)
qed

end
