(* ===== verification/Coinbase.thy ===== *)
theory Coinbase
  imports Tx_Validation
begin

text \<open>
  Block rewards: \<^verbatim>\<open>src/consensus/src/processes/coinbase.rs\<close> with its types in
  \<^verbatim>\<open>src/consensus/core/src/coinbase.rs\<close> and \<open>ForkedParam\<close> of
  \<^verbatim>\<open>src/consensus/core/src/config/params.rs\<close>: the subsidy schedule, the payload codec and the
  coinbase transaction a block must carry.  The theorems say that the codec is a bijection on the
  payloads it accepts, that the expected coinbase pays the rewards of the merge set and passes in
  isolation, and what the schedule emits in total.
\<close>

section \<open>Types\<close>

record 'a ForkedParam =
  pre :: 'a
  post :: 'a
  activation :: ForkActivation

definition ForkedParam_get :: "'a ForkedParam \<Rightarrow> u64 \<Rightarrow> 'a" where
  "ForkedParam_get p daa_score = (if is_active (activation p) daa_score then post p else pre p)"

definition ForkedParam_before :: "'a ForkedParam \<Rightarrow> 'a" where
  "ForkedParam_before p = (if activation p = fork_always then post p else pre p)"

definition ForkedParam_after :: "'a ForkedParam \<Rightarrow> 'a" where
  "ForkedParam_after p = (if activation p = fork_never then pre p else post p)"

record MinerData =
  miner_spk :: ScriptPublicKey
  extra_data :: bytes

record CoinbaseData =
  cb_blue_score :: u64
  cb_subsidy :: u64
  miner_data :: MinerData

record BlockRewardData =
  reward_subsidy :: u64
  total_fees :: u64
  reward_spk :: ScriptPublicKey

record CoinbaseTransactionTemplate =
  template_tx :: Transaction
  has_red_reward :: bool

datatype CoinbaseError =
    PayloadLenBelowMin nat nat
  | PayloadLenAboveMax nat nat
  | PayloadScriptPublicKeyLenAboveMax nat u8
  | PayloadCantContainScriptPublicKey nat nat

type_synonym 'a coinbase_result = "(CoinbaseError, 'a) outcome"

text \<open>The fields of \<open>GhostdagData\<close> the coinbase reads.\<close>

record GhostdagRewards =
  gd_blue_score :: u64
  mergeset_blues :: "hash list"
  mergeset_reds :: "hash list"

section \<open>The subsidy schedule\<close>

definition SECONDS_PER_MONTH :: u64 where "SECONDS_PER_MONTH = 2629800"

definition SUBSIDY_BY_MONTH_TABLE :: "u64 list" where
  "SUBSIDY_BY_MONTH_TABLE = [
      152280843, 149376860, 146528257, 143733976, 140992981, 138304258, 135666807, 133079653, 130541836, 128052415, 125610466, 123215086, 120865385, 118560493, 116299554,
      114081732, 111906203, 109772162, 107678816, 105625391, 103611124, 101635269, 99697093, 97795878, 95930920, 94101525, 92307017, 90546731, 88820013, 87126223,
      85464733, 83834928, 82236204, 80667966, 79129635, 77620640, 76140421, 74688430, 73264128, 71866988, 70496491, 69152129, 67833404, 66539827, 65270918,
      64026207, 62805233, 61607543, 60432692, 59280246, 58149777, 57040866, 55953102, 54886081, 53839408, 52812695, 51805562, 50817634, 49848547, 48897939,
      47965460, 47050763, 46153509, 45273365, 44410006, 43563111, 42732367, 41917464, 41118102, 40333983, 39564818, 38810320, 38070211, 37344215, 36632064,
      35933494, 35248245, 34576064, 33916702, 33269913, 32635459, 32013104, 31402617, 30803771, 30216346, 29640123, 29074889, 28520433, 27976551, 27443040,
      26919704, 26406348, 25902781, 25408817, 24924273, 24448970, 23982730, 23525381, 23076754, 22636683, 22205003, 21781556, 21366183, 20958732, 20559051,
      20166992, 19782409, 19405160, 19035105, 18672108, 18316032, 17966747, 17624123, 17288032, 16958351, 16634957, 16317730, 16006552, 15701308, 15401886,
      15108173, 14820062, 14537444, 14260217, 13988275, 13721520, 13459852, 13203174, 12951390, 12704409, 12462137, 12224485, 11991365, 11762691, 11538377,
      11318341, 11102502, 10890778, 10683092, 10479366, 10279525, 10083496, 9891204, 9702580, 9517553, 9336054, 9158016, 8983373, 8812061, 8644016,
      8479175, 8317478, 8158865, 8003276, 7850654, 7700943, 7554087, 7410031, 7268722, 7130108, 6994138, 6860760, 6729926, 6601587, 6475695,
      6352204, 6231068, 6112242, 5995682, 5881345, 5769189, 5659171, 5551251, 5445389, 5341546, 5239683, 5139763, 5041748, 4945602, 4851290,
      4758776, 4668027, 4579008, 4491687, 4406031, 4322008, 4239588, 4158739, 4079432, 4001638, 3925327, 3850471, 3777043, 3705015, 3634361,
      3565054, 3497069, 3430380, 3364963, 3300793, 3237848, 3176102, 3115534, 3056121, 2997841, 2940673, 2884594, 2829585, 2775625, 2722694,
      2670773, 2619842, 2569881, 2520874, 2472801, 2425645, 2379388, 2334013, 2289504, 2245843, 2203015, 2161004, 2119794, 2079370, 2039716,
      2000819, 1962664, 1925236, 1888522, 1852508, 1817181, 1782527, 1748534, 1715190, 1682482, 1650397, 1618924, 1588051, 1557767, 1528061,
      1498921, 1470336, 1442297, 1414793, 1387813, 1361347, 1335386, 1309921, 1284941, 1260437, 1236401, 1212823, 1189694, 1167007, 1144752,
      1122922, 1101508, 1080502, 1059897, 1039685, 1019858, 1000409, 981332, 962618, 944261, 926254, 908590, 891264, 874267, 857595,
      841241, 825198, 809462, 794026, 778884, 764030, 749460, 735168, 721149, 707396, 693906, 680674, 667693, 654960, 642470,
      630218, 618200, 606411, 594847, 583503, 572376, 561461, 550754, 540251, 529948, 519842, 509929, 500205, 490666, 481309,
      472130, 463127, 454295, 445632, 437134, 428798, 420620, 412599, 404731, 397013, 389442, 382015, 374730, 367584, 360574,
      353698, 346953, 340337, 333847, 327480, 321235, 315109, 309100, 303206, 297424, 291752, 286188, 280730, 275377, 270126,
      264974, 259921, 254965, 250102, 245333, 240654, 236065, 231563, 227148, 222816, 218567, 214399, 210310, 206300, 202365,
      198506, 194721, 191008, 187365, 183792, 180287, 176849, 173477, 170168, 166923, 163740, 160618, 157555, 154550, 151603,
      148712, 145876, 143094, 140365, 137688, 135063, 132487, 129961, 127482, 125051, 122666, 120327, 118033, 115782, 113574,
      111408, 109283, 107199, 105155, 103150, 101183, 99253, 97360, 95504, 93683, 91896, 90144, 88425, 86738, 85084,
      83462, 81870, 80309, 78777, 77275, 75801, 74356, 72938, 71547, 70183, 68844, 67531, 66244, 64980, 63741,
      62526, 61333, 60164, 59016, 57891, 56787, 55704, 54642, 53600, 52578, 51575, 50591, 49627, 48680, 47752,
      46841, 45948, 45072, 44212, 43369, 42542, 41731, 40935, 40154, 39389, 38638, 37901, 37178, 36469, 35774,
      35091, 34422, 33766, 33122, 32490, 31871, 31263, 30667, 30082, 29508, 28945, 28393, 27852, 27321, 26800,
      26289, 25787, 25296, 24813, 24340, 23876, 23421, 22974, 22536, 22106, 21685, 21271, 20865, 20468, 20077,
      19694, 19319, 18950, 18589, 18234, 17887, 17546, 17211, 16883, 16561, 16245, 15935, 15631, 15333, 15041,
      14754, 14473, 14197, 13926, 13660, 13400, 13144, 12894, 12648, 12407, 12170, 11938, 11710, 11487, 11268,
      11053, 10842, 10636, 10433, 10234, 10039, 9847, 9659, 9475, 9294, 9117, 8943, 8773, 8606, 8441,
      8280, 8123, 7968, 7816, 7667, 7520, 7377, 7236, 7098, 6963, 6830, 6700, 6572, 6447, 6324,
      6203, 6085, 5969, 5855, 5744, 5634, 5527, 5421, 5318, 5216, 5117, 5019, 4924, 4830, 4738,
      4647, 4559, 4472, 4386, 4303, 4221, 4140, 4061, 3984, 3908, 3833, 3760, 3689, 3618, 3549,
      3481, 3415, 3350, 3286, 3223, 3162, 3102, 3043, 2984, 2928, 2872, 2817, 2763, 2711, 2659,
      2608, 2558, 2510, 2462, 2415, 2369, 2324, 2279, 2236, 2193, 2151, 2110, 2070, 2031, 1992,
      1954, 1917, 1880, 1844, 1809, 1775, 1741, 1708, 1675, 1643, 1612, 1581, 1551, 1521, 1492,
      1464, 1436, 1408, 1382, 1355, 1329, 1304, 1279, 1255, 1231, 1207, 1184, 1162, 1140, 1118,
      1097, 1076, 1055, 1035, 1015, 996, 977, 958, 940, 922, 905, 887, 870, 854, 837,
      822, 806, 790, 775, 761, 746, 732, 718, 704, 691, 678, 665, 652, 640, 627,
      615, 604, 592, 581, 570, 559, 548, 538, 528, 518, 508, 498, 488, 479, 470,
      461, 452, 444, 435, 427, 419, 411, 403, 395, 388, 380, 373, 366, 359, 352,
      345, 339, 332, 326, 320, 314, 308, 302, 296, 290, 285, 279, 274, 269, 264,
      259, 254, 249, 244, 240, 235, 231, 226, 222, 218, 213, 209, 205, 201, 198,
      194, 190, 187, 183, 179, 176, 173, 169, 166, 163, 160, 157, 154, 151, 148,
      145, 142, 140, 137, 134, 132, 129, 127, 124, 122, 120, 118, 115, 113, 111,
      109, 107, 105, 103, 101, 99, 97, 95, 93, 91, 90, 88, 86, 85, 83,
      82, 80, 78, 77, 75, 74, 73, 71, 70, 69, 67, 66, 65, 63, 62,
      61, 60, 59, 58, 57, 55, 54, 53, 52, 51, 50, 49, 48, 48, 47,
      46, 45, 44, 43, 42, 42, 41, 40, 39, 38, 38, 37, 36, 36, 35,
      34, 34, 33, 32, 32, 31, 31, 30, 29, 29, 28, 28, 27, 27, 26,
      26, 25, 25, 24, 24, 23, 23, 22, 22, 22, 21, 21, 20, 20, 20,
      19, 19, 19, 18, 18, 17, 17, 17, 16, 16, 16, 16, 15, 15, 15,
      14, 14, 14, 14, 13, 13, 13, 13, 12, 12, 12, 12, 11, 11, 11,
      11, 11, 10, 10, 10, 10, 10, 9, 9, 9, 9, 9, 9, 8, 8,
      8, 8, 8, 8, 7, 7, 7, 7, 7, 7, 7, 7, 6, 6, 6,
      6, 6, 6, 6, 6, 6, 5, 5, 5, 5, 5, 5, 5, 5, 5,
      5, 4, 4, 4, 4, 4, 4, 4, 4, 4, 4, 4, 4, 4, 3,
      3, 3, 3, 3, 3, 3, 3, 3, 3, 3, 3, 3, 3, 3, 3,
      3, 2, 2, 2, 2, 2, 2, 2, 2, 2, 2, 2, 2, 2, 2,
      2, 2, 2, 2, 2, 2, 2, 2, 2, 2, 2, 2, 2, 1, 1,
      1, 1, 1, 1, 1, 1, 1, 1, 1, 1, 1, 1, 1, 1, 1,
      1, 1, 1, 1, 1, 1, 1, 1, 1, 1, 1, 1, 1, 1, 1,
      1, 1, 1, 1, 1, 1, 1, 1, 1, 1, 1, 1, 1, 1, 1,
      1, 1, 1, 1, 1, 1, 1, 1, 1, 1, 0]"

record CoinbaseManager =
  cm_spk_max_len :: u8
  max_coinbase_payload_len :: nat
  deflationary_phase_daa_score :: u64
  pre_deflationary_phase_base_subsidy :: u64
  bps_history :: "u64 ForkedParam"
  subsidy_by_month_table_before :: "u64 list"
  subsidy_by_month_table_after :: "u64 list"
  crescendo_activation_daa_score :: u64

text \<open>\<^verbatim>\<open>div_ceil\<close> panics on a zero divisor.\<close>

definition CoinbaseManager_new :: "u8 \<Rightarrow> nat \<Rightarrow> u64 \<Rightarrow> u64 \<Rightarrow> u64 ForkedParam \<Rightarrow> ('e, CoinbaseManager) outcome" where
  "CoinbaseManager_new spk_max_len max_payload_len deflationary base_subsidy bps =
     (if ForkedParam_before bps = 0 \<or> ForkedParam_after bps = 0 then Inl Panic
      else Inr \<lparr>cm_spk_max_len = spk_max_len, max_coinbase_payload_len = max_payload_len,
        deflationary_phase_daa_score = deflationary, pre_deflationary_phase_base_subsidy = base_subsidy,
        bps_history = bps,
        subsidy_by_month_table_before = map (\<lambda>s. div_ceil s (ForkedParam_before bps)) SUBSIDY_BY_MONTH_TABLE,
        subsidy_by_month_table_after = map (\<lambda>s. div_ceil s (ForkedParam_after bps)) SUBSIDY_BY_MONTH_TABLE,
        crescendo_activation_daa_score = activation bps\<rparr>)"

definition subsidy_month :: "CoinbaseManager \<Rightarrow> u64 \<Rightarrow> ('e, u64) outcome" where
  "subsidy_month m daa_score =
     bindR
       (if crescendo_activation_daa_score m < deflationary_phase_daa_score m then
          bindR (psub daa_score (deflationary_phase_daa_score m)) (\<lambda>d. pdiv d (ForkedParam_after (bps_history m)))
        else if daa_score < crescendo_activation_daa_score m then
          bindR (psub daa_score (deflationary_phase_daa_score m)) (\<lambda>d. pdiv d (ForkedParam_before (bps_history m)))
        else
          bindR (psub (crescendo_activation_daa_score m) (deflationary_phase_daa_score m)) (\<lambda>d.
          bindR (pdiv d (ForkedParam_before (bps_history m))) (\<lambda>before.
          bindR (psub daa_score (crescendo_activation_daa_score m)) (\<lambda>d.
          bindR (pdiv d (ForkedParam_after (bps_history m))) (\<lambda>after.
          padd before after)))))
       (\<lambda>seconds. pdiv seconds SECONDS_PER_MONTH)"

definition calc_block_subsidy :: "CoinbaseManager \<Rightarrow> u64 \<Rightarrow> ('e, u64) outcome" where
  "calc_block_subsidy m daa_score =
     (if daa_score < deflationary_phase_daa_score m then Inr (pre_deflationary_phase_base_subsidy m)
      else
        bindR (subsidy_month m daa_score) (\<lambda>month.
        let table = (if is_active (activation (bps_history m)) daa_score
                     then subsidy_by_month_table_after m else subsidy_by_month_table_before m)
        in if table = [] then Inl Panic else Inr (table ! min (unat month) (length table - 1))))"

section \<open>The payload\<close>

definition LENGTH_OF_BLUE_SCORE :: nat where "LENGTH_OF_BLUE_SCORE = 8"
definition LENGTH_OF_SUBSIDY :: nat where "LENGTH_OF_SUBSIDY = 8"
definition LENGTH_OF_SCRIPT_PUB_KEY_VERSION :: nat where "LENGTH_OF_SCRIPT_PUB_KEY_VERSION = 2"
definition LENGTH_OF_SCRIPT_PUB_KEY_LENGTH :: nat where "LENGTH_OF_SCRIPT_PUB_KEY_LENGTH = 1"

definition MIN_PAYLOAD_LENGTH :: nat where
  "MIN_PAYLOAD_LENGTH = LENGTH_OF_BLUE_SCORE + LENGTH_OF_SUBSIDY + LENGTH_OF_SCRIPT_PUB_KEY_VERSION +
     LENGTH_OF_SCRIPT_PUB_KEY_LENGTH"

definition miner_bytes :: "MinerData \<Rightarrow> bytes" where
  "miner_bytes md =
     u16_to_le_bytes (spk_version (miner_spk md)) @ [of_nat (length (spk_script (miner_spk md)))] @
     spk_script (miner_spk md) @ extra_data md"

definition serialize_coinbase_payload :: "CoinbaseManager \<Rightarrow> CoinbaseData \<Rightarrow> bytes coinbase_result" where
  "serialize_coinbase_payload m d =
     (let len = length (spk_script (miner_spk (miner_data d))) in
      if unat (cm_spk_max_len m) < len then Inl (Err (PayloadScriptPublicKeyLenAboveMax len (cm_spk_max_len m)))
      else Inr (u64_to_le_bytes (cb_blue_score d) @ u64_to_le_bytes (cb_subsidy d) @ miner_bytes (miner_data d)))"

definition modify_coinbase_payload :: "CoinbaseManager \<Rightarrow> bytes \<Rightarrow> MinerData \<Rightarrow> bytes coinbase_result" where
  "modify_coinbase_payload m pl md =
     (let len = length (spk_script (miner_spk md)) in
      if unat (cm_spk_max_len m) < len then Inl (Err (PayloadScriptPublicKeyLenAboveMax len (cm_spk_max_len m)))
      else Inr (take (LENGTH_OF_BLUE_SCORE + LENGTH_OF_SUBSIDY) pl @ miner_bytes md))"

text \<open>\<^verbatim>\<open>PayloadParser::take\<close>: \<^verbatim>\<open>split_at\<close> panics past the end.\<close>

definition parser_take :: "nat \<Rightarrow> bytes \<Rightarrow> ('e, bytes \<times> bytes) outcome" where
  "parser_take n remaining = (if n \<le> length remaining then Inr (take n remaining, drop n remaining) else Inl Panic)"

definition deserialize_coinbase_payload :: "CoinbaseManager \<Rightarrow> bytes \<Rightarrow> CoinbaseData coinbase_result" where
  "deserialize_coinbase_payload m pl =
     (if length pl < MIN_PAYLOAD_LENGTH then Inl (Err (PayloadLenBelowMin (length pl) MIN_PAYLOAD_LENGTH))
      else if max_coinbase_payload_len m < length pl
      then Inl (Err (PayloadLenAboveMax (length pl) (max_coinbase_payload_len m)))
      else
        bindR (parser_take LENGTH_OF_BLUE_SCORE pl) (\<lambda>(blue_score, rest).
        bindR (parser_take LENGTH_OF_SUBSIDY rest) (\<lambda>(subsidy, rest).
        bindR (parser_take LENGTH_OF_SCRIPT_PUB_KEY_VERSION rest) (\<lambda>(ver, rest).
        bindR (parser_take LENGTH_OF_SCRIPT_PUB_KEY_LENGTH rest) (\<lambda>(len, rest).
        if cm_spk_max_len m < hd len
        then Inl (Err (PayloadScriptPublicKeyLenAboveMax (unat (hd len)) (cm_spk_max_len m)))
        else if length rest < unat (hd len)
        then Inl (Err (PayloadCantContainScriptPublicKey (length pl) (MIN_PAYLOAD_LENGTH + unat (hd len))))
        else
          bindR (parser_take (unat (hd len)) rest) (\<lambda>(script, rest).
          Inr \<lparr>cb_blue_score = u64_from_le_bytes blue_score, cb_subsidy = u64_from_le_bytes subsidy,
            miner_data = \<lparr>miner_spk = \<lparr>spk_version = u16_from_le_bytes ver, spk_script = script\<rparr>,
              extra_data = rest\<rparr>\<rparr>))))))"

section \<open>The coinbase transaction\<close>

definition blue_output ::
    "(hash, BlockRewardData) hash_map \<Rightarrow> TransactionOutput list \<Rightarrow> hash \<Rightarrow> TransactionOutput list coinbase_result" where
  "blue_output rewards outs blue =
     bindR (unwrap (hm_get rewards blue)) (\<lambda>reward.
     bindR (padd (reward_subsidy reward) (total_fees reward)) (\<lambda>value.
     if 0 < value then Inr (outs @ [\<lparr>out_value = value, out_spk = reward_spk reward, covenant = None\<rparr>])
     else Inr outs))"

definition red_reward_step ::
    "(hash, BlockRewardData) hash_map \<Rightarrow> hash set \<Rightarrow> u64 \<Rightarrow> hash \<Rightarrow> u64 coinbase_result" where
  "red_reward_step rewards non_daa red_reward red =
     bindR (unwrap (hm_get rewards red)) (\<lambda>reward.
     if red \<in> non_daa then padd red_reward (total_fees reward)
     else bindR (padd (reward_subsidy reward) (total_fees reward)) (padd red_reward))"

definition expected_coinbase_transaction ::
    "(Transaction \<Rightarrow> hash) \<Rightarrow> CoinbaseManager \<Rightarrow> u64 \<Rightarrow> MinerData \<Rightarrow> GhostdagRewards \<Rightarrow>
     (hash, BlockRewardData) hash_map \<Rightarrow> hash set \<Rightarrow> CoinbaseTransactionTemplate coinbase_result" where
  "expected_coinbase_transaction tx_id_of m daa_score md gd rewards non_daa =
     bindR (fold_result (blue_output rewards) [] (filter (\<lambda>h. h \<notin> non_daa) (mergeset_blues gd))) (\<lambda>outs.
     bindR (fold_result (red_reward_step rewards non_daa) 0 (mergeset_reds gd)) (\<lambda>red_reward.
     let outs = (if 0 < red_reward
                 then outs @ [\<lparr>out_value = red_reward, out_spk = miner_spk md, covenant = None\<rparr>] else outs) in
     bindR (calc_block_subsidy m daa_score) (\<lambda>subsidy.
     bindR (serialize_coinbase_payload m \<lparr>cb_blue_score = gd_blue_score gd, cb_subsidy = subsidy, miner_data = md\<rparr>) (\<lambda>pl.
     let t = \<lparr>version = TX_VERSION_TOCCATA, inputs = [], outputs = outs, lock_time = 0,
           subnetwork_id = SUBNETWORK_ID_COINBASE, gas = 0, payload = pl, storage_mass = 0, tx_id = []\<rparr>
     in Inr \<lparr>template_tx = t\<lparr>tx_id := tx_id_of t\<rparr>, has_red_reward = 0 < red_reward\<rparr>))))"

section \<open>Lemmas: the payload codec\<close>

lemmas payload_lengths =
  MIN_PAYLOAD_LENGTH_def LENGTH_OF_BLUE_SCORE_def LENGTH_OF_SUBSIDY_def LENGTH_OF_SCRIPT_PUB_KEY_VERSION_def
  LENGTH_OF_SCRIPT_PUB_KEY_LENGTH_def

text \<open>The parser splits an accepted payload into its fields.\<close>

definition payload_fields :: "CoinbaseManager \<Rightarrow> bytes \<Rightarrow> bytes \<Rightarrow> bytes \<Rightarrow> bytes \<Rightarrow> bytes \<Rightarrow> bytes \<Rightarrow> bool" where
  "payload_fields m pl score subsidy ver script extra \<longleftrightarrow>
     pl = score @ subsidy @ ver @ [of_nat (length script)] @ script @ extra \<and> length score = 8 \<and> length subsidy = 8 \<and>
     length ver = 2 \<and> length script \<le> unat (cm_spk_max_len m) \<and> length pl \<le> max_coinbase_payload_len m"

lemma spk_len_byte: "length script \<le> unat (b :: u8) \<Longrightarrow> unat (of_nat (length script) :: u8) = length script"
  using unat_less_two_power [of b] by (simp add: unat_of_nat)

lemma deserialize_fields:
  assumes "payload_fields m pl score subsidy ver script extra"
  shows "deserialize_coinbase_payload m pl = Inr \<lparr>cb_blue_score = u64_from_le_bytes score,
    cb_subsidy = u64_from_le_bytes subsidy,
    miner_data = \<lparr>miner_spk = \<lparr>spk_version = u16_from_le_bytes ver, spk_script = script\<rparr>, extra_data = extra\<rparr>\<rparr>"
proof -
  have "unat (of_nat (length script) :: u8) = length script"
    using assms spk_len_byte by (auto simp: payload_fields_def)
  with assms show ?thesis
    by (auto simp: deserialize_coinbase_payload_def payload_fields_def payload_lengths parser_take_def word_less_nat_alt)
qed

lemma deserialize_Inr:
  assumes "deserialize_coinbase_payload m pl = Inr d"
  obtains score subsidy ver script extra where "payload_fields m pl score subsidy ver script extra"
proof -
  let ?len = "pl ! 18" and ?rest = "drop 19 pl"
  have len: "19 \<le> length pl" "length pl \<le> max_coinbase_payload_len m"
    using assms by (auto simp: deserialize_coinbase_payload_def payload_lengths split: if_splits)
  then have "hd (take 1 (drop 18 pl)) = ?len" by (simp add: hd_drop_conv_nth)
  then have ok: "unat ?len \<le> unat (cm_spk_max_len m)" "unat ?len \<le> length ?rest"
    using assms len
    by (auto simp: deserialize_coinbase_payload_def payload_lengths parser_take_def word_less_nat_alt not_less
        split: if_splits)
  have split: "pl = take 8 pl @ take 8 (drop 8 pl) @ take 2 (drop 16 pl) @ [?len] @ take (unat ?len) ?rest @ drop (unat ?len) ?rest"
  proof -
    have "[?len] @ ?rest = drop 18 pl" using len(1) Cons_nth_drop_Suc [of 18 pl] by simp
    moreover have "take 2 (drop 16 pl) @ drop 18 pl = drop 16 pl" using append_take_drop_id [of 2 "drop 16 pl"] by simp
    moreover have "take 8 (drop 8 pl) @ drop 16 pl = drop 8 pl" using append_take_drop_id [of 8 "drop 8 pl"] by simp
    ultimately show ?thesis by (simp only: append_take_drop_id)
  qed
  show thesis
  proof (rule that)
    show "payload_fields m pl (take 8 pl) (take 8 (drop 8 pl)) (take 2 (drop 16 pl)) (take (unat ?len) ?rest) (drop (unat ?len) ?rest)"
      using split len ok by (simp add: payload_fields_def)
  qed
qed

lemma deserialize_no_panic: "deserialize_coinbase_payload m pl \<noteq> Inl Panic"
  by (auto simp: deserialize_coinbase_payload_def payload_lengths parser_take_def)

lemma serialize_eq:
  "serialize_coinbase_payload m d = Inr pl \<longleftrightarrow>
    length (spk_script (miner_spk (miner_data d))) \<le> unat (cm_spk_max_len m) \<and>
    pl = u64_to_le_bytes (cb_blue_score d) @ u64_to_le_bytes (cb_subsidy d) @ miner_bytes (miner_data d)"
  by (auto simp: serialize_coinbase_payload_def Let_def)

lemma serialized_fields:
  assumes "serialize_coinbase_payload m d = Inr pl" and "length pl \<le> max_coinbase_payload_len m"
  shows "payload_fields m pl (u64_to_le_bytes (cb_blue_score d)) (u64_to_le_bytes (cb_subsidy d))
    (u16_to_le_bytes (spk_version (miner_spk (miner_data d)))) (spk_script (miner_spk (miner_data d))) (extra_data (miner_data d))"
  using assms by (auto simp: serialize_eq payload_fields_def miner_bytes_def)


section \<open>Lemmas: the rewards\<close>

definition full_reward :: "(hash, BlockRewardData) hash_map \<Rightarrow> hash \<Rightarrow> nat" where
  "full_reward rewards h =
     (case hm_get rewards h of None \<Rightarrow> 0 | Some r \<Rightarrow> unat (reward_subsidy r) + unat (total_fees r))"

definition red_share :: "(hash, BlockRewardData) hash_map \<Rightarrow> hash set \<Rightarrow> hash \<Rightarrow> nat" where
  "red_share rewards non_daa h =
     (case hm_get rewards h of None \<Rightarrow> 0
      | Some r \<Rightarrow> (if h \<in> non_daa then 0 else unat (reward_subsidy r)) + unat (total_fees r))"

lemma output_sum_append [simp]: "output_sum (xs @ ys) = output_sum xs + output_sum ys"
  by (simp add: output_sum_def)

lemma blue_output_Inr:
  assumes "blue_output rewards outs b = Inr outs'"
  obtains r v where "hm_get rewards b = Some r" and "unat v = full_reward rewards b"
    and "outs' = outs @ (if 0 < v then [\<lparr>out_value = v, out_spk = reward_spk r, covenant = None\<rparr>] else [])"
  using assms by (auto simp: blue_output_def result_simps full_reward_def split: if_splits)

lemma blue_outputs_Inr:
  assumes "fold_result (blue_output rewards) outs blues = Inr outs'"
  shows "output_sum outs' = output_sum outs + sum_list (map (full_reward rewards) blues) \<and>
    length outs' \<le> length outs + length blues \<and>
    (\<forall>out \<in> set outs'. out \<in> set outs \<or> out_value out \<noteq> 0 \<and> covenant out = None \<and>
      (\<exists>b \<in> set blues. \<exists>r. hm_get rewards b = Some r \<and> out_spk out = reward_spk r))"
  using assms
proof (induction blues arbitrary: outs)
  case (Cons b blues)
  then obtain outs1 where step: "blue_output rewards outs b = Inr outs1"
    and rest: "fold_result (blue_output rewards) outs1 blues = Inr outs'"
    by (auto simp: bindR_eq_Inr)
  from step obtain r v where r: "hm_get rewards b = Some r" "unat v = full_reward rewards b"
    and outs1: "outs1 = outs @ (if 0 < v then [\<lparr>out_value = v, out_spk = reward_spk r, covenant = None\<rparr>] else [])"
    by (rule blue_output_Inr)
  have "output_sum outs1 = output_sum outs + full_reward rewards b" "length outs1 \<le> Suc (length outs)"
    using r(2) by (auto simp: outs1 word_greater_zero_iff)
  moreover have "\<forall>out \<in> set outs1. out \<in> set outs \<or> out_value out \<noteq> 0 \<and> covenant out = None \<and> out_spk out = reward_spk r"
    by (auto simp: outs1)
  ultimately show ?case using Cons.IH [OF rest] r(1) by fastforce
qed simp

lemma red_rewards_Inr:
  "fold_result (red_reward_step rewards non_daa) r0 reds = Inr r \<Longrightarrow>
    unat r = unat r0 + sum_list (map (red_share rewards non_daa) reds)"
proof (induction reds arbitrary: r0)
  case (Cons h reds)
  then obtain r1 where "red_reward_step rewards non_daa r0 h = Inr r1" "fold_result (red_reward_step rewards non_daa) r1 reds = Inr r"
    by (auto simp: bindR_eq_Inr)
  moreover from this(1) have "unat r1 = unat r0 + red_share rewards non_daa h"
    by (auto simp: red_reward_step_def result_simps red_share_def split: if_splits)
  ultimately show ?case using Cons.IH [of r1] by simp
qed simp

lemma expected_coinbase_Inr:
  assumes "expected_coinbase_transaction tx_id_of m daa md gd rewards non_daa = Inr tmpl"
  obtains outs r subsidy pl where
      "fold_result (blue_output rewards) [] (filter (\<lambda>h. h \<notin> non_daa) (mergeset_blues gd)) = Inr outs"
    and "fold_result (red_reward_step rewards non_daa) 0 (mergeset_reds gd) = Inr r"
    and "calc_block_subsidy m daa = (Inr subsidy :: u64 coinbase_result)"
    and "serialize_coinbase_payload m \<lparr>cb_blue_score = gd_blue_score gd, cb_subsidy = subsidy, miner_data = md\<rparr> = Inr pl"
    and "outputs (template_tx tmpl) = outs @ (if 0 < r then [\<lparr>out_value = r, out_spk = miner_spk md, covenant = None\<rparr>] else [])"
    and "inputs (template_tx tmpl) = []" and "payload (template_tx tmpl) = pl" and "storage_mass (template_tx tmpl) = 0"
    and "subnetwork_id (template_tx tmpl) = SUBNETWORK_ID_COINBASE" and "version (template_tx tmpl) = TX_VERSION_TOCCATA"
    and "gas (template_tx tmpl) = 0"
proof -
  from assms obtain outs r where f: "fold_result (blue_output rewards) [] (filter (\<lambda>h. h \<notin> non_daa) (mergeset_blues gd)) = Inr outs"
      "fold_result (red_reward_step rewards non_daa) 0 (mergeset_reds gd) = Inr r"
    by (auto simp: expected_coinbase_transaction_def bindR_eq_Inr)
  with assms obtain subsidy pl where "calc_block_subsidy m daa = (Inr subsidy :: u64 coinbase_result)"
      "serialize_coinbase_payload m \<lparr>cb_blue_score = gd_blue_score gd, cb_subsidy = subsidy, miner_data = md\<rparr> = Inr pl"
    by (auto simp: expected_coinbase_transaction_def bindR_eq_Inr Let_def)
  with f assms that [of outs r subsidy pl] show thesis
    by (auto simp: expected_coinbase_transaction_def Let_def)
qed

section \<open>Lemmas: the schedule\<close>

lemma sum_div_blocks: "(\<Sum>d < K * M. f (d div M)) = M * (\<Sum>k < K. f k)" for f :: "nat \<Rightarrow> nat"
proof (induction K)
  case (Suc K)
  have "{..<Suc K * M} = {..<K * M} \<union> {K * M..<K * M + M}" by auto
  then have "(\<Sum>d < Suc K * M. f (d div M)) = (\<Sum>d < K * M. f (d div M)) + (\<Sum>d \<in> {K * M..<K * M + M}. f (d div M))"
    by (simp add: sum.union_disjoint ivl_disj_int)
  also have "(\<Sum>d \<in> {K * M..<K * M + M}. f (d div M)) = (\<Sum>d \<in> {K * M..<K * M + M}. f K)"
  proof (intro sum.cong refl)
    fix d assume "d \<in> {K * M..<K * M + M}"
    then have "d div M = K" by (intro div_nat_eqI) (auto simp: algebra_simps)
    then show "f (d div M) = f K" by simp
  qed
  finally show ?case using Suc by (simp add: algebra_simps)
qed simp

lemma sum_div_bounded:
  fixes f :: "nat \<Rightarrow> nat"
  assumes "\<And>k. K \<le> k \<Longrightarrow> f k = 0" and "0 < M"
  shows "(\<Sum>d < n. f (d div M)) \<le> M * (\<Sum>k < K. f k)"
proof -
  have "(\<Sum>d < n. f (d div M)) \<le> (\<Sum>d < max n (K * M). f (d div M))"
    by (intro sum_mono2) auto
  also have "\<dots> = (\<Sum>d < K * M. f (d div M))"
  proof (intro sum.mono_neutral_right ballI)
    fix d assume "d \<in> {..<max n (K * M)} - {..<K * M}"
    then have "K \<le> d div M" using assms(2) by (simp add: less_eq_div_iff_mult_less_eq)
    then show "f (d div M) = 0" by (rule assms(1))
  qed auto
  finally show ?thesis by (simp add: sum_div_blocks)
qed

lemma table_length: "length SUBSIDY_BY_MONTH_TABLE = 1016"
  and table_ends: "SUBSIDY_BY_MONTH_TABLE ! 1015 = 0"
  by (simp_all add: SUBSIDY_BY_MONTH_TABLE_def)

lemma table_sum_10: "sum_list (map (\<lambda>s. (uint s + 9) div 10) SUBSIDY_BY_MONTH_TABLE) = 798540320"
  and table_sum_1: "sum_list (map uint SUBSIDY_BY_MONTH_TABLE) = 7985398129"
  by (simp_all add: SUBSIDY_BY_MONTH_TABLE_def)

lemma nat_div_ceil_eq: "0 < b \<Longrightarrow> (if a mod b = 0 then a div b else a div b + 1) = (a + b - 1) div b" for a b :: nat
proof -
  assume b: "0 < b"
  have "(a + b - 1) div b = (a div b * b + (a mod b + (b - 1))) div b" using b by simp
  also have "\<dots> = a div b + (a mod b + (b - 1)) div b" using b by (simp only: div_mult_self3)
  also have "(a mod b + (b - 1)) div b = (if a mod b = 0 then 0 else 1)"
  proof (cases "a mod b = 0")
    case False
    then have "b \<le> a mod b + (b - 1)" "a mod b + (b - 1) < 2 * b" using b mod_less_divisor [of b a] by linarith+
    then have "(a mod b + (b - 1)) div b = 1" by (intro div_nat_eqI) auto
    then show ?thesis using False by simp
  qed (use b in simp)
  finally show ?thesis by simp
qed

lemma unat_div_ceil_add:
  "0 < unat b \<Longrightarrow> unat (div_ceil a b) = (unat a + unat b - 1) div unat b" for a b :: u64
  by (simp only: unat_div_ceil nat_div_ceil_eq)

text \<open>The manager of a network whose upgrades are active from the first block on and whose
  emission starts there.\<close>

definition genesis_manager :: "u64 \<Rightarrow> CoinbaseManager \<Rightarrow> bool" where
  "genesis_manager bps m \<longleftrightarrow> (\<exists>spk_max_len max_len base p. 0 < unat bps \<and>
     CoinbaseManager_new spk_max_len max_len 0 base \<lparr>pre = p, post = bps, activation = fork_always\<rparr> =
       (Inr m :: (unit, CoinbaseManager) outcome))"

definition emission :: "CoinbaseManager \<Rightarrow> nat \<Rightarrow> nat" where
  "emission m n =
     (\<Sum>d < n. case calc_block_subsidy m (of_nat d) :: (unit, u64) outcome of Inr s \<Rightarrow> unat s | Inl _ \<Rightarrow> 0)"

definition month_subsidy :: "u64 \<Rightarrow> nat \<Rightarrow> nat" where
  "month_subsidy bps k = (unat (SUBSIDY_BY_MONTH_TABLE ! min k 1015) + unat bps - 1) div unat bps"

lemma genesis_subsidy:
  assumes "genesis_manager bps m"
  shows "\<exists>s. calc_block_subsidy m daa = (Inr s :: ('e, u64) outcome) \<and>
    unat s = month_subsidy bps (unat daa div (unat bps * 2629800))"
proof -
  have bps: "0 < unat bps" and m: "deflationary_phase_daa_score m = 0" "crescendo_activation_daa_score m = 0"
      "ForkedParam_after (bps_history m) = bps" "ForkedParam_before (bps_history m) = bps" "activation (bps_history m) = 0"
      "subsidy_by_month_table_after m = map (\<lambda>s. div_ceil s bps) SUBSIDY_BY_MONTH_TABLE"
    using assms by (auto simp: genesis_manager_def CoinbaseManager_new_def ForkedParam_after_def ForkedParam_before_def
        fork_always_def fork_never_def split: if_splits)
  have padd0: "(padd 0 x :: ('e, u64) outcome) = Inr x" for x :: u64
    using padd_ok [of 0 x] unat_less_two_power [of x] by simp
  have "(subsidy_month m daa :: ('e, u64) outcome) = Inr (daa div bps div 2629800)"
    using bps by (simp add: subsidy_month_def m psub_def checked_sub_def unwrap_def pdiv_eq padd0 SECONDS_PER_MONTH_def)
  moreover have "unat (daa div bps div 2629800) = unat daa div (unat bps * 2629800)"
    by (simp add: unat_div div_mult2_eq)
  moreover have "subsidy_by_month_table_after m \<noteq> []" using table_length by (auto simp: m)
  ultimately show ?thesis
    using bps table_length
    by (auto simp: calc_block_subsidy_def m is_active_def month_subsidy_def unat_div_ceil_add)
qed

lemma emission_months:
  assumes "genesis_manager bps m" and "n \<le> 2 ^ 64"
  shows "emission m n = (\<Sum>d < n. month_subsidy bps (d div (unat bps * 2629800)))"
  unfolding emission_def
proof (intro sum.cong refl)
  fix d assume "d \<in> {..<n}"
  then have "unat (of_nat d :: u64) = d" using assms(2) by (simp add: unat_of_nat)
  then show "(case calc_block_subsidy m (of_nat d) :: (unit, u64) outcome of Inr s \<Rightarrow> unat s | Inl _ \<Rightarrow> 0) =
      month_subsidy bps (d div (unat bps * 2629800))"
    using genesis_subsidy [OF assms(1), of "of_nat d", where 'e = unit] by auto
qed

lemma month_subsidy_ends: "0 < unat bps \<Longrightarrow> 1015 \<le> k \<Longrightarrow> month_subsidy bps k = 0"
  using table_ends by (simp add: month_subsidy_def)

lemma month_subsidies_total:
  assumes "0 < unat bps"
  shows "(\<Sum>k < 1015. month_subsidy bps k) =
    sum_list (map (\<lambda>s. (unat s + unat bps - 1) div unat bps) SUBSIDY_BY_MONTH_TABLE)"
proof -
  have "(\<Sum>k < 1015. month_subsidy bps k) = (\<Sum>k < 1016. month_subsidy bps k)"
    using month_subsidy_ends [OF assms, of 1015] by (simp add: lessThan_Suc [of 1015, simplified])
  also have "\<dots> = sum_list (map (\<lambda>s. (unat s + unat bps - 1) div unat bps) SUBSIDY_BY_MONTH_TABLE)"
    by (auto simp: sum_list_sum_nth table_length atLeast0LessThan month_subsidy_def intro!: sum.cong)
  finally show ?thesis .
qed

lemma table_totals:
  "sum_list (map (\<lambda>s. (9 + unat s) div 10) SUBSIDY_BY_MONTH_TABLE) = 798540320"
  "sum_list (map unat SUBSIDY_BY_MONTH_TABLE) = 7985398129"
proof -
  have "int (sum_list (map (\<lambda>s. (9 + unat s) div 10) t)) = sum_list (map (\<lambda>s. (uint s + 9) div 10) t)"
      "int (sum_list (map unat t)) = sum_list (map uint t)" for t :: "u64 list"
    by (induction t) (simp_all add: zdiv_int add.commute)
  from this [of SUBSIDY_BY_MONTH_TABLE]
  show "sum_list (map (\<lambda>s. (9 + unat s) div 10) SUBSIDY_BY_MONTH_TABLE) = 798540320"
    "sum_list (map unat SUBSIDY_BY_MONTH_TABLE) = 7985398129"
    unfolding table_sum_10 table_sum_1 by simp_all
qed

lemma emission_bound:
  assumes "genesis_manager bps m" and "n \<le> 2 ^ 64"
  shows "emission m n \<le> unat bps * 2629800 *
    sum_list (map (\<lambda>s. (unat s + unat bps - 1) div unat bps) SUBSIDY_BY_MONTH_TABLE)"
proof -
  have "0 < unat bps" using assms(1) by (auto simp: genesis_manager_def)
  then show ?thesis
    unfolding emission_months [OF assms] month_subsidies_total [OF \<open>0 < unat bps\<close>, symmetric]
    by (intro sum_div_bounded month_subsidy_ends) simp_all
qed

lemma emission_reached:
  assumes "genesis_manager bps m" and "1015 * (unat bps * 2629800) \<le> 2 ^ 64"
  shows "emission m (1015 * (unat bps * 2629800)) = unat bps * 2629800 *
    sum_list (map (\<lambda>s. (unat s + unat bps - 1) div unat bps) SUBSIDY_BY_MONTH_TABLE)"
proof -
  have "0 < unat bps" using assms(1) by (auto simp: genesis_manager_def)
  then show ?thesis
    unfolding emission_months [OF assms] month_subsidies_total [OF \<open>0 < unat bps\<close>, symmetric] by (intro sum_div_blocks)
qed

section \<open>Properties\<close>

text \<open>C24: The coinbase payload codec.  Parsing never panics; what is serialized parses back to the
  same data, as long as it is not longer than the maximum; a payload that parses is the
  serialization of what it parses to; replacing the miner data of a serialized payload gives the
  serialization with the new miner data.\<close>

theorem coinbase_payload_roundtrip:
  "deserialize_coinbase_payload m pl \<noteq> Inl Panic \<and>
   (serialize_coinbase_payload m d = Inr pl \<and> length pl \<le> max_coinbase_payload_len m \<longrightarrow>
     deserialize_coinbase_payload m pl = Inr d) \<and>
   (deserialize_coinbase_payload m pl = Inr d \<longrightarrow> serialize_coinbase_payload m d = Inr pl) \<and>
   (serialize_coinbase_payload m d = Inr pl \<longrightarrow>
     modify_coinbase_payload m pl md = serialize_coinbase_payload m (d\<lparr>miner_data := md\<rparr>))"
proof (intro conjI impI)
  show "deserialize_coinbase_payload m pl \<noteq> Inl Panic" by (rule deserialize_no_panic)
next
  assume "serialize_coinbase_payload m d = Inr pl \<and> length pl \<le> max_coinbase_payload_len m"
  then have "payload_fields m pl (u64_to_le_bytes (cb_blue_score d)) (u64_to_le_bytes (cb_subsidy d))
      (u16_to_le_bytes (spk_version (miner_spk (miner_data d)))) (spk_script (miner_spk (miner_data d))) (extra_data (miner_data d))"
    by (intro serialized_fields) blast+
  from deserialize_fields [OF this] show "deserialize_coinbase_payload m pl = Inr d" by simp
next
  assume d: "deserialize_coinbase_payload m pl = Inr d"
  then obtain score subsidy ver script extra where f: "payload_fields m pl score subsidy ver script extra"
    by (rule deserialize_Inr)
  with d deserialize_fields [OF f] show "serialize_coinbase_payload m d = Inr pl"
    by (auto simp: serialize_eq payload_fields_def miner_bytes_def to_from_le_bytes)
next
  assume "serialize_coinbase_payload m d = Inr pl"
  then show "modify_coinbase_payload m pl md = serialize_coinbase_payload m (d\<lparr>miner_data := md\<rparr>)"
    by (auto simp: serialize_coinbase_payload_def modify_coinbase_payload_def payload_lengths Let_def split: if_splits)
qed

definition sample_manager :: CoinbaseManager where
  "sample_manager = \<lparr>cm_spk_max_len = 150, max_coinbase_payload_len = 204, deflationary_phase_daa_score = 0,
     pre_deflationary_phase_base_subsidy = 0, bps_history = \<lparr>pre = 10, post = 10, activation = fork_always\<rparr>,
     subsidy_by_month_table_before = map (\<lambda>s. div_ceil s 10) SUBSIDY_BY_MONTH_TABLE,
     subsidy_by_month_table_after = map (\<lambda>s. div_ceil s 10) SUBSIDY_BY_MONTH_TABLE, crescendo_activation_daa_score = 0\<rparr>"

lemma sample_genesis: "genesis_manager 10 sample_manager"
  unfolding genesis_manager_def
  by (intro exI [of _ 150] exI [of _ 204] exI [of _ 0] exI [of _ 10])
     (simp add: CoinbaseManager_new_def sample_manager_def ForkedParam_before_def ForkedParam_after_def fork_always_def fork_never_def)

definition sample_data :: CoinbaseData where
  "sample_data = \<lparr>cb_blue_score = 258, cb_subsidy = 7,
     miner_data = \<lparr>miner_spk = \<lparr>spk_version = 1, spk_script = [9, 8]\<rparr>, extra_data = [5]\<rparr>\<rparr>"

definition sample_payload :: bytes where
  "sample_payload = [2, 1, 0, 0, 0, 0, 0, 0, 7, 0, 0, 0, 0, 0, 0, 0, 1, 0, 2, 9, 8, 5]"

theorem coinbase_payload_roundtrip_witness:
  "serialize_coinbase_payload sample_manager sample_data = Inr sample_payload \<and>
   deserialize_coinbase_payload sample_manager sample_payload = Inr sample_data"
proof -
  have "serialize_coinbase_payload sample_manager sample_data = Inr sample_payload"
  proof -
    have "u64_to_le_bytes 258 = [2, 1, 0, 0, 0, 0, 0, 0]" "u64_to_le_bytes 7 = [7, 0, 0, 0, 0, 0, 0, 0]"
        "u16_to_le_bytes 1 = [1, 0]"
      by code_simp+
    then show ?thesis
      by (simp add: serialize_coinbase_payload_def sample_manager_def sample_data_def miner_bytes_def sample_payload_def)
  qed
  moreover have "length sample_payload \<le> max_coinbase_payload_len sample_manager"
    by (simp add: sample_payload_def sample_manager_def)
  ultimately show ?thesis
    using coinbase_payload_roundtrip [of sample_manager sample_payload sample_data] by blast
qed

text \<open>C23: The coinbase of a block.  When the expected coinbase transaction is built, its outputs are
  worth exactly the subsidies and fees of the blue blocks inside the DAA window plus the shares of
  the red ones (only fees outside the window), none is zero, its payload parses back to the blue
  score, the subsidy and the miner data, and, with at most \<open>ghostdag_k + 1\<close> blue blocks, it passes
  the isolation rules for coinbases.\<close>

theorem expected_coinbase_pays:
  assumes "expected_coinbase_transaction tx_id_of m daa md gd rewards non_daa = Inr tmpl"
    and "length (mergeset_blues gd) \<le> unat (ghostdag_k v) + 1"
    and "coinbase_payload_script_public_key_max_len v = cm_spk_max_len m"
    and "\<forall>h r. hm_get rewards h = Some r \<longrightarrow> length (spk_script (reward_spk r)) \<le> unat (cm_spk_max_len m)"
    and "length (payload (template_tx tmpl)) \<le> max_coinbase_payload_len m"
  shows "output_sum (outputs (template_tx tmpl)) =
      sum_list (map (full_reward rewards) (filter (\<lambda>h. h \<notin> non_daa) (mergeset_blues gd))) +
      sum_list (map (red_share rewards non_daa) (mergeset_reds gd)) \<and>
    (\<forall>out \<in> set (outputs (template_tx tmpl)). out_value out \<noteq> 0) \<and>
    check_coinbase_in_isolation v (template_tx tmpl) = Inr () \<and>
    (\<exists>subsidy. calc_block_subsidy m daa = (Inr subsidy :: u64 coinbase_result) \<and>
      deserialize_coinbase_payload m (payload (template_tx tmpl)) =
        Inr \<lparr>cb_blue_score = gd_blue_score gd, cb_subsidy = subsidy, miner_data = md\<rparr>)"
proof -
  let ?t = "template_tx tmpl" and ?blues = "filter (\<lambda>h. h \<notin> non_daa) (mergeset_blues gd)"
  obtain outs r subsidy pl where e: "fold_result (blue_output rewards) [] ?blues = Inr outs"
      "fold_result (red_reward_step rewards non_daa) 0 (mergeset_reds gd) = Inr r"
      "calc_block_subsidy m daa = (Inr subsidy :: u64 coinbase_result)"
      "serialize_coinbase_payload m \<lparr>cb_blue_score = gd_blue_score gd, cb_subsidy = subsidy, miner_data = md\<rparr> = Inr pl"
      "outputs ?t = outs @ (if 0 < r then [\<lparr>out_value = r, out_spk = miner_spk md, covenant = None\<rparr>] else [])"
      "inputs ?t = []" "payload ?t = pl" "storage_mass ?t = 0" "subnetwork_id ?t = SUBNETWORK_ID_COINBASE"
    using assms(1) by (rule expected_coinbase_Inr)
  note blues = blue_outputs_Inr [OF e(1)]
  from blues have "length outs \<le> length ?blues" by simp
  then have "length outs \<le> length (mergeset_blues gd)" using length_filter_le by (rule order_trans)
  with assms(2) have len: "length (outputs ?t) \<le> unat (ghostdag_k v) + 2" by (auto simp: e(5))
  have "unat (ghostdag_k v) < 2 ^ 16" using unat_less_two_power [of "ghostdag_k v"] by simp
  with len have "length (outputs ?t) < 2 ^ 64" by simp
  moreover have "length (spk_script (miner_spk md)) \<le> unat (cm_spk_max_len m)" using e(4) by (simp add: serialize_eq)
  ultimately have "check_coinbase_in_isolation v ?t = Inr ()"
    using len e(6,8) blues assms(3,4)
    by (auto simp: check_coinbase_iff coinbase_ok_def e(5) split: if_splits) 
  moreover have "deserialize_coinbase_payload m pl =
      Inr \<lparr>cb_blue_score = gd_blue_score gd, cb_subsidy = subsidy, miner_data = md\<rparr>"
    using deserialize_fields [OF serialized_fields [OF e(4)]] assms(5) by (simp add: e(7))
  ultimately show ?thesis
    using blues red_rewards_Inr [OF e(2)] e(3,7) by (auto simp: e(5) word_greater_zero_iff)
qed

definition sample_rewards :: "(hash, BlockRewardData) hash_map" where
  "sample_rewards = [([1], \<lparr>reward_subsidy = 5, total_fees = 2, reward_spk = \<lparr>spk_version = 0, spk_script = [4]\<rparr>\<rparr>),
     ([2], \<lparr>reward_subsidy = 6, total_fees = 1, reward_spk = \<lparr>spk_version = 0, spk_script = [3]\<rparr>\<rparr>)]"

theorem expected_coinbase_pays_witness:
  "\<exists>tmpl. expected_coinbase_transaction (\<lambda>_. [0]) sample_manager 0 (miner_data sample_data)
      \<lparr>gd_blue_score = 9, mergeset_blues = [[1]], mergeset_reds = [[2]]\<rparr> sample_rewards {[2]} = Inr tmpl \<and>
    output_sum (outputs (template_tx tmpl)) = 8 \<and>
    check_coinbase_in_isolation sample_validator (template_tx tmpl) = (Inr () :: (unit, unit) tx_result)"
proof -
  let ?gd = "\<lparr>gd_blue_score = 9, mergeset_blues = [[1]], mergeset_reds = [[2]]\<rparr>"
  have "genesis_manager 10 sample_manager" by (rule sample_genesis)
  then obtain s where s: "calc_block_subsidy sample_manager 0 = (Inr s :: u64 coinbase_result)"
    using genesis_subsidy [of 10 sample_manager 0, where 'e = CoinbaseError] by blast
  then obtain tmpl where tmpl: "expected_coinbase_transaction (\<lambda>_. [0]) sample_manager 0 (miner_data sample_data) ?gd
      sample_rewards {[2]} = Inr tmpl" "length (payload (template_tx tmpl)) \<le> 204"
    by (simp add: expected_coinbase_transaction_def blue_output_def red_reward_step_def sample_rewards_def hm_get_def
        unwrap_def padd_def checked_add_def serialize_coinbase_payload_def sample_data_def sample_manager_def miner_bytes_def Let_def)
  have "output_sum (outputs (template_tx tmpl)) =
      sum_list (map (full_reward sample_rewards) (filter (\<lambda>h. h \<notin> {[2]}) (mergeset_blues ?gd))) +
      sum_list (map (red_share sample_rewards {[2]}) (mergeset_reds ?gd)) \<and>
      check_coinbase_in_isolation sample_validator (template_tx tmpl) = (Inr () :: (unit, unit) tx_result)"
  proof -
    have "length (mergeset_blues ?gd) \<le> unat (ghostdag_k sample_validator) + 1"
        "coinbase_payload_script_public_key_max_len sample_validator = cm_spk_max_len sample_manager"
        "length (payload (template_tx tmpl)) \<le> max_coinbase_payload_len sample_manager"
      using tmpl(2) by (simp_all add: sample_validator_def sample_manager_def)
    moreover have "\<forall>h r. hm_get sample_rewards h = Some r \<longrightarrow>
        length (spk_script (reward_spk r)) \<le> unat (cm_spk_max_len sample_manager)"
      by (auto simp: sample_rewards_def hm_get_def sample_manager_def split: if_splits)
    ultimately show ?thesis using expected_coinbase_pays [OF tmpl(1), of sample_validator] by blast
  qed
  moreover have "sum_list (map (full_reward sample_rewards) (filter (\<lambda>h. h \<notin> {[2]}) (mergeset_blues ?gd))) = 7"
      "sum_list (map (red_share sample_rewards {[2]}) (mergeset_reds ?gd)) = 1"
    by (simp_all add: full_reward_def red_share_def sample_rewards_def hm_get_def)
  ultimately show ?thesis using tmpl(1) by auto
qed

text \<open>C22: The emission.  On a network whose schedule starts at the first block, the subsidies of all
  blocks sum to at most \<open>20999999999644200\<close> petals at one block per second, below the cap
  \<open>MAX_SOMPI\<close>; at ten blocks per second, the main network's rate, rounding every entry up makes
  them sum to exactly \<open>21000013335360000\<close>, which exceeds the cap by \<open>13335360000\<close> petals.\<close>

theorem emission_against_cap:
  "(genesis_manager 1 m \<and> n \<le> 2 ^ 64 \<longrightarrow> emission m n \<le> unat MAX_SOMPI - 355800) \<and>
   (genesis_manager 10 m \<and> n \<le> 2 ^ 64 \<longrightarrow> emission m n \<le> unat MAX_SOMPI + 13335360000) \<and>
   (genesis_manager 10 m \<longrightarrow> emission m (1015 * 26298000) = unat MAX_SOMPI + 13335360000)"
  using emission_bound [of 1 m n] emission_bound [of 10 m n] emission_reached [of 10 m]
  by (auto simp: table_totals unat_MAX_SOMPI)

theorem emission_against_cap_witness:
  "emission sample_manager (1015 * 26298000) = unat MAX_SOMPI + 13335360000"
  using emission_against_cap [of sample_manager 0] sample_genesis by blast

end
