(* ===== verification/Utxo_Diff.thy ===== *)
theory Utxo_Diff
  imports Tx_Types Diff_Algebra
begin

text \<open>
  UTXO collections, diffs and views: \<^verbatim>\<open>src/consensus/core/src/utxo/utxo_collection.rs\<close>,
  \<^verbatim>\<open>utxo_diff.rs\<close> and \<^verbatim>\<open>utxo_view.rs\<close>.  Where the source mutates a collection passed by
  reference, the definition returns it.
\<close>

type_synonym UtxoCollection = "(TransactionOutpoint, UtxoEntry) hash_map"

section \<open>Collections\<close>

definition contains_with_daa_score :: "UtxoCollection \<Rightarrow> TransactionOutpoint \<Rightarrow> u64 \<Rightarrow> bool" where
  "contains_with_daa_score m op daa =
     (case hm_get m op of Some e \<Rightarrow> block_daa_score e = daa | None \<Rightarrow> False)"

definition add_collection :: "UtxoCollection \<Rightarrow> UtxoCollection \<Rightarrow> UtxoCollection" where
  "add_collection m other = foldl (\<lambda>m (k, v). hm_insert k v m) m other"

definition remove_collection :: "UtxoCollection \<Rightarrow> UtxoCollection \<Rightarrow> UtxoCollection" where
  "remove_collection m other = foldl (\<lambda>m k. hm_remove k m) m (hm_keys other)"

definition intersects :: "UtxoCollection \<Rightarrow> UtxoCollection \<Rightarrow> bool" where
  "intersects m other =
     (let (keys, other') = (if length m \<le> length other then (hm_keys m, other) else (hm_keys other, m))
      in list_ex (hm_contains other') keys)"

definition intersects_with_rule ::
    "UtxoCollection \<Rightarrow> UtxoCollection \<Rightarrow>
     (TransactionOutpoint \<Rightarrow> UtxoEntry \<Rightarrow> UtxoEntry \<Rightarrow> bool) \<Rightarrow> TransactionOutpoint option" where
  "intersects_with_rule m other rule =
     (if length m \<le> length other then
        map_option fst (find (\<lambda>(k, v1). case hm_get other k of Some v2 \<Rightarrow> rule k v1 v2 | None \<Rightarrow> False) m)
      else
        map_option fst (find (\<lambda>(k, v2). case hm_get m k of Some v1 \<Rightarrow> rule k v1 v2 | None \<Rightarrow> False) other))"

definition intersection_with_remainder_having_daa_score_in_place ::
    "UtxoCollection \<Rightarrow> UtxoCollection \<Rightarrow> UtxoCollection \<Rightarrow> UtxoCollection \<Rightarrow> UtxoCollection \<times> UtxoCollection" where
  "intersection_with_remainder_having_daa_score_in_place this other result remainder =
     foldl (\<lambda>(result, remainder) (op, e).
       if contains_with_daa_score other op (block_daa_score e)
       then (hm_insert op e result, remainder)
       else (result, hm_insert op e remainder)) (result, remainder) this"

definition subtraction_having_daa_score_in_place ::
    "UtxoCollection \<Rightarrow> UtxoCollection \<Rightarrow> UtxoCollection \<Rightarrow> UtxoCollection" where
  "subtraction_having_daa_score_in_place this other result =
     foldl (\<lambda>result (op, e).
       if \<not> contains_with_daa_score other op (block_daa_score e) then hm_insert op e result
       else result) result this"

definition subtraction_with_remainder_having_daa_score_in_place ::
    "UtxoCollection \<Rightarrow> UtxoCollection \<Rightarrow> UtxoCollection \<Rightarrow> UtxoCollection \<Rightarrow> UtxoCollection \<times> UtxoCollection" where
  "subtraction_with_remainder_having_daa_score_in_place this other result remainder =
     foldl (\<lambda>(result, remainder) (op, e).
       if \<not> contains_with_daa_score other op (block_daa_score e)
       then (hm_insert op e result, remainder)
       else (result, hm_insert op e remainder)) (result, remainder) this"

section \<open>Diffs\<close>

record UtxoDiff =
  utxo_add :: UtxoCollection
  utxo_remove :: UtxoCollection

datatype UtxoAlgebraError =
    DuplicateRemovePoint TransactionOutpoint
  | DuplicateAddPoint TransactionOutpoint
  | DoubleRemoveCall TransactionOutpoint
  | DoubleAddCall TransactionOutpoint
  | DiffIntersectionPoint TransactionOutpoint string
  | General string

definition UtxoDiff_default :: UtxoDiff where
  "UtxoDiff_default = \<lparr>utxo_add = [], utxo_remove = []\<rparr>"

definition utxo_as_reversed :: "UtxoDiff \<Rightarrow> UtxoDiff" where
  "utxo_as_reversed d = \<lparr>utxo_add = utxo_remove d, utxo_remove = utxo_add d\<rparr>"

definition utxo_to_reversed :: "UtxoDiff \<Rightarrow> UtxoDiff" where
  "utxo_to_reversed d = \<lparr>utxo_add = utxo_remove d, utxo_remove = utxo_add d\<rparr>"

definition utxo_with_diff_in_place :: "UtxoDiff \<Rightarrow> UtxoDiff \<Rightarrow> UtxoAlgebraError + UtxoDiff" where
  "utxo_with_diff_in_place d other =
     (case intersects_with_rule (utxo_remove other) (utxo_remove d)
             (\<lambda>op entry_to_add _. \<not> contains_with_daa_score (utxo_add d) op (block_daa_score entry_to_add)) of
        Some op \<Rightarrow> Inl (DuplicateRemovePoint op)
      | None \<Rightarrow>
     (case intersects_with_rule (utxo_add other) (utxo_add d)
             (\<lambda>op _ existing. \<not> contains_with_daa_score (utxo_remove other) op (block_daa_score existing)) of
        Some op \<Rightarrow> Inl (DuplicateAddPoint op)
      | None \<Rightarrow>
          let (intersection, remove1) =
                intersection_with_remainder_having_daa_score_in_place
                  (utxo_remove other) (utxo_add d) [] (utxo_remove d);
              add1 = remove_collection (utxo_add d) intersection;
              (intersection2, add2) =
                intersection_with_remainder_having_daa_score_in_place
                  (utxo_add other) remove1 [] add1;
              remove2 = remove_collection remove1 intersection2
          in Inr (d\<lparr>utxo_add := add2, utxo_remove := remove2\<rparr>)))"

definition utxo_with_diff :: "UtxoDiff \<Rightarrow> UtxoDiff \<Rightarrow> UtxoAlgebraError + UtxoDiff" where
  "utxo_with_diff d other = utxo_with_diff_in_place d other"

definition diff_from :: "UtxoDiff \<Rightarrow> UtxoDiff \<Rightarrow> UtxoAlgebraError + UtxoDiff" where
  "diff_from d other =
     (let not_added_removed = (\<lambda>op this_e other_e.
            \<not> (block_daa_score other_e \<noteq> block_daa_score this_e \<and>
               (contains_with_daa_score (utxo_add d) op (block_daa_score other_e) \<or>
                contains_with_daa_score (utxo_remove other) op (block_daa_score this_e))));
          not_removed_added = (\<lambda>op this_e other_e.
            \<not> (block_daa_score other_e \<noteq> block_daa_score this_e \<and>
               (contains_with_daa_score (utxo_remove d) op (block_daa_score other_e) \<or>
                contains_with_daa_score (utxo_add other) op (block_daa_score this_e))))
      in
      case intersects_with_rule (utxo_remove d) (utxo_add other) not_added_removed of
        Some op \<Rightarrow> Inl (DiffIntersectionPoint op ''both in self.add and in other.remove'')
      | None \<Rightarrow>
     (case intersects_with_rule (utxo_add d) (utxo_remove other) not_removed_added of
        Some op \<Rightarrow> Inl (DiffIntersectionPoint op ''both in self.remove and in other.add'')
      | None \<Rightarrow>
     (case intersects_with_rule (utxo_remove d) (utxo_remove other)
             (\<lambda>_ this_e other_e. block_daa_score other_e \<noteq> block_daa_score this_e) of
        Some op \<Rightarrow> Inl (DiffIntersectionPoint op
          ''both in self.remove and other.remove with different DAA scores, with no corresponding entry in self.add'')
      | None \<Rightarrow>
          let (result_remove, in_both_to_add) =
                subtraction_with_remainder_having_daa_score_in_place (utxo_add d) (utxo_add other) [] []
          in if intersects in_both_to_add (utxo_remove d) \<noteq> intersects in_both_to_add (utxo_remove other)
             then Inl (General
               ''diff_from: outpoint both in self.add, other.add, and only one of self.remove and other.remove'')
             else
               let result_remove2 = subtraction_having_daa_score_in_place
                     (utxo_remove other) (utxo_remove d) result_remove;
                   result_add = subtraction_having_daa_score_in_place
                     (utxo_remove d) (utxo_remove other) [];
                   result_add2 = subtraction_having_daa_score_in_place
                     (utxo_add other) (utxo_add d) result_add
               in Inr \<lparr>utxo_add = result_add2, utxo_remove = result_remove2\<rparr>)))"

definition remove_entry :: "UtxoDiff \<Rightarrow> TransactionOutpoint \<Rightarrow> UtxoEntry \<Rightarrow> UtxoAlgebraError + UtxoDiff" where
  "remove_entry d op e =
     (if contains_with_daa_score (utxo_add d) op (block_daa_score e) then
        Inr (d\<lparr>utxo_add := hm_remove op (utxo_add d)\<rparr>)
      else if \<not> hm_contains (utxo_remove d) op then
        Inr (d\<lparr>utxo_remove := hm_insert op e (utxo_remove d)\<rparr>)
      else Inl (DoubleRemoveCall op))"

definition add_entry :: "UtxoDiff \<Rightarrow> TransactionOutpoint \<Rightarrow> UtxoEntry \<Rightarrow> UtxoAlgebraError + UtxoDiff" where
  "add_entry d op e =
     (if contains_with_daa_score (utxo_remove d) op (block_daa_score e) then
        Inr (d\<lparr>utxo_remove := hm_remove op (utxo_remove d)\<rparr>)
      else if \<not> hm_contains (utxo_add d) op then
        Inr (d\<lparr>utxo_add := hm_insert op e (utxo_add d)\<rparr>)
      else Inl (DoubleAddCall op))"

text \<open>The entry \<open>add_transaction\<close> makes of an output, and its outpoint.\<close>

definition output_entry :: "Transaction \<Rightarrow> u64 \<Rightarrow> TransactionOutput \<Rightarrow> UtxoEntry" where
  "output_entry t daa out =
     \<lparr>amount = out_value out, entry_spk = out_spk out, block_daa_score = daa,
      entry_is_coinbase = is_coinbase t,
      covenant_id = map_option binding_covenant_id (covenant out)\<rparr>"

definition output_outpoint :: "Transaction \<Rightarrow> nat \<Rightarrow> TransactionOutpoint" where
  "output_outpoint t i = \<lparr>transaction_id = tx_id t, outpoint_index = of_nat i\<rparr>"

definition created_entries :: "Transaction \<Rightarrow> u64 \<Rightarrow> (TransactionOutpoint \<times> UtxoEntry) list" where
  "created_entries t daa =
     map (\<lambda>(i, out). (output_outpoint t i, output_entry t daa out)) (enumerate 0 (outputs t))"

definition spent_entries :: "PopulatedTransaction \<Rightarrow> (TransactionOutpoint \<times> UtxoEntry) list" where
  "spent_entries p = map (\<lambda>(i, e). (previous_outpoint i, e)) (populated_inputs p)"

definition add_transaction :: "UtxoDiff \<Rightarrow> PopulatedTransaction \<Rightarrow> u64 \<Rightarrow> UtxoAlgebraError + UtxoDiff" where
  "add_transaction d p daa =
     bindR (fold_result (\<lambda>d (op, e). remove_entry d op e) d (spent_entries p))
       (\<lambda>d. fold_result (\<lambda>d (op, e). add_entry d op e) d (created_entries (ptx p) daa))"

section \<open>Views\<close>

type_synonym utxo_view = "TransactionOutpoint \<Rightarrow> UtxoEntry option"

definition utxo_compose :: "utxo_view \<Rightarrow> UtxoDiff \<Rightarrow> utxo_view" where
  "utxo_compose base d op =
     (case hm_get (utxo_add d) op of
        Some e \<Rightarrow> Some e
      | None \<Rightarrow> if hm_contains (utxo_remove d) op then None else base op)"

section \<open>Well-formed diffs and diffs that fit a state\<close>

definition utxo_diff_wf :: "UtxoDiff \<Rightarrow> bool" where
  "utxo_diff_wf d \<longleftrightarrow> hm_wf (utxo_add d) \<and> hm_wf (utxo_remove d)"

definition utxo_cell :: "UtxoDiff \<Rightarrow> TransactionOutpoint \<Rightarrow> UtxoEntry cell" where
  "utxo_cell d op = (hm_get (utxo_add d) op, hm_get (utxo_remove d) op)"

text \<open>An outpoint and a DAA score determine the entry; \<open>E\<close> is that assignment.\<close>

definition utxo_known :: "(TransactionOutpoint \<Rightarrow> u64 \<Rightarrow> UtxoEntry) \<Rightarrow> utxo_view \<Rightarrow> bool" where
  "utxo_known E v \<longleftrightarrow> (\<forall>op e. v op = Some e \<longrightarrow> E op (block_daa_score e) = e)"

text \<open>What is removed is there; what is added is absent, or replaces a removed entry of
  another DAA score.\<close>

definition utxo_diff_fits :: "UtxoDiff \<Rightarrow> utxo_view \<Rightarrow> bool" where
  "utxo_diff_fits d v \<longleftrightarrow>
     (\<forall>op. (\<forall>e. hm_get (utxo_remove d) op = Some e \<longrightarrow> v op = Some e) \<and>
           (\<forall>e e'. hm_get (utxo_add d) op = Some e \<longrightarrow> v op = Some e' \<longrightarrow>
              hm_get (utxo_remove d) op = Some e' \<and> block_daa_score e' \<noteq> block_daa_score e))"

definition utxo_diff_valid ::
    "(TransactionOutpoint \<Rightarrow> u64 \<Rightarrow> UtxoEntry) \<Rightarrow> UtxoDiff \<Rightarrow> utxo_view \<Rightarrow> bool" where
  "utxo_diff_valid E d v \<longleftrightarrow>
     utxo_diff_wf d \<and> utxo_diff_fits d v \<and> utxo_known E v \<and> utxo_known E (hm_get (utxo_add d))"

section \<open>Lemmas\<close>

lemma contains_with_daa_score_same_tag:
  "contains_with_daa_score m op (block_daa_score e) = same_tag block_daa_score (hm_get m op) e"
  by (simp add: contains_with_daa_score_def same_tag_def split: option.split)

lemma utxo_compose_cell: "utxo_compose base d op = cell_apply (utxo_cell d op) (base op)"
  by (auto simp: utxo_compose_def cell_apply_def utxo_cell_def split: option.split)

lemma utxo_diff_fits_cell:
  "utxo_diff_fits d v \<longleftrightarrow> (\<forall>op. cell_valid block_daa_score (utxo_cell d op) (v op))"
  by (simp add: utxo_diff_fits_def cell_valid_def utxo_cell_def)

lemma hm_get_remove_collection:
  "hm_get (remove_collection m other) k = (if hm_get other k \<noteq> None then None else hm_get m k)"
proof -
  have "hm_get (foldl (\<lambda>m k. hm_remove k m) m ks) k = (if k \<in> set ks then None else hm_get m k)" for ks
    by (induction ks arbitrary: m) simp_all
  then show ?thesis by (simp add: remove_collection_def domIff)
qed

lemma hm_wf_remove_collection: "hm_wf m \<Longrightarrow> hm_wf (remove_collection m other)"
proof -
  have "hm_wf m \<Longrightarrow> hm_wf (foldl (\<lambda>m k. hm_remove k m) m ks)" for ks
    by (induction ks arbitrary: m) simp_all
  then show "hm_wf m \<Longrightarrow> hm_wf (remove_collection m other)" by (simp add: remove_collection_def)
qed

text \<open>Intersection and subtraction, at a key.\<close>

lemma intersection_with_remainder_get:
  assumes "hm_wf this"
    and "intersection_with_remainder_having_daa_score_in_place this other result remainder = (i, r)"
  shows "hm_get i k = (case hm_get this k of None \<Rightarrow> hm_get result k
      | Some e \<Rightarrow> if same_tag block_daa_score (hm_get other k) e then Some e else hm_get result k)"
    and "hm_get r k = (case hm_get this k of None \<Rightarrow> hm_get remainder k
      | Some e \<Rightarrow> if same_tag block_daa_score (hm_get other k) e then hm_get remainder k else Some e)"
proof -
  let ?f = "\<lambda>(result, remainder) (op, e).
     if contains_with_daa_score other op (block_daa_score e)
     then (hm_insert op e result, remainder) else (result, hm_insert op e remainder)"
  have "(hm_get (fst (foldl ?f s this)) k, hm_get (snd (foldl ?f s this)) k) =
      (case map_of this k of None \<Rightarrow> (hm_get (fst s) k, hm_get (snd s) k)
       | Some e \<Rightarrow> if same_tag block_daa_score (hm_get other k) e
                   then (Some e, hm_get (snd s) k) else (hm_get (fst s) k, Some e))" for s
    using assms(1)
    by (subst foldl_pointwise [where proj = "\<lambda>k s. (hm_get (fst s) k, hm_get (snd s) k)"
          and g = "\<lambda>k e c. if same_tag block_daa_score (hm_get other k) e
                   then (Some e, snd c) else (fst c, Some e)"])
       (auto simp: contains_with_daa_score_same_tag hm_wf_def split: prod.splits option.splits)
  from this [of "(result, remainder)"] show
    "hm_get i k = (case hm_get this k of None \<Rightarrow> hm_get result k
      | Some e \<Rightarrow> if same_tag block_daa_score (hm_get other k) e then Some e else hm_get result k)"
    "hm_get r k = (case hm_get this k of None \<Rightarrow> hm_get remainder k
      | Some e \<Rightarrow> if same_tag block_daa_score (hm_get other k) e then hm_get remainder k else Some e)"
    using assms(2)
    by (simp_all add: intersection_with_remainder_having_daa_score_in_place_def hm_get_def
        split: option.splits if_splits)
qed

lemma intersection_with_remainder_wf:
  assumes "hm_wf result" "hm_wf remainder"
    and "intersection_with_remainder_having_daa_score_in_place this other result remainder = (i, r)"
  shows "hm_wf i" "hm_wf r"
proof -
  let ?f = "\<lambda>(result, remainder) (op, e).
     if contains_with_daa_score other op (block_daa_score e)
     then (hm_insert op e result, remainder) else (result, hm_insert op e remainder)"
  have "hm_wf (fst (foldl ?f (result, remainder) this)) \<and>
      hm_wf (snd (foldl ?f (result, remainder) this))"
    by (rule foldl_invariant [where P = "\<lambda>s. hm_wf (fst s) \<and> hm_wf (snd s)"])
       (use assms(1,2) in \<open>auto split: prod.splits\<close>)
  then show "hm_wf i" "hm_wf r"
    using assms(3) by (simp_all add: intersection_with_remainder_having_daa_score_in_place_def)
qed

text \<open>Subtraction with remainder is intersection with the two results swapped.\<close>

lemma subtraction_is_intersection:
  "subtraction_with_remainder_having_daa_score_in_place this other result remainder =
    prod.swap (intersection_with_remainder_having_daa_score_in_place this other remainder result)"
proof -
  have "foldl (\<lambda>(result, remainder) (op, e).
       if \<not> contains_with_daa_score other op (block_daa_score e)
       then (hm_insert op e result, remainder) else (result, hm_insert op e remainder)) (a, b) this =
    prod.swap (foldl (\<lambda>(result, remainder) (op, e).
       if contains_with_daa_score other op (block_daa_score e)
       then (hm_insert op e result, remainder) else (result, hm_insert op e remainder)) (b, a) this)" for a b
    by (induction this arbitrary: a b) (auto split: prod.split)
  then show ?thesis
    by (simp add: subtraction_with_remainder_having_daa_score_in_place_def
        intersection_with_remainder_having_daa_score_in_place_def)
qed

lemma subtraction_get:
  assumes "hm_wf this"
  shows "hm_get (subtraction_having_daa_score_in_place this other result) k =
    (case hm_get this k of None \<Rightarrow> hm_get result k
      | Some e \<Rightarrow> if same_tag block_daa_score (hm_get other k) e then hm_get result k else Some e)"
  unfolding subtraction_having_daa_score_in_place_def hm_get_def [of this]
  using assms
  by (subst foldl_pointwise [where proj = "\<lambda>k m. hm_get m k"
        and g = "\<lambda>k e c. if same_tag block_daa_score (hm_get other k) e then c else Some e"])
     (auto simp: contains_with_daa_score_same_tag hm_wf_def)

lemma hm_wf_subtraction:
  "hm_wf result \<Longrightarrow> hm_wf (subtraction_having_daa_score_in_place this other result)"
  unfolding subtraction_having_daa_score_in_place_def
  by (erule foldl_invariant) (auto split: prod.splits)

lemma intersects_with_rule_None:
  assumes "hm_wf m" "hm_wf other"
  shows "intersects_with_rule m other rule = None \<longleftrightarrow>
    (\<forall>k v1 v2. hm_get m k = Some v1 \<longrightarrow> hm_get other k = Some v2 \<longrightarrow> \<not> rule k v1 v2)"
  unfolding intersects_with_rule_def hm_get_in_set [OF assms(1), symmetric]
    hm_get_in_set [OF assms(2), symmetric]
  using hm_get_in_set [OF assms(1)] hm_get_in_set [OF assms(2)]
  by (auto simp: find_None_iff split: option.splits)

lemma intersects_iff: "intersects m other \<longleftrightarrow> (\<exists>k. hm_get m k \<noteq> None \<and> hm_get other k \<noteq> None)"
  by (auto simp: intersects_def list_ex_iff dom_def)

lemma utxo_known_compose:
  "utxo_known E v \<Longrightarrow> utxo_known E (hm_get (utxo_add d)) \<Longrightarrow> utxo_known E (utxo_compose v d)"
  by (simp add: utxo_known_def utxo_compose_def split: option.splits)

text \<open>\<open>with_diff_in_place\<close> on diffs that fit: the checks pass and each cell is composed.\<close>

lemma utxo_with_diff_cells:
  assumes wf: "utxo_diff_wf d" "utxo_diff_wf other"
    and fits: "utxo_diff_fits d v" "utxo_diff_fits other (utxo_compose v d)"
  shows "\<exists>d'. utxo_with_diff_in_place d other = Inr d' \<and> utxo_diff_wf d' \<and>
    (\<forall>op. utxo_cell d' op = cell_with block_daa_score (utxo_cell d op) (utxo_cell other op))"
proof -
  have cv: "cell_valid block_daa_score (utxo_cell d op) (v op)"
    "cell_valid block_daa_score (utxo_cell other op) (cell_apply (utxo_cell d op) (v op))" for op
    using fits by (simp_all add: utxo_diff_fits_cell utxo_compose_cell)
  have c1: "intersects_with_rule (utxo_remove other) (utxo_remove d)
      (\<lambda>op e _. \<not> contains_with_daa_score (utxo_add d) op (block_daa_score e)) = None"
    using wf cell_checks_pass(1) [OF cv]
    by (simp add: utxo_diff_wf_def intersects_with_rule_None contains_with_daa_score_same_tag utxo_cell_def)
  have c2: "intersects_with_rule (utxo_add other) (utxo_add d)
      (\<lambda>op _ e. \<not> contains_with_daa_score (utxo_remove other) op (block_daa_score e)) = None"
    using wf cell_checks_pass(2) [OF cv]
    by (simp add: utxo_diff_wf_def intersects_with_rule_None contains_with_daa_score_same_tag utxo_cell_def)
  obtain i1 r1 where i1: "intersection_with_remainder_having_daa_score_in_place
      (utxo_remove other) (utxo_add d) [] (utxo_remove d) = (i1, r1)" by fastforce
  define a1 where "a1 = remove_collection (utxo_add d) i1"
  obtain i2 a2 where i2: "intersection_with_remainder_having_daa_score_in_place
      (utxo_add other) r1 [] a1 = (i2, a2)" by fastforce
  define d' where "d' = d\<lparr>utxo_add := a2, utxo_remove := remove_collection r1 i2\<rparr>"
  have "utxo_with_diff_in_place d other = Inr d'"
    by (simp add: utxo_with_diff_in_place_def c1 c2 i1 i2 d'_def a1_def [symmetric])
  moreover have "utxo_diff_wf d'"
    using wf intersection_with_remainder_wf [OF _ _ i1] intersection_with_remainder_wf [OF _ _ i2]
    by (simp add: utxo_diff_wf_def d'_def hm_wf_remove_collection a1_def)
  moreover have "utxo_cell d' op = cell_with block_daa_score (utxo_cell d op) (utxo_cell other op)" for op
  proof -
    have wfo: "hm_wf (utxo_remove other)" "hm_wf (utxo_add other)"
      using wf by (simp_all add: utxo_diff_wf_def)
    show ?thesis
      by (cases "hm_get (utxo_add other) op"; cases "hm_get (utxo_remove other) op")
         (simp_all add: utxo_cell_def d'_def hm_get_remove_collection a1_def cell_with_def
          cell_remove_def cell_add_def intersection_with_remainder_get [OF wfo(1) i1]
          intersection_with_remainder_get [OF wfo(2) i2])
  qed
  ultimately show ?thesis by blast
qed

lemma utxo_cells_valid:
  assumes "utxo_diff_valid E d v" and wf: "utxo_diff_wf d'"
    and other: "\<And>op. cell_valid block_daa_score (other op) (utxo_compose v d op)"
      "\<And>op. cell_known block_daa_score (E op) (fst (other op))"
    and cell: "\<And>op. utxo_cell d' op = cell_with block_daa_score (utxo_cell d op) (other op)"
  shows "utxo_diff_valid E d' v \<and>
    utxo_compose v d' = (\<lambda>op. cell_apply (other op) (utxo_compose v d op))"
proof -
  have fits: "cell_valid block_daa_score (utxo_cell d op) (v op)"
    "cell_valid block_daa_score (other op) (cell_apply (utxo_cell d op) (v op))" for op
    using assms(1) other(1) by (simp_all add: utxo_diff_valid_def utxo_diff_fits_cell utxo_compose_cell)
  have known: "cell_known block_daa_score (E op) (v op)" for op
    using assms(1) by (simp add: utxo_diff_valid_def utxo_known_def cell_known_def)
  have app: "utxo_compose v d' = (\<lambda>op. cell_apply (other op) (utxo_compose v d op))"
    by (rule ext) (simp add: utxo_compose_cell cell cell_with_sound(1) [OF fits known other(2)])
  have "utxo_known E (utxo_compose v d)"
    using assms(1) by (simp add: utxo_diff_valid_def utxo_known_compose)
  then have "utxo_known E (utxo_compose v d')"
    using other(2) by (simp add: app utxo_known_def cell_known_def cell_apply_def split: option.splits)
  then have "utxo_known E (hm_get (utxo_add d'))"
    by (simp add: utxo_known_def utxo_compose_def split: option.splits)
  moreover have "utxo_diff_fits d' v"
    by (simp add: utxo_diff_fits_cell cell cell_with_sound(2) [OF fits known other(2)])
  ultimately show ?thesis using app wf assms(1) by (simp add: utxo_diff_valid_def)
qed

lemma utxo_with_diff_law:
  assumes "utxo_diff_valid E d v" and "utxo_diff_valid E other (utxo_compose v d)"
  shows "\<exists>d'. utxo_with_diff_in_place d other = Inr d' \<and> utxo_diff_valid E d' v \<and>
    utxo_compose v d' = utxo_compose (utxo_compose v d) other"
proof -
  obtain d' where d': "utxo_with_diff_in_place d other = Inr d'" "utxo_diff_wf d'"
    "\<And>op. utxo_cell d' op = cell_with block_daa_score (utxo_cell d op) (utxo_cell other op)"
    using utxo_with_diff_cells [of d other v] assms by (auto simp: utxo_diff_valid_def)
  have "utxo_diff_valid E d' v \<and>
      utxo_compose v d' = (\<lambda>op. cell_apply (utxo_cell other op) (utxo_compose v d op))"
    using assms(2) by (intro utxo_cells_valid [OF assms(1) d'(2) _ _ d'(3)])
      (simp_all add: utxo_diff_valid_def utxo_diff_fits_cell utxo_known_def cell_known_def utxo_cell_def)
  with d'(1) show ?thesis by (auto simp: utxo_compose_cell)
qed

lemma utxo_reverse_law:
  assumes "utxo_diff_valid E d v"
  shows "utxo_diff_valid E (utxo_to_reversed d) (utxo_compose v d)"
    and "utxo_compose (utxo_compose v d) (utxo_to_reversed d) = v"
proof -
  have cell: "utxo_cell (utxo_to_reversed d) op = (snd (utxo_cell d op), fst (utxo_cell d op))" for op
    by (simp add: utxo_cell_def utxo_to_reversed_def)
  have fits: "cell_valid block_daa_score (utxo_cell d op) (v op)" for op
    using assms by (simp add: utxo_diff_valid_def utxo_diff_fits_cell)
  show "utxo_compose (utxo_compose v d) (utxo_to_reversed d) = v"
    by (rule ext) (simp add: utxo_compose_cell cell cell_reverse [OF fits])
  have "utxo_diff_fits (utxo_to_reversed d) (utxo_compose v d)"
    by (simp add: utxo_diff_fits_cell utxo_compose_cell cell cell_reverse [OF fits])
  moreover have "utxo_known E (utxo_compose v d)"
    using assms by (simp add: utxo_diff_valid_def utxo_known_compose)
  moreover have "utxo_known E (hm_get (utxo_remove d))"
    using assms by (simp add: utxo_diff_valid_def utxo_known_def utxo_diff_fits_def)
  ultimately show "utxo_diff_valid E (utxo_to_reversed d) (utxo_compose v d)"
    using assms by (simp add: utxo_diff_valid_def utxo_diff_wf_def utxo_to_reversed_def)
qed

interpretation ud: reversible_diffs utxo_with_diff_in_place utxo_to_reversed
  "\<lambda>d v. utxo_compose v d" "utxo_diff_valid E" UtxoDiff_default for E
proof
  show "utxo_diff_valid E d v \<Longrightarrow> utxo_diff_valid E UtxoDiff_default v" for d v
    by (simp add: utxo_diff_valid_def utxo_diff_wf_def utxo_diff_fits_def utxo_known_def
        UtxoDiff_default_def)
  show "utxo_compose v UtxoDiff_default = v" for v
    by (rule ext) (simp add: utxo_compose_def UtxoDiff_default_def)
qed (simp_all add: utxo_with_diff_law utxo_reverse_law)

lemma remove_entry_law:
  assumes valid: "utxo_diff_valid E d v" and e: "utxo_compose v d op = Some e"
  shows "\<exists>d'. remove_entry d op e = Inr d' \<and> utxo_diff_valid E d' v \<and>
    utxo_compose v d' = (utxo_compose v d)(op := None)"
proof -
  let ?other = "\<lambda>k. if k = op then (None, Some e) else (None, None)"
  have fit: "cell_valid block_daa_score (utxo_cell d op) (v op)"
    using valid by (simp add: utxo_diff_valid_def utxo_diff_fits_cell)
  have "same_tag block_daa_score (hm_get (utxo_add d) op) e \<or> hm_get (utxo_remove d) op = None"
    using cell_checks_pass(1) [OF fit, of "(None, Some e)" e] e
    by (auto simp: utxo_compose_cell utxo_cell_def)
  then have "is_ok (remove_entry d op e)"
    by (auto simp: remove_entry_def contains_with_daa_score_same_tag)
  then obtain d' where d': "remove_entry d op e = Inr d'"
    by (auto simp: is_ok_iff)
  have "utxo_diff_wf d'" "utxo_cell d' k = cell_with block_daa_score (utxo_cell d k) (?other k)" for k
    using d' valid
    by (auto simp: remove_entry_def contains_with_daa_score_same_tag utxo_cell_def cell_with_def
        cell_remove_def utxo_diff_valid_def utxo_diff_wf_def split: if_splits)
  from utxo_cells_valid [OF valid this(1) _ _ this(2)] d' e show ?thesis
    by (auto simp: cell_known_def fun_eq_iff)
qed

lemma add_entry_law:
  assumes valid: "utxo_diff_valid E d v" and none: "utxo_compose v d op = None"
    and "E op (block_daa_score e) = e"
  shows "\<exists>d'. add_entry d op e = Inr d' \<and> utxo_diff_valid E d' v \<and>
    utxo_compose v d' = (utxo_compose v d)(op \<mapsto> e)"
proof -
  let ?other = "\<lambda>k. if k = op then (Some e, None) else (None, None)"
  have "hm_get (utxo_add d) op = None"
    using none by (simp add: utxo_compose_def split: option.splits)
  then have "is_ok (add_entry d op e)" by (simp add: add_entry_def)
  then obtain d' where d': "add_entry d op e = Inr d'"
    by (auto simp: is_ok_iff)
  have "utxo_diff_wf d'" "utxo_cell d' k = cell_with block_daa_score (utxo_cell d k) (?other k)" for k
    using d' valid
    by (auto simp: add_entry_def contains_with_daa_score_same_tag utxo_cell_def cell_with_def
        cell_add_def utxo_diff_valid_def utxo_diff_wf_def split: if_splits)
  from utxo_cells_valid [OF valid this(1) _ _ this(2)] d' none assms(3) show ?thesis
    by (auto simp: cell_known_def fun_eq_iff)
qed

text \<open>Applying a whole transaction: its inputs leave the view, its outputs enter it.\<close>

lemma remove_entries_law:
  assumes "utxo_diff_valid E d v" and "distinct (map fst xs)"
    and "\<forall>(op, e) \<in> set xs. utxo_compose v d op = Some e"
  shows "\<exists>d'. fold_result (\<lambda>d (op, e). remove_entry d op e) d xs = Inr d' \<and>
    utxo_diff_valid E d' v \<and> utxo_compose v d' = utxo_compose v d |` (- fst ` set xs)"
  using assms
proof (induction xs arbitrary: d)
  case (Cons x xs)
  obtain op e where x: "x = (op, e)" by fastforce
  obtain d1 where d1: "remove_entry d op e = Inr d1" "utxo_diff_valid E d1 v"
    "utxo_compose v d1 = (utxo_compose v d)(op := None)"
    using remove_entry_law [OF Cons.prems(1), of op e] Cons.prems(3) by (auto simp: x)
  have "op' \<noteq> op" if "(op', e') \<in> set xs" for op' e'
    using Cons.prems(2) that by (force simp: x)
  then have "\<forall>(op', e) \<in> set xs. utxo_compose v d1 op' = Some e"
    using Cons.prems(3) by (auto simp: d1(3))
  then obtain d' where d': "fold_result (\<lambda>d (op, e). remove_entry d op e) d1 xs = Inr d'"
    "utxo_diff_valid E d' v" "utxo_compose v d' = utxo_compose v d1 |` (- fst ` set xs)"
    using Cons.IH [OF d1(2)] Cons.prems(2) by auto
  then show ?case by (auto simp: x d1(1) d1(3) fun_eq_iff restrict_map_def)
qed (auto simp: fun_eq_iff restrict_map_def)

lemma add_entries_law:
  assumes "utxo_diff_valid E d v" and "distinct (map fst xs)"
    and "\<forall>(op, e) \<in> set xs. utxo_compose v d op = None \<and> E op (block_daa_score e) = e"
  shows "\<exists>d'. fold_result (\<lambda>d (op, e). add_entry d op e) d xs = Inr d' \<and>
    utxo_diff_valid E d' v \<and> utxo_compose v d' = utxo_compose v d ++ map_of xs"
  using assms
proof (induction xs arbitrary: d)
  case (Cons x xs)
  obtain op e where x: "x = (op, e)" by fastforce
  obtain d1 where d1: "add_entry d op e = Inr d1" "utxo_diff_valid E d1 v"
    "utxo_compose v d1 = (utxo_compose v d)(op \<mapsto> e)"
    using add_entry_law [OF Cons.prems(1), of op e] Cons.prems(3) by (auto simp: x)
  have "op' \<noteq> op" if "(op', e') \<in> set xs" for op' e'
    using Cons.prems(2) that by (force simp: x)
  then have "\<forall>(op', e) \<in> set xs. utxo_compose v d1 op' = None \<and> E op' (block_daa_score e) = e"
    using Cons.prems(3) by (auto simp: d1(3))
  then obtain d' where d': "fold_result (\<lambda>d (op, e). add_entry d op e) d1 xs = Inr d'"
    "utxo_diff_valid E d' v" "utxo_compose v d' = utxo_compose v d1 ++ map_of xs"
    using Cons.IH [OF d1(2)] Cons.prems(2) by auto
  moreover have "map_of xs op = None" using Cons.prems(2) by (simp add: x map_of_eq_None_iff)
  ultimately show ?case by (auto simp: x d1(1) d1(3) fun_eq_iff map_add_def split: option.splits)
qed simp

lemma map_fst_created_entries:
  "map fst (created_entries t daa) = map (output_outpoint t) [0..<length (outputs t)]"
  by (simp add: created_entries_def comp_def case_prod_beta enumerate_eq_zip map_fst_zip
      flip: map_map [of "output_outpoint t" fst, unfolded comp_def])

lemma distinct_created_entries:
  assumes "length (outputs t) < 2 ^ 32"
  shows "distinct (map fst (created_entries t daa))"
proof -
  have "i = j" if "(of_nat i :: u32) = of_nat j" "i < 2 ^ 32" "j < 2 ^ 32" for i j
    using that by (simp add: word_of_nat_eq_iff take_bit_nat_eq_self)
  then have "inj_on (output_outpoint t) {0..<length (outputs t)}"
    using assms by (auto simp: inj_on_def output_outpoint_def)
  then show ?thesis by (simp add: map_fst_created_entries distinct_map)
qed

lemma add_transaction_law:
  assumes valid: "utxo_diff_valid E d v" and "length (outputs (ptx p)) < 2 ^ 32"
    and "distinct (map fst (spent_entries p))"
    and spent: "\<forall>(op, e) \<in> set (spent_entries p). utxo_compose v d op = Some e"
    and created: "\<forall>(op, e) \<in> set (created_entries (ptx p) daa).
      utxo_compose v d op = None \<and> E op daa = e"
  shows "\<exists>d'. add_transaction d p daa = Inr d' \<and> utxo_diff_valid E d' v \<and>
    utxo_compose v d' = (utxo_compose v d |` (- fst ` set (spent_entries p)))
      ++ map_of (created_entries (ptx p) daa)"
proof -
  obtain d1 where d1: "fold_result (\<lambda>d (op, e). remove_entry d op e) d (spent_entries p) = Inr d1"
    "utxo_diff_valid E d1 v"
    "utxo_compose v d1 = utxo_compose v d |` (- fst ` set (spent_entries p))"
    using remove_entries_law [OF valid assms(3) spent] by auto
  have "block_daa_score e = daa" if "(op, e) \<in> set (created_entries (ptx p) daa)" for op e
    using that by (auto simp: created_entries_def output_entry_def)
  then have "\<forall>(op, e) \<in> set (created_entries (ptx p) daa).
      utxo_compose v d1 op = None \<and> E op (block_daa_score e) = e"
    using created by (auto simp: d1(3) restrict_map_def)
  from add_entries_law [OF d1(2) distinct_created_entries [OF assms(2)] this] d1 show ?thesis
    by (auto simp: add_transaction_def)
qed

section \<open>The difference of two diffs from one base\<close>

definition cell_diff :: "('v \<Rightarrow> 't) \<Rightarrow> 'v cell \<Rightarrow> 'v cell \<Rightarrow> 'v cell" where
  "cell_diff tag c other =
     (let sub = (\<lambda>this that rest. case this of None \<Rightarrow> rest
                  | Some e \<Rightarrow> if same_tag tag that e then rest else Some e)
      in (sub (fst other) (fst c) (sub (snd c) (snd other) None),
          sub (snd other) (snd c) (sub (fst c) (fst other) None)))"

lemma cell_diff_between:
  assumes "cell_valid tag c b" and "cell_valid tag other b"
    and known: "cell_known tag E (fst c)" "cell_known tag E (fst other)"
  shows "cell_diff tag c other = cell_between (cell_apply c b) (cell_apply other b)"
proof -
  have eq: "v = w" if "fst c = Some v" "fst other = Some w" "tag v = tag w" for v w
    using that known by (metis cell_knownD)
  from assms(1) show ?thesis
  proof (cases rule: cell_valid_cases)
    case keep
    from assms(2) show ?thesis
      by (cases rule: cell_valid_cases)
         (use keep eq in \<open>auto simp: cell_diff_def same_tag_def cell_between_def\<close>)
  next
    case (remove x)
    from assms(2) show ?thesis
      by (cases rule: cell_valid_cases)
         (use remove eq in \<open>auto simp: cell_diff_def same_tag_def cell_between_def\<close>)
  next
    case (add y)
    from assms(2) show ?thesis
      by (cases rule: cell_valid_cases)
         (use add eq in \<open>auto simp: cell_diff_def same_tag_def cell_between_def\<close>)
  next
    case (replace x y)
    from assms(2) show ?thesis
      by (cases rule: cell_valid_cases)
         (use replace eq in \<open>auto simp: cell_diff_def same_tag_def cell_between_def\<close>)
  qed
qed

text \<open>Two diffs that fit one base, at a key where both touch it.\<close>

lemma fits_common:
  assumes "cell_valid tag c b" and "cell_valid tag other b"
  shows "snd c = Some u \<Longrightarrow> fst other = Some y \<Longrightarrow> tag y \<noteq> tag u \<and> snd other = Some u"
    and "snd c = Some u \<Longrightarrow> snd other = Some u' \<Longrightarrow> u = u'"
    and "fst c = Some z \<Longrightarrow> fst other = Some y \<Longrightarrow> snd c = snd other"
  using assms
  by (cases c; cases other; cases "fst c"; cases "snd c"; cases "fst other"; cases "snd other";
      simp)+

lemma diff_from_law:
  assumes "utxo_diff_valid E d v" and "utxo_diff_valid E other v"
  shows "\<exists>r. diff_from d other = Inr r \<and> utxo_diff_wf r \<and>
    (\<forall>op. utxo_cell r op = cell_between (utxo_compose v d op) (utxo_compose v other op))"
proof -
  have wf: "hm_wf (utxo_add d)" "hm_wf (utxo_remove d)" "hm_wf (utxo_add other)" "hm_wf (utxo_remove other)"
    using assms by (simp_all add: utxo_diff_valid_def utxo_diff_wf_def)
  have cv: "cell_valid block_daa_score (utxo_cell d op) (v op)"
    "cell_valid block_daa_score (utxo_cell other op) (v op)" for op
    using assms by (simp_all add: utxo_diff_valid_def utxo_diff_fits_cell)
  have known: "cell_known block_daa_score (E op) (fst (utxo_cell d op))"
    "cell_known block_daa_score (E op) (fst (utxo_cell other op))" for op
    using assms by (simp_all add: utxo_diff_valid_def utxo_known_def cell_known_def utxo_cell_def)
  note common = fits_common [OF cv, unfolded utxo_cell_def fst_conv snd_conv]
    fits_common [OF cv(2) cv(1), unfolded utxo_cell_def fst_conv snd_conv]
  have c1: "intersects_with_rule (utxo_remove d) (utxo_add other) (\<lambda>op this_e other_e.
      \<not> (block_daa_score other_e \<noteq> block_daa_score this_e \<and>
        (contains_with_daa_score (utxo_add d) op (block_daa_score other_e) \<or>
         contains_with_daa_score (utxo_remove other) op (block_daa_score this_e)))) = None"
    using common(1) by (simp add: intersects_with_rule_None wf contains_with_daa_score_def)
  have c2: "intersects_with_rule (utxo_add d) (utxo_remove other) (\<lambda>op this_e other_e.
      \<not> (block_daa_score other_e \<noteq> block_daa_score this_e \<and>
        (contains_with_daa_score (utxo_remove d) op (block_daa_score other_e) \<or>
         contains_with_daa_score (utxo_add other) op (block_daa_score this_e)))) = None"
    using common(4) by (simp add: intersects_with_rule_None wf contains_with_daa_score_def) metis
  have c3: "intersects_with_rule (utxo_remove d) (utxo_remove other)
      (\<lambda>_ this_e other_e. block_daa_score other_e \<noteq> block_daa_score this_e) = None"
    using common(2) by (simp add: intersects_with_rule_None wf) metis
  obtain both rr where i: "intersection_with_remainder_having_daa_score_in_place
      (utxo_add d) (utxo_add other) [] [] = (both, rr)" by fastforce
  note get = intersection_with_remainder_get [OF wf(1) i]
  have both: "hm_get (utxo_remove d) k = hm_get (utxo_remove other) k" if "hm_get both k \<noteq> None" for k
    using that common(3) by (auto simp: get same_tag_def split: option.splits if_splits)
  define r where "r =
    \<lparr>utxo_add = subtraction_having_daa_score_in_place (utxo_add other) (utxo_add d)
        (subtraction_having_daa_score_in_place (utxo_remove d) (utxo_remove other) []),
     utxo_remove = subtraction_having_daa_score_in_place (utxo_remove other) (utxo_remove d) rr\<rparr>"
  have "diff_from d other = Inr r"
    unfolding diff_from_def Let_def c1 c2 c3
    using both by (simp add: subtraction_is_intersection i r_def intersects_iff) metis
  moreover have "utxo_diff_wf r"
    using intersection_with_remainder_wf [OF _ _ i]
    by (simp add: r_def utxo_diff_wf_def hm_wf_subtraction)
  moreover have "utxo_cell r op = cell_diff block_daa_score (utxo_cell d op) (utxo_cell other op)" for op
    by (simp add: r_def utxo_cell_def cell_diff_def subtraction_get wf get Let_def
        cong: option.case_cong if_cong)
  ultimately show ?thesis
    by (simp add: cell_diff_between [OF cv known] utxo_compose_cell)
qed

lemma utxo_diff_canonical:
  assumes "utxo_diff_fits d v"
  shows "utxo_cell d op = cell_between (v op) (utxo_compose v d op)"
  unfolding utxo_compose_cell using assms
  by (intro cell_valid_canonical [where tag = block_daa_score]) (simp add: utxo_diff_fits_cell)

lemma between_valid:
  assumes "utxo_diff_wf r" and "\<And>op. utxo_cell r op = cell_between (v op) (w op)"
    and "utxo_known E v" and "utxo_known E w"
  shows "utxo_diff_valid E r v" and "utxo_compose v r = w"
proof -
  show "utxo_compose v r = w" by (rule ext) (simp add: utxo_compose_cell assms(2))
  have eq: "x = y" if "v op = Some x" "w op = Some y" "block_daa_score x = block_daa_score y" for op x y
    using assms(3,4) that by (metis utxo_known_def)
  have "utxo_diff_fits r v"
    unfolding utxo_diff_fits_cell assms(2)
    using eq by (auto simp: cell_between_def cell_valid_def)
  moreover have "utxo_known E (hm_get (utxo_add r))"
    unfolding utxo_known_def
  proof (intro allI impI)
    fix op e
    assume "hm_get (utxo_add r) op = Some e"
    then have "w op = Some e"
      using assms(2) [of op] by (simp add: utxo_cell_def cell_between_def split: if_splits)
    then show "E op (block_daa_score e) = e" using assms(4) by (simp add: utxo_known_def)
  qed
  ultimately show "utxo_diff_valid E r v" using assms by (simp add: utxo_diff_valid_def)
qed

section \<open>Properties\<close>

text \<open>C31: Composing UTXO diffs.  When \<open>d\<close> fits a UTXO state and \<open>other\<close> fits the state after \<open>d\<close>,
  \<open>with_diff_in_place\<close> succeeds; its result fits the first state, shows through a composed
  view exactly what the two views stacked show, and holds nothing superfluous: it adds
  what is new and removes what is gone.\<close>

theorem utxo_with_diff_composes:
  assumes "utxo_diff_valid E d v" and "utxo_diff_valid E other (utxo_compose v d)"
  shows "\<exists>d'. utxo_with_diff_in_place d other = Inr d' \<and> utxo_diff_valid E d' v \<and>
    utxo_compose v d' = utxo_compose (utxo_compose v d) other \<and>
    (\<forall>op. (hm_get (utxo_add d') op, hm_get (utxo_remove d') op) =
       (if v op = utxo_compose v d' op then (None, None) else (utxo_compose v d' op, v op)))"
proof -
  obtain d' where "utxo_with_diff_in_place d other = Inr d'" "utxo_diff_valid E d' v"
    "utxo_compose v d' = utxo_compose (utxo_compose v d) other"
    using utxo_with_diff_law [OF assms] by blast
  moreover from this(2) have "(hm_get (utxo_add d') op, hm_get (utxo_remove d') op) =
       (if v op = utxo_compose v d' op then (None, None) else (utxo_compose v d' op, v op))" for op
    using utxo_diff_canonical [of d' v op]
    by (simp add: utxo_diff_valid_def utxo_cell_def cell_between_def)
  ultimately show ?thesis by blast
qed

definition sample_entry :: "u64 \<Rightarrow> UtxoEntry" where
  "sample_entry daa = \<lparr>amount = 5, entry_spk = \<lparr>spk_version = 0, spk_script = []\<rparr>,
     block_daa_score = daa, entry_is_coinbase = False, covenant_id = None\<rparr>"

definition sample_point :: "u32 \<Rightarrow> TransactionOutpoint" where
  "sample_point i = \<lparr>transaction_id = [1], outpoint_index = i\<rparr>"

lemmas utxo_sample_simps =
  utxo_diff_valid_def utxo_diff_wf_def hm_wf_def utxo_diff_fits_def utxo_known_def
  utxo_compose_def hm_get_def sample_entry_def sample_point_def

text \<open>One diff spends output 0 (created at score 7) and creates output 1, the next undoes
  this but recreates output 0 at score 9.\<close>

theorem utxo_with_diff_composes_witness:
  "\<exists>d'. utxo_with_diff_in_place
      \<lparr>utxo_add = [(sample_point 1, sample_entry 8)], utxo_remove = [(sample_point 0, sample_entry 7)]\<rparr>
      \<lparr>utxo_add = [(sample_point 0, sample_entry 9)], utxo_remove = [(sample_point 1, sample_entry 8)]\<rparr>
      = Inr d' \<and>
    utxo_compose [sample_point 0 \<mapsto> sample_entry 7] d' (sample_point 0) = Some (sample_entry 9) \<and>
    utxo_compose [sample_point 0 \<mapsto> sample_entry 7] d' (sample_point 1) = None"
proof -
  let ?v = "[sample_point 0 \<mapsto> sample_entry 7]"
  let ?d = "\<lparr>utxo_add = [(sample_point 1, sample_entry 8)], utxo_remove = [(sample_point 0, sample_entry 7)]\<rparr>"
  let ?o = "\<lparr>utxo_add = [(sample_point 0, sample_entry 9)], utxo_remove = [(sample_point 1, sample_entry 8)]\<rparr>"
  have "utxo_diff_valid (\<lambda>_. sample_entry) ?d ?v"
    by (auto simp: utxo_sample_simps)
  moreover have "utxo_diff_valid (\<lambda>_. sample_entry) ?o (utxo_compose ?v ?d)"
    by (auto simp: utxo_sample_simps split: if_splits)
  ultimately obtain d' where "utxo_with_diff_in_place ?d ?o = Inr d'"
    "utxo_compose ?v d' = utxo_compose (utxo_compose ?v ?d) ?o"
    using utxo_with_diff_composes by blast
  moreover have "utxo_compose (utxo_compose ?v ?d) ?o (sample_point 0) = Some (sample_entry 9)"
    "utxo_compose (utxo_compose ?v ?d) ?o (sample_point 1) = None"
    by (simp_all add: utxo_compose_def hm_get_def sample_point_def)
  ultimately show ?thesis by metis
qed

text \<open>The difference of two diffs.  For two diffs that fit one UTXO state, \<open>diff_from\<close>
  succeeds and its result fits the state after the first diff and leads to the state after
  the second.\<close>

lemma utxo_diff_from_connects:
  assumes "utxo_diff_valid E d v" and "utxo_diff_valid E other v"
  shows "\<exists>r. diff_from d other = Inr r \<and> utxo_diff_valid E r (utxo_compose v d) \<and>
    utxo_compose (utxo_compose v d) r = utxo_compose v other"
proof -
  obtain r where r: "diff_from d other = Inr r" "utxo_diff_wf r"
    "\<And>op. utxo_cell r op = cell_between (utxo_compose v d op) (utxo_compose v other op)"
    using diff_from_law [OF assms] by blast
  have "utxo_known E (utxo_compose v d)" "utxo_known E (utxo_compose v other)"
    using assms by (simp_all add: utxo_diff_valid_def utxo_known_compose)
  with between_valid [OF r(2,3)] r(1) show ?thesis by blast
qed

lemma utxo_diff_from_connects_witness:
  "\<exists>r. diff_from
      \<lparr>utxo_add = [(sample_point 1, sample_entry 8)], utxo_remove = [(sample_point 0, sample_entry 7)]\<rparr>
      \<lparr>utxo_add = [(sample_point 0, sample_entry 9)], utxo_remove = [(sample_point 0, sample_entry 7)]\<rparr>
      = Inr r \<and>
    utxo_compose [sample_point 1 \<mapsto> sample_entry 8] r (sample_point 0) = Some (sample_entry 9)"
proof -
  let ?v = "[sample_point 0 \<mapsto> sample_entry 7]"
  let ?d = "\<lparr>utxo_add = [(sample_point 1, sample_entry 8)], utxo_remove = [(sample_point 0, sample_entry 7)]\<rparr>"
  let ?o = "\<lparr>utxo_add = [(sample_point 0, sample_entry 9)], utxo_remove = [(sample_point 0, sample_entry 7)]\<rparr>"
  have "utxo_diff_valid (\<lambda>_. sample_entry) ?d ?v" "utxo_diff_valid (\<lambda>_. sample_entry) ?o ?v"
    by (auto simp: utxo_sample_simps)
  then obtain r where "diff_from ?d ?o = Inr r" "utxo_compose (utxo_compose ?v ?d) r = utxo_compose ?v ?o"
    using utxo_diff_from_connects by blast
  moreover have "utxo_compose ?v ?d = [sample_point 1 \<mapsto> sample_entry 8]"
    by (auto simp: utxo_compose_def hm_get_def sample_point_def fun_eq_iff)
  moreover have "utxo_compose ?v ?o (sample_point 0) = Some (sample_entry 9)"
    by (simp add: utxo_compose_def hm_get_def)
  ultimately show ?thesis by metis
qed

end
