(* ===== verification/Merkle.thy ===== *)
theory Merkle
  imports Tx_Types "HOL-Library.Log_Nat"
begin

text \<open>
  Merkle roots: \<^verbatim>\<open>src/crypto/merkle/src/lib.rs\<close> (the tree in an array), \<^verbatim>\<open>streaming.rs\<close> (the builder
  on a stack) and \<^verbatim>\<open>src/consensus/core/src/merkle.rs\<close>.  The hasher is a parameter: the function from
  the bytes written to the hash.  An index out of range panics.
\<close>

section \<open>Arrays\<close>

definition index_at :: "'a list \<Rightarrow> nat \<Rightarrow> ('e, 'a) outcome" where
  "index_at xs i = (if i < length xs then Inr (xs ! i) else Inl Panic)"

definition index_set :: "'a list \<Rightarrow> nat \<Rightarrow> 'a \<Rightarrow> ('e, 'a list) outcome" where
  "index_set xs i x = (if i < length xs then Inr (xs[i := x]) else Inl Panic)"

definition next_power_of_two :: "nat \<Rightarrow> nat" where
  "next_power_of_two n = 2 ^ ceillog2 n"

text \<open>The even numbers below \<open>n\<close>: \<^verbatim>\<open>(0..n).step_by(2)\<close>.\<close>

definition step_by_two :: "nat \<Rightarrow> nat list" where
  "step_by_two n = map ((*) 2) [0..<(n + 1) div 2]"

section \<open>The tree in an array\<close>

definition merkle_hash_with_hasher :: "(bytes \<Rightarrow> hash) \<Rightarrow> hash \<Rightarrow> hash \<Rightarrow> hash" where
  "merkle_hash_with_hasher H left right = H (left @ right)"

definition merkle_node :: "(bytes \<Rightarrow> hash) \<Rightarrow> hash option list \<Rightarrow> nat \<times> nat \<Rightarrow> ('e, hash option list) outcome" where
  "merkle_node H merkles = (\<lambda>(offset, i).
     bindR (index_at merkles i) (\<lambda>l.
     case l of
       None \<Rightarrow> index_set merkles offset None
     | Some left \<Rightarrow>
         bindR (index_at merkles (i + 1)) (\<lambda>r.
         index_set merkles offset (Some (merkle_hash_with_hasher H left (case r of Some right \<Rightarrow> right | None \<Rightarrow> ZERO_HASH))))))"

definition calc_merkle_root_with_hasher :: "(bytes \<Rightarrow> hash) \<Rightarrow> hash list \<Rightarrow> ('e, hash) outcome" where
  "calc_merkle_root_with_hasher H hashes =
     (if length hashes = 0 then Inr ZERO_HASH
      else if length hashes = 1 then unwrap (find (\<lambda>_. True) hashes)
      else
        let next_pot = next_power_of_two (length hashes); vec_len = 2 * next_pot - 1 in
        bindR (fold_result (\<lambda>merkles (i, h). index_set merkles i (Some h)) (replicate vec_len None) (enumerate 0 hashes)) (\<lambda>merkles.
        bindR (fold_result (merkle_node H) merkles
                 (zip [next_pot..<next_pot + vec_len] (step_by_two (vec_len - 1)))) (\<lambda>merkles.
        bindR (index_at merkles (length merkles - 1)) unwrap)))"

definition calc_hash_merkle_root :: "(bytes \<Rightarrow> hash) \<Rightarrow> (Transaction \<Rightarrow> hash) \<Rightarrow> Transaction list \<Rightarrow> ('e, hash) outcome" where
  "calc_hash_merkle_root H tx_hash txs = calc_merkle_root_with_hasher H (map tx_hash txs)"

section \<open>The streaming builder\<close>

definition MAX_STACK :: nat where "MAX_STACK = 32"

record StreamingMerkleBuilder =
  builder_stack :: "(u32 \<times> hash) list"
  stack_len :: nat
  leaf_count :: u32

definition StreamingMerkleBuilder_new :: StreamingMerkleBuilder where
  "StreamingMerkleBuilder_new = \<lparr>builder_stack = replicate MAX_STACK (0, ZERO_HASH), stack_len = 0, leaf_count = 0\<rparr>"

text \<open>The loop of \<^verbatim>\<open>add_leaf\<close>: the length of the stack left, the level and the hash reached.\<close>

fun merge_loop :: "(bytes \<Rightarrow> hash) \<Rightarrow> (u32 \<times> hash) list \<Rightarrow> nat \<Rightarrow> u32 \<Rightarrow> hash \<Rightarrow> ('e, nat \<times> u32 \<times> hash) outcome" where
  "merge_loop H st 0 level current = Inr (0, level, current)"
| "merge_loop H st (Suc n) level current =
     bindR (index_at st n) (\<lambda>(top_level, top_hash).
     if top_level \<noteq> level then Inr (Suc n, level, current)
     else bindR (padd level 1) (\<lambda>level. merge_loop H st n level (merkle_hash_with_hasher H top_hash current)))"

definition add_leaf :: "(bytes \<Rightarrow> hash) \<Rightarrow> StreamingMerkleBuilder \<Rightarrow> hash \<Rightarrow> ('e, StreamingMerkleBuilder) outcome" where
  "add_leaf H b h =
     bindR (merge_loop H (builder_stack b) (stack_len b) 0 h) (\<lambda>(n, level, current).
     bindR (index_set (builder_stack b) n (level, current)) (\<lambda>st.
     bindR (padd (leaf_count b) 1) (\<lambda>count.
     Inr \<lparr>builder_stack = st, stack_len = n + 1, leaf_count = count\<rparr>)))"

text \<open>The padding loop of \<^verbatim>\<open>finalize\<close>; the counter stays below the level, so it cannot overflow.\<close>

function pad_to :: "(bytes \<Rightarrow> hash) \<Rightarrow> u32 \<Rightarrow> hash \<Rightarrow> u32 \<Rightarrow> hash \<times> u32" where
  "pad_to H level result_hash result_level =
     (if result_level < level then pad_to H level (merkle_hash_with_hasher H result_hash ZERO_HASH) (result_level + 1)
      else (result_hash, result_level))"
  by pat_completeness auto
termination
proof (relation "measure (\<lambda>(H, level, _, result_level). unat level - unat result_level)")
  fix level result_level :: u32 and H :: "bytes \<Rightarrow> hash" and r
  assume "result_level < level"
  then have "unat (result_level + 1) = unat result_level + 1" "unat result_level < unat level"
    using unat_less_two_power [of level] by (auto simp: word_less_nat_alt intro!: unat_add_no_overflow [of result_level 1, simplified])
  then show "((H, level, merkle_hash_with_hasher H r ZERO_HASH, result_level + 1), H, level, r, result_level)
      \<in> measure (\<lambda>(H, level, _, result_level). unat level - unat result_level)" by simp
qed simp

declare pad_to.simps [simp del]

definition finalize_node ::
    "(bytes \<Rightarrow> hash) \<Rightarrow> (u32 \<times> hash) list \<Rightarrow> hash \<times> u32 \<times> bool \<Rightarrow> nat \<Rightarrow> ('e, hash \<times> u32 \<times> bool) outcome" where
  "finalize_node H st = (\<lambda>(result_hash, result_level, first) i.
     bindR (index_at st i) (\<lambda>(level, h).
     if first then Inr (h, level, False)
     else
       let (result_hash, result_level) = pad_to H level result_hash result_level in
       bindR (padd result_level 1) (\<lambda>result_level.
       Inr (merkle_hash_with_hasher H h result_hash, result_level, False))))"

definition builder_finalize :: "(bytes \<Rightarrow> hash) \<Rightarrow> StreamingMerkleBuilder \<Rightarrow> ('e, hash) outcome" where
  "builder_finalize H b =
     (if leaf_count b = 0 then Inr ZERO_HASH
      else if leaf_count b = 1 then bindR (index_at (builder_stack b) 0) (\<lambda>(_, h). Inr h)
      else bindR (fold_result (finalize_node H (builder_stack b)) (ZERO_HASH, 0, True) (rev [0..<stack_len b])) (\<lambda>(result_hash, _).
        Inr result_hash))"

section \<open>The root of a padded tree\<close>

text \<open>The root of the tree of height \<open>k\<close> over between 1 and \<open>2 ^ k\<close> leaves: an absent right subtree
  counts as the zero hash.\<close>

fun padded_root :: "(bytes \<Rightarrow> hash) \<Rightarrow> nat \<Rightarrow> hash list \<Rightarrow> hash" where
  "padded_root H 0 xs = hd xs"
| "padded_root H (Suc k) xs =
     (if length xs \<le> 2 ^ k then merkle_hash_with_hasher H (padded_root H k xs) ZERO_HASH
      else merkle_hash_with_hasher H (padded_root H k (take (2 ^ k) xs)) (padded_root H k (drop (2 ^ k) xs)))"

definition merkle_root :: "(bytes \<Rightarrow> hash) \<Rightarrow> hash list \<Rightarrow> hash" where
  "merkle_root H xs = (if xs = [] then ZERO_HASH else padded_root H (ceillog2 (length xs)) xs)"


lemma ceillog2_fits: "1 \<le> n \<Longrightarrow> n \<le> 2 ^ ceillog2 n"
  using ceillog2_le_iff [of n "ceillog2 n"] by simp

lemma ceillog2_eqI:
  assumes "n \<le> 2 ^ k" and "k = 0 \<or> 2 ^ (k - 1) < n" and "1 \<le> n"
  shows "ceillog2 n = k"
proof (rule antisym)
  show "ceillog2 n \<le> k" using assms(1,3) by (simp add: ceillog2_le_iff)
  show "k \<le> ceillog2 n"
  proof (rule ccontr)
    assume "\<not> k \<le> ceillog2 n"
    then have "ceillog2 n \<le> k - 1" "k \<noteq> 0" by simp_all
    then show False using assms(2,3) by (simp add: ceillog2_le_iff)
  qed
qed

section \<open>The array holds the padded tree\<close>

lemma fill_array:
  "k + length hs \<le> length m \<Longrightarrow>
   fold_result (\<lambda>m (i, h). index_set m i (Some h)) m (enumerate k hs) = Inr (take k m @ map Some hs @ drop (k + length hs) m)"
proof (induction hs arbitrary: k m)
  case (Cons h hs)
  then have k: "k < length m" by simp
  then have "take (Suc k) (m[k := Some h]) = take k m @ [Some h]" by (simp add: take_Suc_conv_app_nth)
  then show ?case using Cons k by (simp add: index_set_def)
qed simp

definition node_value :: "(bytes \<Rightarrow> hash) \<Rightarrow> hash option \<Rightarrow> hash option \<Rightarrow> hash option" where
  "node_value H l r = map_option (\<lambda>left. merkle_hash_with_hasher H left (case r of Some right \<Rightarrow> right | None \<Rightarrow> ZERO_HASH)) l"

lemma merkle_node_eq:
  assumes "i + 1 < length m" and "offset < length m"
  shows "merkle_node H m (offset, i) = Inr (m[offset := node_value H (m ! i) (m ! (i + 1))])"
  using assms by (cases "m ! i") (simp_all add: merkle_node_def index_at_def index_set_def node_value_def)

lemma merkle_nodes:
  assumes "length m = 2 * pot - 1" and "c \<le> pot - 1"
  shows "\<exists>m'. fold_result (merkle_node H) m (map (\<lambda>j. (pot + j, 2 * j)) [0..<c]) = (Inr m' :: ('e, hash option list) outcome) \<and> length m' = length m \<and>
    (\<forall>i < pot. m' ! i = m ! i) \<and> (\<forall>j < c. m' ! (pot + j) = node_value H (m' ! (2 * j)) (m' ! (2 * j + 1)))"
  using assms(2)
proof (induction c)
  case (Suc c)
  then obtain m' where m': "fold_result (merkle_node H) m (map (\<lambda>j. (pot + j, 2 * j)) [0..<c]) = (Inr m' :: ('e, hash option list) outcome)" "length m' = length m"
    "\<forall>i < pot. m' ! i = m ! i" "\<forall>j < c. m' ! (pot + j) = node_value H (m' ! (2 * j)) (m' ! (2 * j + 1))" by auto
  let ?m = "m'[pot + c := node_value H (m' ! (2 * c)) (m' ! (2 * c + 1))]"
  have "merkle_node H m' (pot + c, 2 * c) = (Inr ?m :: ('e, hash option list) outcome)"
    using assms(1) Suc.prems m'(2) by (intro merkle_node_eq) auto
  then have "fold_result (merkle_node H) m (map (\<lambda>j. (pot + j, 2 * j)) [0..<Suc c]) = (Inr ?m :: ('e, hash option list) outcome)"
    using m'(1) by (simp add: fold_result_append)
  moreover have "?m ! (pot + j) = node_value H (?m ! (2 * j)) (?m ! (2 * j + 1))" if "j < Suc c" for j
  proof -
    have "pot + c \<noteq> 2 * j" "pot + c \<noteq> 2 * j + 1" using that Suc.prems by linarith+
    then show ?thesis using that m'(2,4) assms(1) Suc.prems by (cases "j = c") auto
  qed
  ultimately show ?case using m'(2,3) by auto
qed (simp add: assms)

lemma node_positions:
  assumes "1 \<le> pot"
  shows "zip [pot..<pot + (2 * pot - 1)] (step_by_two (2 * pot - 1 - 1)) = map (\<lambda>j. (pot + j, 2 * j)) [0..<pot - 1]"
proof -
  have "(2 * pot - 1 - 1 + 1) div 2 = pot - 1" using assms by presburger
  then show ?thesis
    using assms by (intro nth_equalityI) (auto simp: step_by_two_def)
qed

lemma padded_root_take:
  "padded_root H (Suc k) (take (2 ^ Suc k) xs) =
     merkle_hash_with_hasher H (padded_root H k (take (2 ^ k) xs))
       (if 2 ^ k < length xs then padded_root H k (take (2 ^ k) (drop (2 ^ k) xs)) else ZERO_HASH)"
  by (auto simp: min_def drop_take mult_2 not_less)

lemma tree_levels:
  fixes xs :: "hash list"
  assumes "length m = 2 * 2 ^ L - 1" and "length xs \<le> 2 ^ L"
    and leaves: "\<And>i. i < 2 ^ L \<Longrightarrow> m ! i = (if i < length xs then Some (xs ! i) else None)"
    and nodes: "\<And>j. j < 2 ^ L - 1 \<Longrightarrow> m ! (2 ^ L + j) = node_value H (m ! (2 * j)) (m ! (2 * j + 1))"
  shows "k \<le> L \<Longrightarrow> j < 2 ^ (L - k) \<Longrightarrow> m ! (2 * 2 ^ L - 2 * 2 ^ (L - k) + j) =
    (if j * 2 ^ k < length xs then Some (padded_root H k (take (2 ^ k) (drop (j * 2 ^ k) xs))) else None)"
proof (induction k arbitrary: j)
  case 0
  then show ?case by (simp add: leaves hd_drop_conv_nth hd_take)
next
  case (Suc k)
  define M :: nat where "M = 2 ^ (L - Suc k)"
  have two: "2 ^ (L - k) = 2 * M" using Suc.prems(1) by (simp add: M_def Suc_diff_Suc flip: power_Suc)
  have M: "1 \<le> M" "2 * M \<le> 2 ^ L" "j < M"
    using Suc.prems two power_increasing [of "L - k" L "2 :: nat"] by (simp_all add: M_def)
  define i where "i = 2 ^ L - 2 * M + j"
  have "2 * 2 ^ L - 2 * M + j = 2 ^ L + i" "2 * i = 2 * 2 ^ L - 4 * M + 2 * j" "i < 2 ^ L - 1"
    using M by (simp_all add: i_def)
  then have step: "m ! (2 * 2 ^ L - 2 * M + j) = node_value H (m ! (2 * 2 ^ L - 4 * M + 2 * j)) (m ! (2 * 2 ^ L - 4 * M + (2 * j + 1)))"
    using nodes [of i] by simp
  let ?a = "drop (j * 2 ^ Suc k) xs"
  have sub: "m ! (2 * 2 ^ L - 4 * M + j') = (if j' * 2 ^ k < length xs then Some (padded_root H k (take (2 ^ k) (drop (j' * 2 ^ k) xs))) else None)"
    if "j' < 2 * M" for j'
    using Suc.IH [of j'] Suc.prems(1) that by (simp add: two)
  have left: "(2 * j) * 2 ^ k = j * 2 ^ Suc k" and right: "(2 * j + 1) * 2 ^ k = j * 2 ^ Suc k + 2 ^ k" by (simp_all add: algebra_simps)
  have a: "length xs - j * 2 ^ Suc k = length ?a" by simp
  show ?case
  proof (cases "j * 2 ^ Suc k < length xs")
    case False
    then show ?thesis unfolding M_def [symmetric] step using sub [of "2 * j"] M(3) by (simp add: left node_value_def)
  next
    case True
    then have l: "m ! (2 * 2 ^ L - 4 * M + 2 * j) = Some (padded_root H k (take (2 ^ k) ?a))"
      using sub [of "2 * j"] M(3) by (simp add: left)
    have r: "m ! (2 * 2 ^ L - 4 * M + (2 * j + 1)) =
        (if 2 ^ k < length ?a then Some (padded_root H k (take (2 ^ k) (drop (2 ^ k) ?a))) else None)"
      using sub [of "2 * j + 1"] M(3) unfolding right by (auto simp: add.commute less_diff_conv)
    have "padded_root H (Suc k) (take (2 ^ Suc k) ?a) =
        merkle_hash_with_hasher H (padded_root H k (take (2 ^ k) ?a))
          (if 2 ^ k < length ?a then padded_root H k (take (2 ^ k) (drop (2 ^ k) ?a)) else ZERO_HASH)"
      by (rule padded_root_take)
    then show ?thesis unfolding M_def [symmetric] step l r using True by (simp add: node_value_def)
  qed
qed

lemma array_root:
  "calc_merkle_root_with_hasher H xs = (Inr (merkle_root H xs) :: ('a, hash) outcome)"
proof (cases "length xs \<le> 1")
  case True
  then show ?thesis
    by (cases xs) (auto simp: calc_merkle_root_with_hasher_def merkle_root_def unwrap_def)
next
  case False
  define L where "L = ceillog2 (length xs)"
  have len: "length xs \<le> 2 ^ L" using ceillog2_fits [of "length xs"] False by (simp add: L_def)
  have "(1 :: nat) \<le> 2 ^ L" by simp
  with len have room: "length xs \<le> 2 * 2 ^ L - 1" by linarith
  let ?m = "map Some xs @ replicate (2 * 2 ^ L - 1 - length xs) None"
  have fill: "fold_result (\<lambda>m (i, h). index_set m i (Some h)) (replicate (2 * 2 ^ L - 1) None) (enumerate 0 xs) = (Inr ?m :: ('a, hash option list) outcome)"
    using fill_array [of 0 xs "replicate (2 * 2 ^ L - 1) None"] room by simp
  have lenm: "length ?m = 2 * 2 ^ L - 1" using room by simp
  obtain m' where m': "fold_result (merkle_node H) ?m (map (\<lambda>j. (2 ^ L + j, 2 * j)) [0..<2 ^ L - 1]) =
      (Inr m' :: ('a, hash option list) outcome)"
    "length m' = 2 * 2 ^ L - 1" "\<forall>i < 2 ^ L. m' ! i = ?m ! i"
    "\<forall>j < 2 ^ L - 1. m' ! (2 ^ L + j) = node_value H (m' ! (2 * j)) (m' ! (2 * j + 1))"
    using merkle_nodes [of ?m "2 ^ L" "2 ^ L - 1" H, where 'e = 'a] room lenm by auto
  have "m' ! (2 * 2 ^ L - 2 * 2 ^ (L - L) + 0) =
      (if 0 * 2 ^ L < length xs then Some (padded_root H L (take (2 ^ L) (drop (0 * 2 ^ L) xs))) else None)"
    by (rule tree_levels) (use m'(2-4) len in \<open>auto simp: nth_append\<close>)
  then have "m' ! (length m' - 1) = Some (padded_root H L xs)"
    unfolding mult_0 drop_0 using False len m'(2) by (auto simp: numeral_2_eq_2)
  moreover have "0 < length m'" using m'(2) \<open>(1 :: nat) \<le> 2 ^ L\<close> by linarith
  ultimately show ?thesis
    using False fill m'(1) node_positions [of "2 ^ L"]
    by (simp add: calc_merkle_root_with_hasher_def next_power_of_two_def Let_def L_def [symmetric] index_at_def unwrap_def merkle_root_def)
qed

section \<open>The stack holds perfect trees\<close>

text \<open>A stack, its top first, over the leaves added so far: perfect trees of increasing height.\<close>

fun trees :: "(bytes \<Rightarrow> hash) \<Rightarrow> (u32 \<times> hash) list \<Rightarrow> hash list \<Rightarrow> bool" where
  "trees H [] xs \<longleftrightarrow> xs = []"
| "trees H ((l, h) # st) xs \<longleftrightarrow> (\<exists>ys c. xs = ys @ c \<and> length c = 2 ^ unat l \<and> h = padded_root H (unat l) c \<and>
     trees H st ys \<and> (\<forall>e \<in> set st. l < fst e))"

declare trees.simps(2) [simp del]

lemma trees_ConsE:
  assumes "trees H ((l, h) # st) xs"
  obtains ys c where "xs = ys @ c" and "length c = 2 ^ unat l" and "h = padded_root H (unat l) c" and "trees H st ys"
    and "\<forall>e \<in> set st. l < fst e"
  using assms unfolding trees.simps by blast

lemma trees_ConsI:
  "length c = 2 ^ unat l \<Longrightarrow> trees H st ys \<Longrightarrow> \<forall>e \<in> set st. l < fst e \<Longrightarrow> trees H ((l, padded_root H (unat l) c) # st) (ys @ c)"
  unfolding trees.simps by blast

definition builder_inv :: "(bytes \<Rightarrow> hash) \<Rightarrow> StreamingMerkleBuilder \<Rightarrow> hash list \<Rightarrow> bool" where
  "builder_inv H b xs \<longleftrightarrow> length (builder_stack b) = MAX_STACK \<and> stack_len b \<le> MAX_STACK \<and> unat (leaf_count b) = length xs \<and>
     trees H (rev (take (stack_len b) (builder_stack b))) xs"

lemma padded_root_join:
  assumes "length c = 2 ^ k" and "0 < length d"
  shows "merkle_hash_with_hasher H (padded_root H k c) (padded_root H k d) = padded_root H (Suc k) (c @ d)"
  using assms by simp

lemma trees_length:
  assumes "trees H st xs" and "length xs < 2 ^ 32"
  shows "length st \<le> 32"
proof -
  have small: "trees H st xs \<Longrightarrow> e \<in> set st \<Longrightarrow> 2 ^ unat (fst e) \<le> length xs" for e xs
    by (induction H st xs rule: trees.induct) (simp, fastforce elim!: trees_ConsE)
  have "unat (fst e) < 32" if "e \<in> set st" for e
    using small [OF assms(1) that] assms(2) by (metis le_less_trans nat_power_less_imp_less zero_less_numeral)
  then have "set (map (unat \<circ> fst) st) \<subseteq> {..<32}" by auto
  moreover have "trees H st xs \<Longrightarrow> distinct (map (unat \<circ> fst) st)" for xs
    by (induction H st xs rule: trees.induct) (auto simp: word_less_nat_alt elim!: trees_ConsE)
  ultimately show ?thesis
    using card_mono [of "{..<32}" "set (map (unat \<circ> fst) st)"] distinct_card [of "map (unat \<circ> fst) st"] assms(1) by simp
qed

lemma level_up:
  assumes "unat (l :: u32) < 32"
  shows "unat (l + 1) = Suc (unat l)" and "padd l 1 = Inr (l + 1)"
  using unat_add_no_overflow [of l 1] assms by (simp_all add: padd_ok)

lemma small_level: "length c = 2 ^ unat (l :: u32) \<Longrightarrow> length c < 2 ^ 32 \<Longrightarrow> unat l < 32"
  by (metis nat_power_less_imp_less zero_less_numeral)

lemma above_level: "unat (l :: u32) < 32 \<Longrightarrow> l < k \<Longrightarrow> l + 1 \<le> k"
  using level_up(1) [of l] by (simp add: word_le_nat_alt word_less_nat_alt)

lemma merge_loop_trees:
  assumes "trees H (rev (take n st)) ys" and "n \<le> length st" and "length c = 2 ^ unat level" and "current = padded_root H (unat level) c"
    and "\<forall>e \<in> set (take n st). level \<le> fst e" and "length ys + length c < 2 ^ 32"
  shows "\<exists>n' level' current'. merge_loop H st n level current = (Inr (n', level', current') :: ('e, nat \<times> u32 \<times> hash) outcome) \<and>
    n' \<le> n \<and> trees H ((level', current') # rev (take n' st)) (ys @ c)"
  using assms
proof (induction n arbitrary: level current ys c)
  case (Suc n)
  obtain tl th where top: "st ! n = (tl, th)" by fastforce
  have take: "take (Suc n) st = take n st @ [(tl, th)]" using Suc.prems(2) top by (simp add: take_Suc_conv_app_nth)
  from Suc.prems(1) obtain ys1 c1 where c1: "ys = ys1 @ c1" "length c1 = 2 ^ unat tl" "th = padded_root H (unat tl) c1"
    "trees H (rev (take n st)) ys1" "\<forall>e \<in> set (take n st). tl < fst e" by (auto simp: take elim!: trees_ConsE)
  have n: "n < length st" using Suc.prems(2) by simp
  show ?case
  proof (cases "tl = level")
    case False
    then have "level < tl" using Suc.prems(5) by (auto simp: take)
    then have "trees H ((level, current) # rev (take (Suc n) st)) (ys @ c)"
      unfolding Suc.prems(4) using Suc.prems(1,3) c1(5) by (intro trees_ConsI) (auto simp: take)
    then show ?thesis using False by (simp add: index_at_def n top)
  next
    case True
    have small: "unat level < 32" using small_level [OF Suc.prems(3)] Suc.prems(6) by simp
    note up = level_up [OF this]
    have "merkle_hash_with_hasher H th current = padded_root H (unat (level + 1)) (c1 @ c)"
      using padded_root_join [of c1 "unat level" c H] c1(2,3) Suc.prems(3,4) True up by simp
    moreover have "length (c1 @ c) = 2 ^ unat (level + 1)" using c1(2) Suc.prems(3) True up by simp
    moreover have "\<forall>e \<in> set (take n st). level + 1 \<le> fst e" using c1(5) above_level [OF small] True by auto
    ultimately obtain n' level' current' where
      "merge_loop H st n (level + 1) (merkle_hash_with_hasher H th current) = (Inr (n', level', current') :: ('e, nat \<times> u32 \<times> hash) outcome)"
      "n' \<le> n" "trees H ((level', current') # rev (take n' st)) (ys1 @ c1 @ c)"
      using Suc.IH [OF c1(4), of "c1 @ c" "level + 1" "merkle_hash_with_hasher H th current"] Suc.prems(6) n c1(1) by auto
    then show ?thesis using True c1(1) by (auto simp: index_at_def n top level_up(2) [OF small])
  qed
qed (auto intro: trees_ConsI [where ys = "[]", simplified])

lemma add_leaf_inv:
  assumes "builder_inv H b xs" and "length xs + 1 < 2 ^ 32"
  shows "\<exists>b'. add_leaf H b h = (Inr b' :: ('e, StreamingMerkleBuilder) outcome) \<and> builder_inv H b' (xs @ [h])"
proof -
  let ?st = "builder_stack b"
  have inv: "length ?st = 32" "stack_len b \<le> 32" "unat (leaf_count b) = length xs" "trees H (rev (take (stack_len b) ?st)) xs"
    using assms(1) by (simp_all add: builder_inv_def MAX_STACK_def)
  obtain n level current where merge: "merge_loop H ?st (stack_len b) 0 h = (Inr (n, level, current) :: ('e, nat \<times> u32 \<times> hash) outcome)"
    "n \<le> stack_len b" "trees H ((level, current) # rev (take n ?st)) (xs @ [h])"
    using merge_loop_trees [OF inv(4), of "[h]" 0 h, where 'e = 'e] inv(1,2) assms(2) by auto
  have n: "n < 32" using trees_length [OF merge(3)] assms(2) inv(1,2) merge(2) by simp
  have "leaf_count b + 1 = of_nat (length xs + 1)" by (simp flip: inv(3))
  then have count: "padd (leaf_count b) 1 = (Inr (leaf_count b + 1) :: ('e, u32) outcome)" "unat (leaf_count b + 1) = length xs + 1"
    using assms(2) inv(3) unat_add_no_overflow [of "leaf_count b" 1] by (simp_all add: padd_ok)
  have "take (n + 1) (?st[n := (level, current)]) = take n ?st @ [(level, current)]"
    using n inv(1) by (simp add: take_Suc_conv_app_nth)
  then show ?thesis
    using merge n inv(1) count by (simp add: add_leaf_def index_set_def builder_inv_def MAX_STACK_def)
qed

lemma add_leaves_inv:
  assumes "length xs < 2 ^ 32"
  shows "\<exists>b. fold_result (add_leaf H) StreamingMerkleBuilder_new xs = (Inr b :: ('e, StreamingMerkleBuilder) outcome) \<and> builder_inv H b xs"
  using assms
proof (induction xs rule: rev_induct)
  case Nil
  then show ?case by (simp add: builder_inv_def StreamingMerkleBuilder_new_def MAX_STACK_def)
next
  case (snoc x xs)
  then obtain b where "fold_result (add_leaf H) StreamingMerkleBuilder_new xs = (Inr b :: ('e, StreamingMerkleBuilder) outcome)"
    "builder_inv H b xs" by auto
  then show ?case using add_leaf_inv [of H b xs x, where 'e = 'e] snoc.prems by (auto simp: fold_result_append)
qed

text \<open>One leaf more than the counter can count.\<close>

lemma add_leaf_overflow:
  assumes "builder_inv H b xs" and "length xs + 1 = 2 ^ 32"
  shows "add_leaf H b h \<noteq> (Inr b' :: ('e, StreamingMerkleBuilder) outcome)"
proof -
  have "unat (leaf_count b) + 1 = 2 ^ 32" using assms by (simp add: builder_inv_def)
  then have "padd (leaf_count b) 1 \<noteq> (Inr c :: ('e, u32) outcome)" for c by (simp add: padd_eq)
  then show ?thesis by (auto simp: add_leaf_def bindR_eq_Inr)
qed

section \<open>Finishing the tree\<close>

lemma pad_to_root:
  assumes "length xs \<le> 2 ^ unat r" and "r \<le> level"
  shows "pad_to H level (padded_root H (unat r) xs) r = (padded_root H (unat level) xs, level)"
  using assms
proof (induction "unat level - unat r" arbitrary: r)
  case 0
  then have "r = level" by (simp add: word_le_nat_alt unat_inject)
  then show ?case by (simp add: pad_to.simps [of _ level _ level])
next
  case (Suc d)
  then have r: "r < level" by (auto simp: word_le_nat_alt word_less_nat_alt)
  then have up: "unat (r + 1) = Suc (unat r)"
    using unat_add_no_overflow [of r 1] unat_less_two_power [of level] by (simp add: word_less_nat_alt)
  then have "merkle_hash_with_hasher H (padded_root H (unat r) xs) ZERO_HASH = padded_root H (unat (r + 1)) xs"
    using Suc.prems(1) by simp
  moreover have "pad_to H level (padded_root H (unat (r + 1)) xs) (r + 1) = (padded_root H (unat level) xs, level)"
    using Suc.hyps(2) Suc.prems up r by (intro Suc.hyps(1)) (auto simp: word_le_nat_alt word_less_nat_alt)
  ultimately show ?case using r by (simp add: pad_to.simps [of _ level _ r])
qed

lemma finalize_loop:
  assumes "trees H (rev (take m st)) ys" and "m \<le> length st" and "0 < length rest" and "length rest \<le> 2 ^ unat r"
    and "unat r = 0 \<or> 2 ^ (unat r - 1) < length rest" and "\<forall>e \<in> set (take m st). r \<le> fst e" and "length ys + length rest < 2 ^ 32"
  shows "\<exists>r'. fold_result (finalize_node H st) (padded_root H (unat r) rest, r, False) (rev [0..<m]) =
      (Inr (padded_root H (unat r') (ys @ rest), r', False) :: ('e, hash \<times> u32 \<times> bool) outcome) \<and>
    length (ys @ rest) \<le> 2 ^ unat r' \<and> (unat r' = 0 \<or> 2 ^ (unat r' - 1) < length (ys @ rest))"
  using assms
proof (induction m arbitrary: r rest ys)
  case (Suc m)
  obtain l h where top: "st ! m = (l, h)" by fastforce
  have take: "take (Suc m) st = take m st @ [(l, h)]" using Suc.prems(2) top by (simp add: take_Suc_conv_app_nth)
  from Suc.prems(1) obtain ys1 c where c: "ys = ys1 @ c" "length c = 2 ^ unat l" "h = padded_root H (unat l) c"
    "trees H (rev (take m st)) ys1" "\<forall>e \<in> set (take m st). l < fst e" by (auto simp: take elim!: trees_ConsE)
  have "r \<le> l" using Suc.prems(6) by (simp add: take)
  then have rl: "unat r \<le> unat l" by (simp add: word_le_nat_alt)
  then have pad: "pad_to H l (padded_root H (unat r) rest) r = (padded_root H (unat l) rest, l)"
    using pad_to_root [OF Suc.prems(4)] \<open>r \<le> l\<close> by blast
  have small: "unat l < 32" using small_level [OF c(2)] Suc.prems(7) c(1) by simp
  note up = level_up [OF this]
  have "length rest \<le> 2 ^ unat l" using le_trans [OF Suc.prems(4) power_increasing [OF rl]] by simp
  then have len: "length (c @ rest) \<le> 2 ^ unat (l + 1)" "unat (l + 1) = 0 \<or> 2 ^ (unat (l + 1) - 1) < length (c @ rest)"
    using c(2) up Suc.prems(3) by simp_all
  have node: "finalize_node H st (padded_root H (unat r) rest, r, False) m =
      (Inr (padded_root H (unat (l + 1)) (c @ rest), l + 1, False) :: ('e, hash \<times> u32 \<times> bool) outcome)"
    using Suc.prems(2,3) padded_root_join [OF c(2), of rest H] c(3) up(1)
    by (simp add: finalize_node_def index_at_def top pad level_up(2) [OF small] del: padded_root.simps)
  have "\<forall>e \<in> set (take m st). l + 1 \<le> fst e" using c(5) above_level [OF small] by auto
  then show ?case
    using Suc.IH [OF c(4), of "c @ rest" "l + 1"] Suc.prems(2,3,7) len c(1) node by simp
qed simp

lemma builder_root:
  assumes "builder_inv H b xs" and "length xs < 2 ^ 32"
  shows "builder_finalize H b = (Inr (merkle_root H xs) :: ('e, hash) outcome)"
proof -
  let ?st = "builder_stack b"
  have inv: "length ?st = 32" "stack_len b \<le> 32" "unat (leaf_count b) = length xs" "trees H (rev (take (stack_len b) ?st)) xs"
    using assms(1) by (simp_all add: builder_inv_def MAX_STACK_def)
  show ?thesis
  proof (cases "stack_len b")
    case 0
    then have "xs = []" using inv(4) by simp
    then show ?thesis using inv(3) by (simp add: builder_finalize_def merkle_root_def unat_eq_0)
  next
    case (Suc m)
    obtain l h where top: "?st ! m = (l, h)" by fastforce
    have m: "m < length ?st" using Suc inv(1,2) by simp
    have take: "take (Suc m) ?st = take m ?st @ [(l, h)]" using m top by (simp add: take_Suc_conv_app_nth)
    from inv(4) obtain ys c where c: "xs = ys @ c" "length c = 2 ^ unat l" "h = padded_root H (unat l) c"
      "trees H (rev (take m ?st)) ys" "\<forall>e \<in> set (take m ?st). l < fst e" by (auto simp: Suc take elim!: trees_ConsE)
    have below: "\<forall>e \<in> set (take m ?st). l \<le> fst e" using c(5) by auto
    have "unat l = 0 \<or> 2 ^ (unat l - 1) < length c" unfolding c(2) by (cases "unat l") simp_all
    then obtain r where run: "fold_result (finalize_node H ?st) (h, l, False) (rev [0..<m]) =
        (Inr (padded_root H (unat r) xs, r, False) :: ('e, hash \<times> u32 \<times> bool) outcome)"
      and r: "length xs \<le> 2 ^ unat r" "unat r = 0 \<or> 2 ^ (unat r - 1) < length xs"
      using finalize_loop [OF c(4) _ _ _ _ below, of c, where 'e = 'e] m c(1-3) assms(2) by auto
    have "1 \<le> length xs" using c(1,2) by (cases c) auto
    then have root: "padded_root H (unat r) xs = merkle_root H xs"
      using ceillog2_eqI [OF r] by (auto simp: merkle_root_def)
    have "leaf_count b \<noteq> 0" using inv(3) \<open>1 \<le> length xs\<close> by auto
    show ?thesis
    proof (cases "leaf_count b = 1")
      case True
      then have one: "length xs = 1" using inv(3) by simp
      then have "ys = []" "unat l = 0" using c(1,2) by (cases ys; cases "unat l"; simp)+
      moreover from this have "m = 0" using c(4) m by (cases m; cases "?st ! (m - 1)") (auto simp: take_Suc_conv_app_nth elim!: trees_ConsE)
      ultimately show ?thesis
        using True c(1-3) top one m by (cases c) (simp_all add: builder_finalize_def index_at_def merkle_root_def)
    next
      case False
      then show ?thesis
        using \<open>leaf_count b \<noteq> 0\<close> run root m
        by (simp add: builder_finalize_def Suc finalize_node_def [of _ _] index_at_def top)
    qed
  qed
qed

section \<open>What a root determines\<close>

text \<open>The strings hashed for a padded tree, and a hasher that tells them apart from each other, from
  the leaves and from the padding.\<close>

fun merkle_writes :: "(bytes \<Rightarrow> hash) \<Rightarrow> nat \<Rightarrow> hash list \<Rightarrow> bytes set" where
  "merkle_writes H 0 xs = {}"
| "merkle_writes H (Suc k) xs =
     (if length xs \<le> 2 ^ k then insert (padded_root H k xs @ ZERO_HASH) (merkle_writes H k xs)
      else insert (padded_root H k (take (2 ^ k) xs) @ padded_root H k (drop (2 ^ k) xs))
        (merkle_writes H k (take (2 ^ k) xs) \<union> merkle_writes H k (drop (2 ^ k) xs)))"

definition hasher_separates :: "(bytes \<Rightarrow> hash) \<Rightarrow> bytes set \<Rightarrow> hash set \<Rightarrow> bool" where
  "hasher_separates H S X \<longleftrightarrow> inj_on H S \<and> (\<forall>w \<in> S. length (H w) = 32 \<and> H w \<noteq> ZERO_HASH \<and> H w \<notin> X) \<and>
     (\<forall>x \<in> X. length x = 32 \<and> x \<noteq> ZERO_HASH)"

abbreviation merkle_separates :: "(bytes \<Rightarrow> hash) \<Rightarrow> hash list \<Rightarrow> hash list \<Rightarrow> bool" where
  "merkle_separates H xs ys \<equiv> hasher_separates H
     (merkle_writes H (ceillog2 (length xs)) xs \<union> merkle_writes H (ceillog2 (length ys)) ys) (set xs \<union> set ys)"

lemma padded_root_cases:
  assumes "hasher_separates H S X" and "xs \<noteq> []" and "set xs \<subseteq> X" and "merkle_writes H k xs \<subseteq> S"
  shows "k = 0 \<and> padded_root H k xs \<in> X \<or> k \<noteq> 0 \<and> padded_root H k xs \<in> H ` S"
proof (cases k)
  case 0
  then show ?thesis using assms(2,3) by (cases xs) auto
next
  case (Suc j)
  have "\<exists>w \<in> merkle_writes H (Suc j) xs. padded_root H (Suc j) xs = H w"
    by (cases "length xs \<le> 2 ^ j") (simp_all add: merkle_hash_with_hasher_def)
  then show ?thesis using assms(4) Suc by (simp del: merkle_writes.simps padded_root.simps) blast
qed

lemma padded_root_sized:
  assumes "hasher_separates H S X" and "xs \<noteq> []" and "set xs \<subseteq> X" and "merkle_writes H k xs \<subseteq> S"
  shows "length (padded_root H k xs) = 32" and "padded_root H k xs \<noteq> ZERO_HASH"
proof -
  have "\<forall>x \<in> X \<union> H ` S. length x = 32 \<and> x \<noteq> ZERO_HASH" using assms(1) by (auto simp: hasher_separates_def)
  moreover have "padded_root H k xs \<in> X \<union> H ` S" using padded_root_cases [OF assms] by blast
  ultimately show "length (padded_root H k xs) = 32" and "padded_root H k xs \<noteq> ZERO_HASH" by blast+
qed

lemma padded_root_inject:
  assumes sep: "hasher_separates H S X"
  shows "xs \<noteq> [] \<Longrightarrow> ys \<noteq> [] \<Longrightarrow> set xs \<subseteq> X \<Longrightarrow> set ys \<subseteq> X \<Longrightarrow> length xs \<le> 2 ^ k \<Longrightarrow> length ys \<le> 2 ^ j \<Longrightarrow>
    merkle_writes H k xs \<subseteq> S \<Longrightarrow> merkle_writes H j ys \<subseteq> S \<Longrightarrow> padded_root H k xs = padded_root H j ys \<Longrightarrow> xs = ys"
proof (induction k arbitrary: j xs ys)
  case 0
  have "j = 0"
    using padded_root_cases [OF sep 0(1,3,7)] padded_root_cases [OF sep 0(2,4,8)] 0(9) sep unfolding hasher_separates_def by force
  then show ?case using 0 by (cases xs; cases ys) auto
next
  case (Suc k)
  have "j \<noteq> 0"
    using padded_root_cases [OF sep Suc(2,4,8)] padded_root_cases [OF sep Suc(3,5,9)] Suc(10) sep unfolding hasher_separates_def by force
  then obtain i where j: "j = Suc i" by (cases j) auto
  let ?parts = "\<lambda>k xs. if length xs \<le> 2 ^ k then (xs, []) else (take (2 ^ k) xs, drop (2 ^ k) xs)"
  obtain a b c d where ab: "?parts k xs = (a, b)" and cd: "?parts i ys = (c, d)" by fastforce
  let ?r = "\<lambda>k xs. if xs = [] then ZERO_HASH else padded_root H k xs"
  have xs: "xs = a @ b" "a \<noteq> []" "length a \<le> 2 ^ k" "length b \<le> 2 ^ k" "padded_root H (Suc k) xs = H (padded_root H k a @ ?r k b)"
    "padded_root H k a @ ?r k b \<in> S" "merkle_writes H k a \<subseteq> S" "b \<noteq> [] \<longrightarrow> merkle_writes H k b \<subseteq> S"
    using ab Suc.prems(1,5,7) by (auto simp: merkle_hash_with_hasher_def split: if_splits)
  have ys: "ys = c @ d" "c \<noteq> []" "length c \<le> 2 ^ i" "length d \<le> 2 ^ i" "padded_root H (Suc i) ys = H (padded_root H i c @ ?r i d)"
    "padded_root H i c @ ?r i d \<in> S" "merkle_writes H i c \<subseteq> S" "d \<noteq> [] \<longrightarrow> merkle_writes H i d \<subseteq> S"
    using cd Suc.prems(2,6,8) by (auto simp: j merkle_hash_with_hasher_def split: if_splits)
  have sub: "set a \<subseteq> X" "set b \<subseteq> X" "set c \<subseteq> X" "set d \<subseteq> X" using Suc.prems(3,4) xs(1) ys(1) by auto
  note a = padded_root_sized [OF sep xs(2) sub(1) xs(7)] and c = padded_root_sized [OF sep ys(2) sub(3) ys(7)]
  have "padded_root H k a @ ?r k b = padded_root H i c @ ?r i d"
    using Suc.prems(9) xs(5,6) ys(5,6) sep unfolding j hasher_separates_def inj_on_def by metis
  then have eq: "padded_root H k a = padded_root H i c" "?r k b = ?r i d" using a(1) c(1) by simp_all
  have "a = c" using Suc.IH [OF xs(2) ys(2) sub(1,3) xs(3) ys(3) xs(7) ys(7) eq(1)] .
  moreover have "b = [] \<longleftrightarrow> d = []"
    using eq(2) padded_root_sized(2) [OF sep _ sub(2)] padded_root_sized(2) [OF sep _ sub(4)] xs(8) ys(8) by metis
  moreover have "b \<noteq> [] \<Longrightarrow> b = d"
    using Suc.IH [OF _ _ sub(2,4) xs(4) ys(4)] eq(2) xs(8) ys(8) \<open>b = [] \<longleftrightarrow> d = []\<close> by simp
  ultimately show ?case using xs(1) ys(1) by auto
qed

lemma merkle_root_inject:
  assumes "merkle_separates H xs ys" and "merkle_root H xs = merkle_root H ys"
  shows "xs = ys"
proof -
  have sub: "set xs \<subseteq> set xs \<union> set ys" "set ys \<subseteq> set xs \<union> set ys" by auto
  note sized = padded_root_sized(2) [OF assms(1) _ sub(1)] padded_root_sized(2) [OF assms(1) _ sub(2)]
  show ?thesis
  proof (cases "xs = [] \<or> ys = []")
    case True
    then show ?thesis using assms(2) sized(1) [of "ceillog2 (length xs)"] sized(2) [of "ceillog2 (length ys)"]
      by (auto simp: merkle_root_def split: if_splits)
  next
    case False
    then have "1 \<le> length xs" "1 \<le> length ys" by (simp_all add: Suc_le_eq)
    then have fits: "length xs \<le> 2 ^ ceillog2 (length xs)" "length ys \<le> 2 ^ ceillog2 (length ys)" by (simp_all add: ceillog2_fits)
    show ?thesis
      by (rule padded_root_inject [OF assms(1) _ _ sub fits]) (use False assms(2) in \<open>auto simp: merkle_root_def\<close>)
  qed
qed

lemma streaming_run:
  assumes "length xs < 2 ^ 32"
  shows "bindR (fold_result (add_leaf H) StreamingMerkleBuilder_new xs) (builder_finalize H) = (Inr (merkle_root H xs) :: ('e, hash) outcome)"
proof -
  obtain b where "fold_result (add_leaf H) StreamingMerkleBuilder_new xs = (Inr b :: ('e, StreamingMerkleBuilder) outcome)" "builder_inv H b xs"
    using add_leaves_inv [OF assms, of H, where 'e = 'e] by blast
  then show ?thesis using builder_root [of H b xs, where 'e = 'e] assms by simp
qed

section \<open>Theorems\<close>

text \<open>C17: The streaming builder computes the root of the tree in the array.  For fewer than \<open>2 ^ 32\<close>
  leaves, adding them one by one to a new builder and finishing it gives the same hash as
  \<^verbatim>\<open>calc_merkle_root_with_hasher\<close> on all of them, whatever the hasher; neither of the two ever reads
  or writes outside its array or unwraps an absent hash.\<close>

theorem streaming_root_is_array_root:
  fixes H :: "bytes \<Rightarrow> hash"
  assumes "length xs < 2 ^ 32"
  shows "bindR (fold_result (add_leaf H) StreamingMerkleBuilder_new xs) (builder_finalize H) =
      (calc_merkle_root_with_hasher H xs :: ('e, hash) outcome) \<and>
    (\<exists>h. calc_merkle_root_with_hasher H xs = (Inr h :: ('e, hash) outcome))"
  using streaming_run [OF assms, of H, where 'e = 'e] by (simp add: array_root)

definition sample_branch :: "bytes \<Rightarrow> hash" where
  "sample_branch w = replicate 32 (2 * hd w + 1)"

abbreviation sample_leaf :: "u8 \<Rightarrow> hash" where
  "sample_leaf b \<equiv> replicate 32 b"

lemma ceillog2_samples: "ceillog2 (Suc (Suc 0)) = Suc 0" "ceillog2 (Suc (Suc (Suc 0))) = Suc (Suc 0)"
  by (rule ceillog2_eqI; simp)+

lemma sample_root: "merkle_root sample_branch [sample_leaf 10, sample_leaf 12, sample_leaf 20] = sample_leaf 43"
  by (simp add: merkle_root_def ceillog2_samples merkle_hash_with_hasher_def sample_branch_def)

theorem streaming_root_is_array_root_witness:
  "bindR (fold_result (add_leaf sample_branch) StreamingMerkleBuilder_new [sample_leaf 10, sample_leaf 12, sample_leaf 20])
     (builder_finalize sample_branch) = (Inr (sample_leaf 43) :: (unit, hash) outcome)"
  using streaming_root_is_array_root [of "[sample_leaf 10, sample_leaf 12, sample_leaf 20]" sample_branch, where 'e = unit]
  unfolding array_root sample_root by simp

text \<open>C40: How many leaves the builder takes.  Every call of \<^verbatim>\<open>add_leaf\<close> returns, its loop ended, as long as
  fewer than \<open>2 ^ 32\<close> leaves are added; the leaf number \<open>2 ^ 32\<close> overflows the counter.\<close>

theorem streaming_capacity:
  fixes H :: "bytes \<Rightarrow> hash"
  shows "(\<exists>b. fold_result (add_leaf H) StreamingMerkleBuilder_new xs = (Inr b :: ('e, StreamingMerkleBuilder) outcome)) \<longleftrightarrow>
    length xs < 2 ^ 32"
proof
  assume "\<exists>b. fold_result (add_leaf H) StreamingMerkleBuilder_new xs = (Inr b :: ('e, StreamingMerkleBuilder) outcome)"
  then obtain b where b: "fold_result (add_leaf H) StreamingMerkleBuilder_new xs = (Inr b :: ('e, StreamingMerkleBuilder) outcome)" by blast
  show "length xs < 2 ^ 32"
  proof (rule ccontr)
    assume "\<not> length xs < 2 ^ 32"
    then have len: "2 ^ 32 - 1 < length xs" by simp
    define ys where "ys = take (2 ^ 32 - 1) xs"
    have ys: "length ys + 1 = 2 ^ 32" "xs = ys @ xs ! (2 ^ 32 - 1) # drop (2 ^ 32) xs"
      using len id_take_nth_drop [OF len] by (simp_all add: ys_def)
    obtain c where c: "fold_result (add_leaf H) StreamingMerkleBuilder_new ys = (Inr c :: ('e, StreamingMerkleBuilder) outcome)" "builder_inv H c ys"
      using add_leaves_inv [of ys H, where 'e = 'e] ys(1) by auto
    have "bindR (add_leaf H c (xs ! (2 ^ 32 - 1))) (\<lambda>b. fold_result (add_leaf H) b (drop (2 ^ 32) xs)) = (Inr b :: ('e, StreamingMerkleBuilder) outcome)"
      using b c(1) by (subst (asm) ys(2)) (simp only: fold_result_append bindR_simps fold_result.simps)
    then show False using add_leaf_overflow [OF c(2) ys(1)] by (auto simp: bindR_eq_Inr)
  qed
qed (use add_leaves_inv [of xs H, where 'e = 'e] in blast)

text \<open>C18: What a root commits to.  If the hasher separates the strings hashed for the two trees from
  each other, from the leaves and from the padding, two lists of leaves have one root exactly when
  they are the same list: neither their order nor their number can be changed.\<close>

theorem merkle_root_binds:
  fixes H :: "bytes \<Rightarrow> hash"
  assumes "merkle_separates H xs ys"
  shows "(calc_merkle_root_with_hasher H xs :: ('e, hash) outcome) = calc_merkle_root_with_hasher H ys \<longleftrightarrow> xs = ys"
  using merkle_root_inject [OF assms] by (auto simp: array_root)

theorem merkle_root_binds_witness:
  "(calc_merkle_root_with_hasher sample_branch [sample_leaf 10, sample_leaf 12] :: (unit, hash) outcome) \<noteq>
   calc_merkle_root_with_hasher sample_branch [sample_leaf 10, sample_leaf 12, sample_leaf 20]"
proof -
  have "merkle_separates sample_branch [sample_leaf 10, sample_leaf 12] [sample_leaf 10, sample_leaf 12, sample_leaf 20]"
    by (simp add: hasher_separates_def ceillog2_samples merkle_hash_with_hasher_def sample_branch_def ZERO_HASH_def)
  from merkle_root_binds [OF this, where 'e = unit] show ?thesis by simp
qed

end
