(* ===== verification/Script_Stack.thy ===== *)
theory Script_Stack
  imports Covenants
begin

text \<open>
  The data of the script engine: \<^verbatim>\<open>src/crypto/txscript/errors/src/lib.rs\<close>,
  \<^verbatim>\<open>src/crypto/txscript/src/data_stack.rs\<close>,
  \<^verbatim>\<open>src/crypto/txscript/src/runtime_resource_meter.rs\<close> and the parsing half of
  \<^verbatim>\<open>src/crypto/txscript/src/opcodes/macros.rs\<close>.  A \<^verbatim>\<open>Vec\<close> used as a stack keeps its top at the end
  of the list, as in the source.  Script numbers are \<^verbatim>\<open>i64\<close> and indices \<^verbatim>\<open>i32\<close>: both are integers
  here and every conversion checks its range.  Errors carry the source's values; where the source
  carries a formatted message or an error of the signature library, the payload is left out.
\<close>

unbundle bit_operations_syntax

section \<open>Opcodes and errors\<close>

record OpCode =
  op_value :: u8
  op_data :: bytes

type_synonym StackEntry = bytes

datatype SerializationError = NumberTooLong int nat | ArkSerialization

datatype TxScriptError =
    MalformedPushSize bytes
  | MalformedPush nat nat
  | InvalidInputIndex int nat
  | InvalidCovInputIndex int
  | StackSizeExceeded nat nat
  | InvalidOpcode OpCode
  | OpcodeReserved OpCode
  | OpcodeDisabled OpCode
  | EmptyStack
  | CleanStack nat
  | EvalFalse
  | EarlyReturn
  | VerifyError
  | InvalidState
  | InvalidPubkey
  | InvalidSignature
  | SigcacheSignatureInvalid
  | TooManyOperations int
  | NotATransactionInput
  | ElementTooBig nat nat
  | NotMinimalData
  | InvalidSource
  | UnsatisfiedLockTime
  | NumberTooBig
  | NullFail
  | InvalidSignatureCount
  | InvalidPubKeyCount
  | InvalidSigHashType u8
  | PubKeyFormat
  | NoScripts
  | SignatureScriptNotPushOnly
  | ErrUnbalancedConditional
  | InvalidStackOperation nat nat
  | ScriptSize nat nat
  | InvalidOutputIndex int nat
  | Serialization SerializationError
  | ExceededCommittedScriptUnits u64 u64
  | ZkIntegrity
  | OutOfBoundsSubstring nat nat nat
  | InvalidIndex int
  | InvalidRange nat nat
  | InvalidLengthOfBlockHash nat
  | BlockNotSelected hash
  | BlockAlreadyPruned hash
  | BlockIsTooDeep hash
  | ScriptCovenantsError CovenantsError

type_synonym 'a script_result = "(TxScriptError, 'a) outcome"

definition MAX_STACK_SIZE :: nat where "MAX_STACK_SIZE = 244"
definition MAX_SCRIPTS_SIZE :: nat where "MAX_SCRIPTS_SIZE = 1000000"
definition MAX_SCRIPT_ELEMENT_SIZE :: nat where "MAX_SCRIPT_ELEMENT_SIZE = 1000000"
definition MAX_OPS_PER_SCRIPT :: int where "MAX_OPS_PER_SCRIPT = 1000000"
definition MAX_PUB_KEYS_PER_MUTLTISIG :: int where "MAX_PUB_KEYS_PER_MUTLTISIG = 20"
definition STANDARD_SCRIPT_PUB_KEY_MAX_SIZE :: nat where "STANDARD_SCRIPT_PUB_KEY_MAX_SIZE = 35"
definition NO_COST_OPCODE :: u8 where "NO_COST_OPCODE = 0x60"

definition i32_range :: "int \<Rightarrow> bool" where
  "i32_range x \<longleftrightarrow> - 2147483648 \<le> x \<and> x \<le> 2147483647"

definition i64_range :: "int \<Rightarrow> bool" where
  "i64_range x \<longleftrightarrow> - 9223372036854775808 \<le> x \<and> x \<le> 9223372036854775807"

section \<open>Parsing\<close>

text \<open>A parser takes what is left of the script and returns an opcode or an error together
  with what is left after it.\<close>

definition deserialize_fixed :: "u8 \<Rightarrow> nat \<Rightarrow> bytes \<Rightarrow> (TxScriptError + OpCode) \<times> bytes" where
  "deserialize_fixed v n it =
     (let data = take n it in
      (if length data \<noteq> n then Inl (MalformedPush n (length data))
       else Inr \<lparr>op_value = v, op_data = data\<rparr>, drop n it))"

definition deserialize_var :: "u8 \<Rightarrow> nat \<Rightarrow> bytes \<Rightarrow> (TxScriptError + OpCode) \<times> bytes" where
  "deserialize_var v w it =
     (let len_bytes = take w it; rest = drop w it in
      if length len_bytes \<noteq> w then (Inl (MalformedPushSize len_bytes), rest)
      else
        let n = from_le_bytes len_bytes; data = take n rest in
        (if length data \<noteq> n then Inl (MalformedPush n (length data))
         else Inr \<lparr>op_value = v, op_data = data\<rparr>, drop n rest))"

text \<open>The width in bytes of the length field of the three \<^verbatim>\<open>OpPushData\<close> opcodes, and the data
  length of the others.\<close>

definition push_len_width :: "u8 \<Rightarrow> nat option" where
  "push_len_width v =
     (if v = 0x4c then Some 1 else if v = 0x4d then Some 2 else if v = 0x4e then Some 4 else None)"

definition fixed_data_len :: "u8 \<Rightarrow> nat" where
  "fixed_data_len v = (if v \<le> 0x4b then unat v else 0)"

definition deserialize_next_opcode :: "bytes \<Rightarrow> ((TxScriptError + OpCode) \<times> bytes) option" where
  "deserialize_next_opcode it =
     (case it of
        [] \<Rightarrow> None
      | v # rest \<Rightarrow> Some (case push_len_width v of
            Some w \<Rightarrow> deserialize_var v w rest
          | None \<Rightarrow> deserialize_fixed v (fixed_data_len v) rest))"

lemma deserialize_next_shorter:
  "deserialize_next_opcode it = Some (r, rest) \<Longrightarrow> length rest < length it"
  by (auto simp: deserialize_next_opcode_def deserialize_var_def deserialize_fixed_def Let_def
      split: list.splits option.splits if_splits)

function parse_script :: "bytes \<Rightarrow> (TxScriptError + OpCode) list" where
  "parse_script script =
     (case deserialize_next_opcode script of
        None \<Rightarrow> []
      | Some (r, rest) \<Rightarrow> r # parse_script rest)"
  by pat_completeness auto

termination parse_script
  by (relation "measure length") (auto dest: deserialize_next_shorter)

declare parse_script.simps [simp del]

definition serialize_opcode :: "OpCode \<Rightarrow> bytes" where
  "serialize_opcode op =
     (case push_len_width (op_value op) of
        Some w \<Rightarrow> op_value op # le_bytes w (length (op_data op)) @ op_data op
      | None \<Rightarrow> op_value op # op_data op)"

section \<open>Script numbers\<close>

text \<open>The iterator of \<^verbatim>\<open>serialize_i64\<close>: the little-endian bytes of the magnitude, followed by a
  zero byte when the last one has its high bit set.\<close>

fun number_bytes :: "bool \<Rightarrow> nat \<Rightarrow> bytes" where
  "number_bytes last_saturated positive =
     (if positive = 0 then (if last_saturated then [0] else [])
      else of_nat (positive mod 256) # number_bytes (128 \<le> positive mod 256) (positive div 256))"

declare number_bytes.simps [simp del]

definition negate_bytes :: "bytes \<Rightarrow> bytes" where
  "negate_bytes v = butlast v @ [last v OR 0x80]"

definition serialize_i64 :: "int \<Rightarrow> nat option \<Rightarrow> (SerializationError, StackEntry) outcome" where
  "serialize_i64 num len =
     (let number_vec = number_bytes False (nat \<bar>num\<bar>) in
      bindR (case len of
               None \<Rightarrow> Inr number_vec
             | Some n \<Rightarrow>
                 if n < length number_vec then Inl (Err (NumberTooLong num n))
                 else Inr (number_vec @ replicate (n - length number_vec) 0)) (\<lambda>v.
      if num < 0 then (if v = [] then Inl Panic else Inr (negate_bytes v)) else Inr v))"

definition deserialize_i64 :: "bytes \<Rightarrow> TxScriptError + int" where
  "deserialize_i64 v =
     (if 8 < length v then Inl NotMinimalData
      else if v = [] then Inr 0
      else
        let msb = last v;
            sign = 1 - 2 * int (unat (drop_bit 7 msb));
            first_byte = int (unat (msb AND 0x7f))
        in Inr (foldl (\<lambda>accum item. push_bit 8 accum + int (unat item)) first_byte (rev (butlast v)) * sign))"

text \<open>The \<^verbatim>\<open>OpcodeData\<close> implementations of a stack entry.\<close>

definition deserialize_sized :: "nat \<Rightarrow> StackEntry \<Rightarrow> TxScriptError + int" where
  "deserialize_sized LEN v = (if LEN < length v then Inl NumberTooBig else deserialize_i64 v)"

definition deserialize_entry_i64 :: "StackEntry \<Rightarrow> TxScriptError + int" where
  "deserialize_entry_i64 = deserialize_sized 8"

definition deserialize_entry_i32 :: "StackEntry \<Rightarrow> TxScriptError + int" where
  "deserialize_entry_i32 v =
     bindR (deserialize_sized 8 v) (\<lambda>n. if i32_range n then Inr n else Inl NumberTooBig)"

definition deserialize_bool :: "StackEntry \<Rightarrow> bool" where
  "deserialize_bool v =
     (if v = [] then False else last v AND 0x7f \<noteq> 0 \<or> (\<exists>b \<in> set (butlast v). b \<noteq> 0))"

definition deserialize_hash :: "StackEntry \<Rightarrow> TxScriptError + hash" where
  "deserialize_hash v = (if length v = 32 then Inr v else Inl (InvalidLengthOfBlockHash (length v)))"

definition serialize_sized :: "nat \<Rightarrow> int \<Rightarrow> (SerializationError, StackEntry) outcome" where
  "serialize_sized LEN n =
     bindR (serialize_i64 n None) (\<lambda>bs. if LEN < length bs then Inl (Err (NumberTooLong n LEN)) else Inr bs)"

definition serialize_entry_i64 :: "int \<Rightarrow> StackEntry script_result" where
  "serialize_entry_i64 n = map_err (map_fail Serialization) (serialize_sized 8 n)"

definition serialize_bool :: "bool \<Rightarrow> StackEntry" where
  "serialize_bool b = (if b then [1] else [])"

section \<open>The stack\<close>

record Stack =
  inner :: "StackEntry list"
  pushed_bytes :: u64

definition Stack_new :: "StackEntry list \<Rightarrow> Stack" where
  "Stack_new es = \<lparr>inner = es, pushed_bytes = 0\<rparr>"

abbreviation stack_len :: "Stack \<Rightarrow> nat" where
  "stack_len s \<equiv> length (inner s)"

definition total_bytes :: "StackEntry list \<Rightarrow> nat" where
  "total_bytes items = sum_list (map length items)"

definition add_pushed_bytes :: "nat \<Rightarrow> Stack \<Rightarrow> Stack script_result" where
  "add_pushed_bytes n s =
     bindR (unwrap (checked_add (pushed_bytes s) (of_nat n))) (\<lambda>b. Inr (s\<lparr>pushed_bytes := b\<rparr>))"

definition pop_pushed_bytes :: "Stack \<Rightarrow> u64 \<times> Stack" where
  "pop_pushed_bytes s = (pushed_bytes s, s\<lparr>pushed_bytes := 0\<rparr>)"

definition stack_insert :: "nat \<Rightarrow> StackEntry \<Rightarrow> Stack \<Rightarrow> Stack script_result" where
  "stack_insert i e s =
     (if MAX_SCRIPT_ELEMENT_SIZE < length e then Inl (Err (ElementTooBig (length e) MAX_SCRIPT_ELEMENT_SIZE))
      else bindR (add_pushed_bytes (length e) s) (\<lambda>s.
        if stack_len s < i then Inl Panic
        else Inr (s\<lparr>inner := take i (inner s) @ e # drop i (inner s)\<rparr>)))"

text \<open>\<^verbatim>\<open>split_off(len - n)\<close>: the top \<open>n\<close> entries, oldest first, and the stack below them.\<close>

definition split_top :: "nat \<Rightarrow> Stack \<Rightarrow> StackEntry list \<times> Stack" where
  "split_top n s = (drop (stack_len s - n) (inner s), s\<lparr>inner := take (stack_len s - n) (inner s)\<rparr>)"

fun collect_results :: "('a \<Rightarrow> 'e + 'b) \<Rightarrow> 'a list \<Rightarrow> 'e + 'b list" where
  "collect_results f [] = Inr []"
| "collect_results f (x # xs) = bindR (f x) (\<lambda>y. bindR (collect_results f xs) (\<lambda>ys. Inr (y # ys)))"

definition pop_items :: "(StackEntry \<Rightarrow> TxScriptError + 'a) \<Rightarrow> nat \<Rightarrow> Stack \<Rightarrow> ('a list \<times> Stack) script_result" where
  "pop_items deser n s =
     (if stack_len s < n then Inl (Err (InvalidStackOperation n (stack_len s)))
      else
        let (top, s') = split_top n s in
        bindR (map_err Err (collect_results deser top)) (\<lambda>xs. Inr (xs, s')))"

definition pop_raw :: "nat \<Rightarrow> Stack \<Rightarrow> (StackEntry list \<times> Stack) script_result" where
  "pop_raw n s =
     (if stack_len s < n then Inl (Err (InvalidStackOperation n (stack_len s))) else Inr (split_top n s))"

definition peek_raw :: "nat \<Rightarrow> Stack \<Rightarrow> StackEntry list script_result" where
  "peek_raw n s =
     (if stack_len s < n then Inl (Err (InvalidStackOperation n (stack_len s)))
      else Inr (drop (stack_len s - n) (inner s)))"

text \<open>\<^verbatim>\<open>push_item\<close> serialises the item first; the caller names the serialiser.\<close>

definition push_item :: "StackEntry script_result \<Rightarrow> Stack \<Rightarrow> Stack script_result" where
  "push_item item s =
     bindR item (\<lambda>v. bindR (add_pushed_bytes (length v) s) (\<lambda>s. Inr (s\<lparr>inner := inner s @ [v]\<rparr>)))"

definition push_item_unmetered :: "StackEntry script_result \<Rightarrow> Stack \<Rightarrow> Stack script_result" where
  "push_item_unmetered item s = bindR item (\<lambda>v. Inr (s\<lparr>inner := inner s @ [v]\<rparr>))"

definition drop_items :: "nat \<Rightarrow> Stack \<Rightarrow> Stack script_result" where
  "drop_items n s =
     (if n \<le> stack_len s then Inr (s\<lparr>inner := take (stack_len s - n) (inner s)\<rparr>)
      else Inl (Err (InvalidStackOperation n (stack_len s))))"

definition dup_items :: "nat \<Rightarrow> Stack \<Rightarrow> Stack script_result" where
  "dup_items n s =
     (if n \<le> stack_len s then
        let top = drop (stack_len s - n) (inner s) in
        bindR (add_pushed_bytes (total_bytes top) s) (\<lambda>s. Inr (s\<lparr>inner := inner s @ top\<rparr>))
      else Inl (Err (InvalidStackOperation n (stack_len s))))"

definition over_items :: "nat \<Rightarrow> Stack \<Rightarrow> Stack script_result" where
  "over_items n s =
     (if 2 * n \<le> stack_len s then
        let group = take n (drop (stack_len s - 2 * n) (inner s)) in
        bindR (add_pushed_bytes (total_bytes group) s) (\<lambda>s. Inr (s\<lparr>inner := inner s @ group\<rparr>))
      else Inl (Err (InvalidStackOperation (2 * n) (stack_len s))))"

text \<open>\<^verbatim>\<open>inner[from..].rotate_left(n)\<close>.\<close>

definition rotate_tail :: "nat \<Rightarrow> nat \<Rightarrow> StackEntry list \<Rightarrow> StackEntry list" where
  "rotate_tail k n es = take k es @ drop n (drop k es) @ take n (drop k es)"

definition rot_items :: "nat \<Rightarrow> Stack \<Rightarrow> Stack script_result" where
  "rot_items n s =
     (if 3 * n \<le> stack_len s then Inr (s\<lparr>inner := rotate_tail (stack_len s - 3 * n) n (inner s)\<rparr>)
      else Inl (Err (InvalidStackOperation (3 * n) (stack_len s))))"

definition swap_items :: "nat \<Rightarrow> Stack \<Rightarrow> Stack script_result" where
  "swap_items n s =
     (if 2 * n \<le> stack_len s then Inr (s\<lparr>inner := rotate_tail (stack_len s - 2 * n) n (inner s)\<rparr>)
      else Inl (Err (InvalidStackOperation (2 * n) (stack_len s))))"

definition stack_roll :: "nat \<Rightarrow> Stack \<Rightarrow> Stack script_result" where
  "stack_roll loc s =
     (if stack_len s \<le> loc then Inl (Err (InvalidStackOperation loc (stack_len s)))
      else if loc = 0 then Inr s
      else Inr (s\<lparr>inner := rotate_tail (stack_len s - loc - 1) 1 (inner s)\<rparr>))"

definition stack_clear :: "Stack \<Rightarrow> Stack" where
  "stack_clear s = s\<lparr>inner := []\<rparr>"

definition stack_pop :: "Stack \<Rightarrow> (StackEntry \<times> Stack) script_result" where
  "stack_pop s =
     (if inner s = [] then Inl (Err EmptyStack) else Inr (last (inner s), s\<lparr>inner := butlast (inner s)\<rparr>))"

definition stack_push :: "StackEntry \<Rightarrow> Stack \<Rightarrow> Stack script_result" where
  "stack_push e s =
     (if MAX_SCRIPT_ELEMENT_SIZE < length e then Inl (Err (ElementTooBig (length e) MAX_SCRIPT_ELEMENT_SIZE))
      else bindR (add_pushed_bytes (length e) s) (\<lambda>s. Inr (s\<lparr>inner := inner s @ [e]\<rparr>)))"

definition push_unmetered :: "StackEntry \<Rightarrow> Stack \<Rightarrow> Stack script_result" where
  "push_unmetered e s =
     (if MAX_SCRIPT_ELEMENT_SIZE < length e then Inl (Err (ElementTooBig (length e) MAX_SCRIPT_ELEMENT_SIZE))
      else Inr (s\<lparr>inner := inner s @ [e]\<rparr>))"

definition stack_remove :: "nat \<Rightarrow> Stack \<Rightarrow> (StackEntry \<times> Stack) script_result" where
  "stack_remove i s =
     (if i < stack_len s then Inr (inner s ! i, s\<lparr>inner := take i (inner s) @ drop (i + 1) (inner s)\<rparr>)
      else Inl Panic)"

section \<open>The resource meter\<close>

record RuntimeResourceMeter =
  used_sig_ops :: u16
  sigop_script_units :: ScriptUnits
  script_units_limit :: ScriptUnits
  remaining_script_units :: ScriptUnits

definition new_script_units :: "ScriptUnits \<Rightarrow> ScriptUnits \<Rightarrow> RuntimeResourceMeter" where
  "new_script_units sigop_units limit =
     \<lparr>used_sig_ops = 0, sigop_script_units = sigop_units, script_units_limit = limit,
      remaining_script_units = limit\<rparr>"

definition used_script_units :: "RuntimeResourceMeter \<Rightarrow> ScriptUnits script_result" where
  "used_script_units m = psub (script_units_limit m) (remaining_script_units m)"

definition consume_script_units :: "ScriptUnits \<Rightarrow> RuntimeResourceMeter \<Rightarrow> RuntimeResourceMeter script_result" where
  "consume_script_units units m =
     (case checked_sub (remaining_script_units m) units of
        Some new_remaining \<Rightarrow> Inr (m\<lparr>remaining_script_units := new_remaining\<rparr>)
      | None \<Rightarrow>
          bindR (psub units (remaining_script_units m)) (\<lambda>overflow.
          Inl (Err (ExceededCommittedScriptUnits
            (saturating_add (script_units_limit m) overflow) (script_units_limit m)))))"

definition consume_sig_op_cost :: "u16 \<Rightarrow> RuntimeResourceMeter \<Rightarrow> RuntimeResourceMeter script_result" where
  "consume_sig_op_cost count m =
     bindR (consume_script_units (saturating_mul (ucast count) (sigop_script_units m)) m) (\<lambda>m.
     Inr (m\<lparr>used_sig_ops := saturating_add (used_sig_ops m) count\<rparr>))"

definition charge_newly_pushed_bytes :: "u64 \<Rightarrow> RuntimeResourceMeter \<Rightarrow> RuntimeResourceMeter script_result" where
  "charge_newly_pushed_bytes delta m = consume_script_units delta m"

section \<open>Script numbers: lemmas\<close>

lemma number_bytes_0 [simp]: "number_bytes sat 0 = (if sat then [0] else [])"
  by (simp add: number_bytes.simps)

lemma number_bytes_pos:
  "0 < p \<Longrightarrow> number_bytes sat p = of_nat (p mod 256) # number_bytes (128 \<le> p mod 256) (p div 256)"
  by (simp add: number_bytes.simps [of sat p])

lemma number_bytes_value: "from_le_bytes (number_bytes sat p) = p"
proof (induction sat p rule: number_bytes.induct)
  case (1 sat p)
  have byte: "unat (of_nat (p mod 256) :: u8) = p mod 256" by (simp add: unat_of_nat)
  show ?case
  proof (cases "p = 0")
    case False
    then show ?thesis using 1 by (simp add: number_bytes_pos byte)
  qed simp
qed

lemma number_bytes_Nil [simp]: "number_bytes sat p = [] \<longleftrightarrow> p = 0 \<and> \<not> sat"
  by (cases "p = 0") (auto simp: number_bytes_pos)

lemma last_number_bytes:
  "number_bytes sat p \<noteq> [] \<Longrightarrow> unat (last (number_bytes sat p)) < 128"
proof (induction sat p rule: number_bytes.induct)
  case (1 sat p)
  show ?case
  proof (cases "p = 0")
    case True
    then show ?thesis using 1 by auto
  next
    case False
    show ?thesis
    proof (cases "number_bytes (128 \<le> p mod 256) (p div 256) = []")
      case True
      then have "p mod 256 < 128" by simp
      then show ?thesis using False True by (simp add: number_bytes_pos unat_of_nat)
    next
      case False
      then have "number_bytes sat p \<noteq> [] \<and> last (number_bytes sat p) = last (number_bytes (128 \<le> p mod 256) (p div 256))"
        using \<open>p \<noteq> 0\<close> by (simp add: number_bytes_pos del: number_bytes_Nil)
      then show ?thesis using 1(1) \<open>p \<noteq> 0\<close> False by metis
    qed
  qed
qed

lemma number_bytes_length:
  assumes "0 < k"
  shows "length (number_bytes False p) \<le> k \<longleftrightarrow> p < 2 ^ (8 * k - 1)"
proof
  assume "p < 2 ^ (8 * k - 1)"
  have bound: "length (number_bytes sat p) \<le> k"
    if "p < 2 ^ (8 * k - 1)" and "0 < k" for sat p k
    using that
  proof (induction sat p arbitrary: k rule: number_bytes.induct)
    case (1 sat p)
    show ?case
    proof (cases "p = 0")
      case False
      obtain j where k: "k = Suc j" using 1 by (cases k) auto
      show ?thesis
      proof (cases "j = 0")
        case True
        then have "p < 128" using 1 k by simp
        then show ?thesis using False True k by (simp add: number_bytes_pos)
      next
        case j: False
        have "8 * k - 1 = 8 + (8 * j - 1)" using j k by simp
        then have "p < 256 * 2 ^ (8 * j - 1)" using 1 by (simp add: power_add)
        then have "p div 256 < 2 ^ (8 * j - 1)" by (simp add: less_mult_imp_div_less mult.commute)
        with 1(1) False j k show ?thesis by (simp add: number_bytes_pos)
      qed
    qed (use 1 in simp)
  qed
  then show "length (number_bytes False p) \<le> k" using \<open>p < 2 ^ (8 * k - 1)\<close> assms by blast
next
  assume le: "length (number_bytes False p) \<le> k"
  show "p < 2 ^ (8 * k - 1)"
  proof (cases "p = 0")
    case False
    let ?v = "number_bytes False p"
    have v: "?v = butlast ?v @ [last ?v]" using False by simp
    have "p = from_le_bytes (butlast ?v) + 256 ^ (length ?v - 1) * unat (last ?v)"
      using number_bytes_value [of False p] from_le_bytes_append [of "butlast ?v" "[last ?v]"] v
      by (metis from_le_bytes.simps length_butlast mult_0_right add.right_neutral)
    also have "\<dots> < 256 ^ (length ?v - 1) + 256 ^ (length ?v - 1) * unat (last ?v)"
      using from_le_bytes_less [of "butlast ?v"] by simp
    also have "\<dots> = 256 ^ (length ?v - 1) * (unat (last ?v) + 1)" by simp
    also have "\<dots> \<le> 256 ^ (length ?v - 1) * 128"
      using last_number_bytes [of False p] False by (intro mult_le_mono2) simp
    also have "\<dots> \<le> 256 ^ (k - 1) * 128" using le by (intro mult_le_mono1 power_increasing) auto
    also have "\<dots> = 2 ^ (8 * (k - 1) + 7)" by (simp add: power_add power_mult)
    also have "8 * (k - 1) + 7 = 8 * k - 1" using assms by simp
    finally show ?thesis .
  qed simp
qed
text \<open>The sign bit of the last byte.\<close>

lemma sign_bit:
  fixes b :: u8
  assumes "unat b < 128"
  shows "b AND 0x7f = b" "drop_bit 7 b = 0" "(b OR 0x80) AND 0x7f = b" "drop_bit 7 (b OR 0x80) = 1"
proof -
  have all: "\<forall>n \<in> set [0..<128]. let b = of_nat n :: u8 in
      b AND 0x7f = b \<and> drop_bit 7 b = 0 \<and> (b OR 0x80) AND 0x7f = b \<and> drop_bit 7 (b OR 0x80) = 1"
    by code_simp
  have "unat b \<in> set [0..<128]" using assms by simp
  from bspec [OF all this] show "b AND 0x7f = b" "drop_bit 7 b = 0" "(b OR 0x80) AND 0x7f = b" "drop_bit 7 (b OR 0x80) = 1"
    by (simp_all add: Let_def)
qed

lemma deserialize_fold:
  "foldl (\<lambda>acc item. push_bit 8 acc + int (unat item)) f (rev xs) = int (from_le_bytes xs) + 256 ^ length xs * f"
  for xs :: bytes
  by (induction xs) (simp_all add: push_bit_eq_mult algebra_simps)

lemma deserialize_i64_snoc:
  "deserialize_i64 (xs @ [b]) =
    (if 7 < length xs then Inl NotMinimalData
     else Inr (int (from_le_bytes (xs @ [b AND 0x7f])) * (1 - 2 * int (unat (drop_bit 7 b)))))"
  unfolding deserialize_i64_def Let_def deserialize_fold [of _ "rev (rev (butlast _))", simplified]
  by (simp add: deserialize_fold [unfolded of_nat_unat] from_le_bytes_append)

text \<open>A byte string of at most eight bytes always denotes a number strictly inside the range of
  \<^verbatim>\<open>i64\<close>, so that none of the arithmetic of \<^verbatim>\<open>deserialize_i64\<close> overflows.\<close>

lemma deserialize_i64_bound:
  assumes "deserialize_i64 v = Inr n" and "v \<noteq> []"
  shows "\<bar>n\<bar> < 2 ^ (8 * length v - 1)"
proof -
  define xs b where "xs = butlast v" and "b = last v"
  have v: "v = xs @ [b]" using assms by (simp add: xs_def b_def)
  have n: "\<bar>n\<bar> = int (from_le_bytes (xs @ [b AND 0x7f])) * \<bar>1 - 2 * int (unat (drop_bit 7 b))\<bar>"
    using assms by (auto simp: v deserialize_i64_snoc abs_mult simp del: of_nat_unat split: if_splits)
  have "unat b < 256" using unat_less_two_power [of b] by simp
  then have msb: "unat (drop_bit 7 b) \<le> 1" by (simp only: unat_drop_bit_eq) (simp add: drop_bit_eq_div)
  have "unat (b AND 0x7f) \<le> 127" using word_and_le1 [of b "0x7f"] by (simp add: word_le_nat_alt)
  then have "256 ^ length xs * unat (b AND 0x7f) \<le> 256 ^ length xs * 127" by (rule mult_le_mono2)
  moreover have "from_le_bytes (xs @ [b AND 0x7f]) = from_le_bytes xs + 256 ^ length xs * unat (b AND 0x7f)"
    by (simp add: from_le_bytes_append)
  ultimately have "from_le_bytes (xs @ [b AND 0x7f]) < 256 ^ length xs * 128"
    using from_le_bytes_less [of xs] by linarith
  also have "\<dots> = 2 ^ (8 * length v - 1)" by (simp add: v power_add power_mult)
  finally have "int (from_le_bytes (xs @ [b AND 0x7f])) < 2 ^ (8 * length v - 1)"
    by (metis of_nat_less_iff of_nat_power of_nat_numeral)
  moreover have "\<bar>1 - 2 * int (unat (drop_bit 7 b))\<bar> = 1" 
  proof -
    have "unat (drop_bit 7 b) = 0 \<or> unat (drop_bit 7 b) = 1" using msb by linarith
    then show ?thesis by (auto simp del: of_nat_unat)
  qed
  ultimately show ?thesis using n by simp
qed

lemma deserialize_i64_magnitude: "deserialize_i64 v = Inr n \<Longrightarrow> \<bar>n\<bar> < 2 ^ 63"
proof (cases "v = []")
  case False
  assume v: "deserialize_i64 v = Inr n"
  then have "length v \<le> 8" by (auto simp: deserialize_i64_def split: if_splits)
  then have "(2 :: int) ^ (8 * length v - 1) \<le> 2 ^ 63" by (intro power_increasing) auto
  with deserialize_i64_bound [OF v False] show ?thesis by simp
qed (simp add: deserialize_i64_def)

lemma serialize_i64_cases:
  "serialize_i64 n len =
    (let v = number_bytes False (nat \<bar>n\<bar>) in
     case len of
       None \<Rightarrow> Inr (if n < 0 then negate_bytes v else v)
     | Some k \<Rightarrow> if k < length v then Inl (Err (NumberTooLong n k))
         else let w = v @ replicate (k - length v) 0 in Inr (if n < 0 then negate_bytes w else w))"
  by (auto simp: serialize_i64_def Let_def split: option.splits)

lemma deserialize_signed:
  assumes "v \<noteq> [] \<Longrightarrow> unat (last v) < 128" and "length v \<le> 8"
  shows "deserialize_i64 v = Inr (int (from_le_bytes v))"
    and "v \<noteq> [] \<Longrightarrow> deserialize_i64 (negate_bytes v) = Inr (- int (from_le_bytes v))"
proof -
  show "deserialize_i64 v = Inr (int (from_le_bytes v))"
  proof (cases v rule: rev_cases)
    case (snoc xs b)
    then show ?thesis using assms by (simp add: deserialize_i64_snoc sign_bit)
  qed (simp add: deserialize_i64_def)
  show "deserialize_i64 (negate_bytes v) = Inr (- int (from_le_bytes v))" if "v \<noteq> []"
  proof (cases v rule: rev_cases)
    case (snoc xs b)
    then show ?thesis using assms by (simp add: negate_bytes_def deserialize_i64_snoc sign_bit)
  qed (use that in simp)
qed

lemma serialize_deserialize:
  assumes "serialize_i64 n len = Inr v" and "length v \<le> 8"
  shows "deserialize_i64 v = Inr n"
proof -
  define w where "w = number_bytes False (nat \<bar>n\<bar>) @ (case len of None \<Rightarrow> [] | Some k \<Rightarrow> replicate (k - length (number_bytes False (nat \<bar>n\<bar>))) 0)"
  have v: "v = (if n < 0 then negate_bytes w else w)"
    using assms by (auto simp: serialize_i64_cases w_def Let_def split: option.splits if_splits)
  have w: "from_le_bytes w = nat \<bar>n\<bar>"
    by (auto simp: w_def number_bytes_value from_le_bytes_append split: option.splits)
  have ne: "n < 0 \<Longrightarrow> w \<noteq> []" by (auto simp: w_def)
  have len: "length w \<le> 8" using assms ne by (auto simp: v negate_bytes_def split: if_splits)
  have last: "unat (last w) < 128" if "w \<noteq> []"
    using that last_number_bytes [of False "nat \<bar>n\<bar>"]
    by (cases "n = 0") (auto simp: w_def last_append split: option.splits if_splits)
  show ?thesis using deserialize_signed [OF last len] ne by (auto simp: v w)
qed

lemma serialize_entry_i64_eq:
  "serialize_entry_i64 n =
    (let v = number_bytes False (nat \<bar>n\<bar>) in
     if \<bar>n\<bar> < 2 ^ 63 then Inr (if n < 0 then negate_bytes v else v)
     else Inl (Err (Serialization (NumberTooLong n 8))))"
proof -
  let ?v = "number_bytes False (nat \<bar>n\<bar>)"
  have "n < 0 \<Longrightarrow> length (negate_bytes ?v) = length ?v" by (simp add: negate_bytes_def)
  moreover have "length ?v \<le> 8 \<longleftrightarrow> \<bar>n\<bar> < 2 ^ 63" using number_bytes_length [of 8 "nat \<bar>n\<bar>"] by auto
  ultimately show ?thesis
    by (auto simp: serialize_entry_i64_def serialize_sized_def serialize_i64_cases Let_def not_less)
qed

text \<open>A number of magnitude below \<open>2 ^ 63\<close> that the engine pushes reads back as itself, and its
  encoding is the shortest one that does: no entry that denotes the number has fewer bytes.\<close>

lemma script_number_roundtrip:
  assumes "\<bar>n\<bar> < 2 ^ 63"
  shows "\<exists>v. serialize_entry_i64 n = Inr v \<and> deserialize_entry_i64 v = Inr n \<and>
    (\<forall>w. deserialize_entry_i64 w = Inr n \<longrightarrow> length v \<le> length w)"
proof -
  let ?v = "if n < 0 then negate_bytes (number_bytes False (nat \<bar>n\<bar>)) else number_bytes False (nat \<bar>n\<bar>)"
  have v: "serialize_entry_i64 n = Inr ?v" using assms by (simp add: serialize_entry_i64_eq)
  have len: "length ?v = length (number_bytes False (nat \<bar>n\<bar>))" by (simp add: negate_bytes_def)
  have le8: "length ?v \<le> 8" unfolding len using assms number_bytes_length [of 8 "nat \<bar>n\<bar>"] by simp
  have "serialize_i64 n None = Inr ?v" by (simp add: serialize_i64_cases)
  then have "deserialize_entry_i64 ?v = Inr n"
    using serialize_deserialize le8 by (simp add: deserialize_entry_i64_def deserialize_sized_def)
  moreover have "length ?v \<le> length w" if "deserialize_entry_i64 w = Inr n" for w
  proof (cases "w = []")
    case True
    then have "n = 0" using that by (simp add: deserialize_entry_i64_def deserialize_sized_def deserialize_i64_def)
    then show ?thesis by simp
  next
    case False
    have "deserialize_i64 w = Inr n"
      using that by (simp add: deserialize_entry_i64_def deserialize_sized_def split: if_splits)
    from deserialize_i64_bound [OF this False] have "nat \<bar>n\<bar> < 2 ^ (8 * length w - 1)"
      by (metis nat_less_iff abs_ge_zero of_nat_numeral of_nat_power zless_nat_eq_int_zless)
    then show ?thesis unfolding len using number_bytes_length [of "length w"] False by simp
  qed
  ultimately show ?thesis using v by blast
qed

lemma script_number_roundtrip_witness:
  "\<bar>- 300 :: int\<bar> < 2 ^ 63 \<and> serialize_entry_i64 (- 300) = Inr [0x2c, 0x81] \<and>
    (\<exists>v. serialize_entry_i64 (- 300) = Inr v \<and> deserialize_entry_i64 v = Inr (- 300) \<and>
      (\<forall>w. deserialize_entry_i64 w = Inr (- 300) \<longrightarrow> length v \<le> length w))"
  using script_number_roundtrip [of "- 300"]
  by (simp add: serialize_entry_i64_eq negate_bytes_def number_bytes.simps)

section \<open>Parsing: lemmas\<close>

lemma parse_script_Nil [simp]: "parse_script [] = []"
  by (simp add: parse_script.simps deserialize_next_opcode_def)

lemma parse_script_step:
  "deserialize_next_opcode bs = Some (r, rest) \<Longrightarrow> parse_script bs = r # parse_script rest"
  by (simp add: parse_script.simps [of bs])

text \<open>The data an opcode of a given value carries.\<close>

definition wf_opcode :: "OpCode \<Rightarrow> bool" where
  "wf_opcode op \<longleftrightarrow>
     (case push_len_width (op_value op) of
        Some w \<Rightarrow> length (op_data op) < 256 ^ w
      | None \<Rightarrow> length (op_data op) = fixed_data_len (op_value op))"

lemma deserialize_serialize_opcode:
  "wf_opcode op \<Longrightarrow> deserialize_next_opcode (serialize_opcode op @ rest) = Some (Inr op, rest)"
  by (auto simp: wf_opcode_def serialize_opcode_def deserialize_next_opcode_def deserialize_var_def
      deserialize_fixed_def Let_def from_le_bytes_le_bytes split: option.splits)

lemma serialize_deserialize_opcode:
  assumes "deserialize_next_opcode bs = Some (Inr op, rest)"
  shows "wf_opcode op \<and> bs = serialize_opcode op @ rest"
proof -
  obtain v xs where bs: "bs = v # xs" using assms by (cases bs) (auto simp: deserialize_next_opcode_def)
  show ?thesis
  proof (cases "push_len_width v")
    case None
    then show ?thesis using assms
      by (auto simp: bs deserialize_next_opcode_def deserialize_fixed_def wf_opcode_def serialize_opcode_def
          Let_def split: if_splits)
  next
    case (Some w)
    let ?len = "take w xs"
    let ?n = "from_le_bytes ?len"
    have *: "length ?len = w" "length (take ?n (drop w xs)) = ?n"
      "op = \<lparr>op_value = v, op_data = take ?n (drop w xs)\<rparr>" "rest = drop ?n (drop w xs)"
      using assms Some
      by (auto simp: bs deserialize_next_opcode_def deserialize_var_def Let_def split: if_splits)
    have "?n < 256 ^ w" using from_le_bytes_less [of ?len] *(1) by simp
    moreover have "le_bytes w ?n = ?len" using le_bytes_from_le_bytes [of ?len] *(1) by simp
    ultimately show ?thesis using Some *(2)
      by (simp add: bs *(3,4) wf_opcode_def serialize_opcode_def del: drop_drop)
  qed
qed

text \<open>An opcode that cannot be read uses up the script: an error is always the last item.\<close>

lemma deserialize_error_ends:
  "deserialize_next_opcode bs = Some (Inl e, rest) \<Longrightarrow> rest = []"
  by (cases bs) (auto simp: deserialize_next_opcode_def deserialize_var_def deserialize_fixed_def Let_def
      split: option.splits if_splits)

lemma parse_serialized:
  "list_all wf_opcode ops \<Longrightarrow> parse_script (concat (map serialize_opcode ops)) = map Inr ops"
  by (induction ops) (simp_all add: parse_script_step [OF deserialize_serialize_opcode])

lemma collect_results_Inr: "collect_results f xs = Inr ys \<longleftrightarrow> list_all2 (\<lambda>x y. f x = Inr y) xs ys"
  by (induction xs arbitrary: ys) (auto simp: bindR_eq_Inr list_all2_Cons1)

lemma collect_parsed:
  "collect_results id (parse_script bs) = Inr ops \<longleftrightarrow> parse_script bs = map Inr ops"
  by (auto simp: collect_results_Inr list_all2_conv_all_nth list_eq_iff_nth_eq)

lemma parsed_serialize:
  "parse_script bs = map Inr ops \<Longrightarrow> list_all wf_opcode ops \<and> bs = concat (map serialize_opcode ops)"
proof (induction bs arbitrary: ops rule: parse_script.induct)
  case (1 bs)
  show ?case
  proof (cases "deserialize_next_opcode bs")
    case None
    then show ?thesis using "1.prems" by (cases bs) (auto simp: deserialize_next_opcode_def)
  next
    case (Some x)
    obtain r rest where x: "x = (r, rest)" by force
    have parse: "parse_script bs = r # parse_script rest" using Some x parse_script_step by simp
    then obtain op ops' where ops: "ops = op # ops'" "r = Inr op" "parse_script rest = map Inr ops'"
      using "1.prems" by (cases ops) auto
    have "list_all wf_opcode ops' \<and> rest = concat (map serialize_opcode ops')"
      using "1.IH" [OF Some x [symmetric]] ops by simp
    moreover have "wf_opcode op \<and> bs = serialize_opcode op @ rest"
      using serialize_deserialize_opcode Some x ops by simp
    ultimately show ?thesis using ops by simp
  qed
qed

text \<open>C35: parsing a script succeeds with the opcodes \<open>ops\<close> exactly when each of them carries the
  amount of data its value calls for and the script is the concatenation of their
  serialisations: parsing inverts serialisation and accepts no second spelling of a script.\<close>

theorem parse_script_exact:
  "collect_results id (parse_script bs) = Inr ops \<longleftrightarrow>
    list_all wf_opcode ops \<and> bs = concat (map serialize_opcode ops)"
  unfolding collect_parsed using parse_serialized parsed_serialize by blast

section \<open>Well-formed stacks\<close>

text \<open>Every entry is within the element limit, and the metered bytes are at most those of \<open>k\<close>
  entries of the largest size.\<close>

definition stack_ok :: "nat \<Rightarrow> Stack \<Rightarrow> bool" where
  "stack_ok k s \<longleftrightarrow> list_all (\<lambda>e. length e \<le> MAX_SCRIPT_ELEMENT_SIZE) (inner s) \<and>
     unat (pushed_bytes s) \<le> k * MAX_SCRIPT_ELEMENT_SIZE"

named_theorems stack_rules \<open>what the stack operations do to a well-formed stack\<close>

lemma stack_ok_mono: "stack_ok k s \<Longrightarrow> k \<le> k' \<Longrightarrow> stack_ok k' s"
  unfolding stack_ok_def by (meson mult_le_mono1 order_trans)

lemma stack_ok_inner: "stack_ok k s \<Longrightarrow> set es \<subseteq> set (inner s) \<Longrightarrow> stack_ok k (s\<lparr>inner := es\<rparr>)"
  by (auto simp: stack_ok_def list_all_iff)

lemma add_pushed_bytes_ok:
  assumes "stack_ok k s" and "n \<le> m * MAX_SCRIPT_ELEMENT_SIZE" and "k + m < 1000"
    and "\<And>b. unat b \<le> (k + m) * MAX_SCRIPT_ELEMENT_SIZE \<Longrightarrow> Q (s\<lparr>pushed_bytes := b\<rparr>)"
  shows "holds Q (add_pushed_bytes n s)"
proof -
  have le: "unat (pushed_bytes s) + n \<le> (k + m) * MAX_SCRIPT_ELEMENT_SIZE"
    using assms(1,2) by (simp add: stack_ok_def add_mult_distrib)
  also have "\<dots> \<le> 999 * 1000000"
    unfolding MAX_SCRIPT_ELEMENT_SIZE_def using assms(3) by (intro mult_le_mono1) simp
  finally have small: "unat (pushed_bytes s) + n \<le> 999000000" by simp
  then have n: "unat (of_nat n :: u64) = n" by (simp add: unat_of_nat)
  have "checked_add (pushed_bytes s) (of_nat n) \<noteq> None"
    using small n by (simp add: checked_add_eq_None)
  then obtain b where b: "checked_add (pushed_bytes s) (of_nat n) = Some b" by blast
  then have "unat b = unat (pushed_bytes s) + n" using n by (simp add: checked_add_eq_Some)
  then have "Q (s\<lparr>pushed_bytes := b\<rparr>)" using assms(4) le by simp
  then show ?thesis by (simp add: add_pushed_bytes_def b unwrap_def)
qed

lemma stack_push_ok [stack_rules]:
  "stack_ok k s \<Longrightarrow> k < 900 \<Longrightarrow> (\<And>s'. stack_ok (Suc k) s' \<Longrightarrow> Q s') \<Longrightarrow> holds Q (stack_push e s)"
  unfolding stack_push_def
  by (auto intro!: add_pushed_bytes_ok [where k = k and m = 1] simp: stack_ok_def)

lemma push_unmetered_ok [stack_rules]:
  "stack_ok k s \<Longrightarrow> (\<And>s'. stack_ok k s' \<Longrightarrow> Q s') \<Longrightarrow> holds Q (push_unmetered e s)"
  by (auto simp: push_unmetered_def stack_ok_def)

lemma push_item_ok [stack_rules]:
  "stack_ok k s \<Longrightarrow> k < 900 \<Longrightarrow> holds (\<lambda>v. length v \<le> MAX_SCRIPT_ELEMENT_SIZE) item \<Longrightarrow>
    (\<And>s'. stack_ok (Suc k) s' \<Longrightarrow> Q s') \<Longrightarrow> holds Q (push_item item s)"
  unfolding push_item_def
  by (auto intro!: add_pushed_bytes_ok [where k = k and m = 1] elim!: holds_mono simp: stack_ok_def)

lemma push_item_unmetered_ok [stack_rules]:
  "stack_ok k s \<Longrightarrow> holds (\<lambda>v. length v \<le> MAX_SCRIPT_ELEMENT_SIZE) item \<Longrightarrow>
    (\<And>s'. stack_ok k s' \<Longrightarrow> Q s') \<Longrightarrow> holds Q (push_item_unmetered item s)"
  unfolding push_item_unmetered_def by (auto elim!: holds_mono simp: stack_ok_def)

lemma split_top_ok:
  assumes "stack_ok k s" and "n \<le> stack_len s"
  shows "length (fst (split_top n s)) = n" "stack_ok k (snd (split_top n s))"
    "list_all (\<lambda>e. length e \<le> MAX_SCRIPT_ELEMENT_SIZE) (fst (split_top n s))"
  using assms by (auto simp: split_top_def stack_ok_def list_all_iff dest: in_set_dropD in_set_takeD)

lemma collect_results_length: "collect_results f xs = Inr ys \<Longrightarrow> length ys = length xs"
  by (auto simp: collect_results_Inr dest: list_all2_lengthD)

lemma pop_items_ok [stack_rules]:
  "stack_ok k s \<Longrightarrow> (\<And>xs s'. length xs = n \<Longrightarrow> stack_ok k s' \<Longrightarrow> Q (xs, s')) \<Longrightarrow> holds Q (pop_items deser n s)"
  using split_top_ok [of k s n]
  by (auto simp: pop_items_def case_prod_beta dest!: collect_results_length)

lemma pop_raw_ok [stack_rules]:
  "stack_ok k s \<Longrightarrow> (\<And>xs s'. length xs = n \<Longrightarrow> stack_ok k s' \<Longrightarrow> Q (xs, s')) \<Longrightarrow> holds Q (pop_raw n s)"
  using split_top_ok [of k s n] by (auto simp: pop_raw_def) (metis prod.collapse)

lemma peek_raw_ok [stack_rules]:
  "stack_ok k s \<Longrightarrow> (\<And>xs. length xs = n \<Longrightarrow> Q xs) \<Longrightarrow> holds Q (peek_raw n s)"
  by (simp add: peek_raw_def)

lemma stack_pop_ok [stack_rules]:
  assumes "stack_ok k s" and Q: "\<And>e s'. length e \<le> MAX_SCRIPT_ELEMENT_SIZE \<Longrightarrow> stack_ok k s' \<Longrightarrow> Q (e, s')"
  shows "holds Q (stack_pop s)"
  using assms(1) Q [of "last (inner s)" "s\<lparr>inner := butlast (inner s)\<rparr>"]
  by (auto simp: stack_pop_def stack_ok_def list_all_iff) (meson in_set_butlastD)

lemma stack_insert_ok [stack_rules]:
  assumes "stack_ok k s" and "k < 900" and "i \<le> stack_len s" and Q: "\<And>s'. stack_ok (Suc k) s' \<Longrightarrow> Q s'"
  shows "holds Q (stack_insert i e s)"
proof -
  have "Q (s\<lparr>pushed_bytes := b, inner := take i (inner s) @ e # drop i (inner s)\<rparr>)"
    if "length e \<le> MAX_SCRIPT_ELEMENT_SIZE" and "unat b \<le> Suc k * MAX_SCRIPT_ELEMENT_SIZE" for b
    using assms(1) that by (intro Q) (auto simp: stack_ok_def list_all_iff dest: in_set_takeD in_set_dropD)
  then show ?thesis
    unfolding stack_insert_def using assms
    by (auto intro!: add_pushed_bytes_ok [where k = k and m = 1])
qed

lemma stack_remove_ok [stack_rules]:
  assumes "stack_ok k s" and "i < stack_len s" and Q: "\<And>e s'. stack_ok k s' \<Longrightarrow> Q (e, s')"
  shows "holds Q (stack_remove i s)"
  using assms(1,2) Q [of "s\<lparr>inner := take i (inner s) @ drop (i + 1) (inner s)\<rparr>" "inner s ! i"]
  by (auto simp: stack_remove_def stack_ok_def list_all_iff dest: in_set_takeD in_set_dropD)

lemma total_bytes_bound:
  "list_all (\<lambda>e. length e \<le> MAX_SCRIPT_ELEMENT_SIZE) es \<Longrightarrow> total_bytes es \<le> length es * MAX_SCRIPT_ELEMENT_SIZE"
  by (induction es) (auto simp: total_bytes_def)

lemma copied_items_ok:
  assumes "stack_ok k s" and "set es \<subseteq> set (inner s)" and "length es = n" and "k + n < 1000"
    and "\<And>s'. stack_ok (k + n) s' \<Longrightarrow> Q s'"
  shows "holds Q (bindR (add_pushed_bytes (total_bytes es) s) (\<lambda>s. Inr (s\<lparr>inner := inner s @ es\<rparr>)))"
proof -
  have es: "list_all (\<lambda>e. length e \<le> MAX_SCRIPT_ELEMENT_SIZE) es"
    using assms(1,2) by (auto simp: stack_ok_def list_all_iff)
  show ?thesis
    unfolding holds_bindR
    by (rule add_pushed_bytes_ok [OF assms(1) _ assms(4)])
      (use assms es total_bytes_bound [OF es] in \<open>auto simp: stack_ok_def\<close>)
qed

lemma dup_items_ok [stack_rules]:
  "stack_ok k s \<Longrightarrow> k + n < 1000 \<Longrightarrow> (\<And>s'. stack_ok (k + n) s' \<Longrightarrow> Q s') \<Longrightarrow> holds Q (dup_items n s)"
  unfolding dup_items_def Let_def
  by (auto intro!: copied_items_ok simp del: holds_bindR dest: in_set_dropD)

lemma over_items_ok [stack_rules]:
  "stack_ok k s \<Longrightarrow> k + n < 1000 \<Longrightarrow> (\<And>s'. stack_ok (k + n) s' \<Longrightarrow> Q s') \<Longrightarrow> holds Q (over_items n s)"
  unfolding over_items_def Let_def
  by (auto intro!: copied_items_ok simp del: holds_bindR dest: in_set_dropD in_set_takeD)

lemma set_rotate_tail: "set (rotate_tail k n es) \<subseteq> set es"
  by (auto simp: rotate_tail_def dest: in_set_takeD in_set_dropD)

lemma moved_items_ok [stack_rules]:
  assumes "stack_ok k s" and Q: "\<And>s'. stack_ok k s' \<Longrightarrow> Q s'"
  shows "holds Q (drop_items n s)" "holds Q (rot_items n s)" "holds Q (swap_items n s)" "holds Q (stack_roll n s)"
proof -
  have "Q (s\<lparr>inner := take m (inner s)\<rparr>)" "Q (s\<lparr>inner := rotate_tail m l (inner s)\<rparr>)" for m l
    using assms(1) set_rotate_tail by (auto intro!: Q stack_ok_inner dest: in_set_takeD)
  then show "holds Q (drop_items n s)" "holds Q (rot_items n s)" "holds Q (swap_items n s)" "holds Q (stack_roll n s)"
    using Q [OF assms(1)] by (simp_all add: drop_items_def rot_items_def swap_items_def stack_roll_def)
qed

end
