(* ===== verification/Script_Opcodes.thy ===== *)
theory Script_Opcodes
  imports Script_Stack "HOL-Library.Signed_Division"
begin

text \<open>
  The opcodes of the script engine: \<^verbatim>\<open>src/crypto/txscript/src/opcodes/mod.rs\<close>, the signature checks
  and the multisignature loop of \<^verbatim>\<open>src/crypto/txscript/src/lib.rs\<close> and the tags of
  \<^verbatim>\<open>src/crypto/txscript/src/zk_precompiles\<close>.  One definition per opcode; those that touch nothing but
  the data stack are functions on it.  The record \<open>ScriptCrypto\<close> holds what the engine calls in other
  crates: the hash functions, the secp256k1 library, the signature hashes, the proof verifiers
  and the shared signature cache.
\<close>

unbundle bit_operations_syntax

section \<open>The engine's state and its surroundings\<close>

datatype OpCond = CondFalse | CondTrue | CondSkip

fun OpCond_negate :: "OpCond \<Rightarrow> OpCond" where
  "OpCond_negate CondTrue = CondFalse"
| "OpCond_negate CondFalse = CondTrue"
| "OpCond_negate CondSkip = CondSkip"

datatype ZkTag = Groth16 | R0Succinct

datatype SigCacheKey =
    SchnorrKey (key_sig: bytes) (key_pk: bytes) (key_msg: hash)
  | EcdsaKey (key_sig: bytes) (key_pk: bytes) (key_msg: hash)

record ScriptVm =
  dstack :: Stack
  astack :: Stack
  cond_stack :: "OpCond list"
  num_ops :: int
  runtime_resource_meter :: RuntimeResourceMeter

text \<open>\<open>xonly_from_slice\<close> and the other parsers of the library answer whether the bytes are a key or a
  signature; a key and a signature are then identified with their bytes.\<close>

record ScriptCrypto =
  sha256 :: "bytes \<Rightarrow> bytes"
  blake2b_256 :: "bytes \<Rightarrow> bytes"
  blake2b_256_keyed :: "bytes \<Rightarrow> bytes \<Rightarrow> bytes"
  blake3_hash :: "bytes \<Rightarrow> bytes"
  blake3_keyed_hash :: "bytes \<Rightarrow> bytes \<Rightarrow> bytes"
  xonly_from_slice :: "bytes \<Rightarrow> bool"
  schnorr_from_slice :: "bytes \<Rightarrow> bool"
  schnorr_verify :: "bytes \<Rightarrow> hash \<Rightarrow> bytes \<Rightarrow> bool"
  ecdsa_pk_from_slice :: "bytes \<Rightarrow> bool"
  ecdsa_from_compact :: "bytes \<Rightarrow> bool"
  ecdsa_verify :: "bytes \<Rightarrow> hash \<Rightarrow> bytes \<Rightarrow> bool"
  calc_schnorr_signature_hash :: "PopulatedTransaction \<Rightarrow> nat \<Rightarrow> u8 \<Rightarrow> hash"
  calc_ecdsa_signature_hash :: "PopulatedTransaction \<Rightarrow> nat \<Rightarrow> u8 \<Rightarrow> hash"
  verify_zk :: "ZkTag \<Rightarrow> Stack \<Rightarrow> RuntimeResourceMeter \<Rightarrow> (Stack \<times> RuntimeResourceMeter) script_result"
  sig_cache_get :: "SigCacheKey \<Rightarrow> bool option"

datatype ScriptSource =
    TxInput PopulatedTransaction TransactionInput nat UtxoEntry bool
  | StandAloneScripts "bytes list"

record SeqCommitAccessor =
  is_chain_ancestor_from_pov :: "hash \<Rightarrow> bool option"
  seq_commitment_within_depth :: "hash \<Rightarrow> hash option"

record ScriptEnv = ScriptCrypto +
  script_source :: ScriptSource
  covenants_ctx :: CovenantsContext
  seq_commit_accessor :: "SeqCommitAccessor option"

type_synonym stack_op = "Stack \<Rightarrow> Stack script_result"
type_synonym vm_op = "ScriptVm \<Rightarrow> ScriptVm script_result"

definition on_dstack :: "stack_op \<Rightarrow> vm_op" where
  "on_dstack f vm = bindR (f (dstack vm)) (\<lambda>s. Inr (vm\<lparr>dstack := s\<rparr>))"

definition vm_consume_script_units :: "ScriptUnits \<Rightarrow> vm_op" where
  "vm_consume_script_units units vm =
     bindR (consume_script_units units (runtime_resource_meter vm)) (\<lambda>m. Inr (vm\<lparr>runtime_resource_meter := m\<rparr>))"

definition is_executing :: "ScriptVm \<Rightarrow> bool" where
  "is_executing vm \<longleftrightarrow> cond_stack vm = [] \<or> last (cond_stack vm) = CondTrue"

section \<open>Metadata and helpers\<close>

definition is_disabled :: "OpCode \<Rightarrow> bool" where
  "is_disabled op \<longleftrightarrow> op_value op \<in> {0x80, 0x81, 0x8d, 0x8e, 0x98, 0x99}"

definition always_illegal :: "OpCode \<Rightarrow> bool" where
  "always_illegal op \<longleftrightarrow> op_value op \<in> {0x65, 0x66}"

definition is_push_opcode :: "OpCode \<Rightarrow> bool" where
  "is_push_opcode op \<longleftrightarrow> op_value op \<le> NO_COST_OPCODE"

definition is_conditional :: "OpCode \<Rightarrow> bool" where
  "is_conditional op \<longleftrightarrow> 0x63 \<le> op_value op \<and> op_value op \<le> 0x68"

definition push_literal_data :: "bytes \<Rightarrow> stack_op" where
  "push_literal_data = push_unmetered"

definition push_data :: "bytes \<Rightarrow> stack_op" where
  "push_data = stack_push"

definition push_literal_number :: "int \<Rightarrow> stack_op" where
  "push_literal_number n = push_item_unmetered (serialize_entry_i64 n)"

definition push_number :: "int \<Rightarrow> stack_op" where
  "push_number n = push_item (serialize_entry_i64 n)"

definition push_bool :: "bool \<Rightarrow> stack_op" where
  "push_bool b = push_item (Inr (serialize_bool b))"

definition bool_number :: "bool \<Rightarrow> int" where
  "bool_number b = (if b then 1 else 0)"

definition substring :: "bytes \<Rightarrow> nat \<Rightarrow> nat \<Rightarrow> bytes script_result" where
  "substring data start stop =
     (if stop < start then Inl (Err (InvalidRange start stop))
      else if MAX_SCRIPT_ELEMENT_SIZE < stop - start then
        Inl (Err (ElementTooBig (stop - start) MAX_SCRIPT_ELEMENT_SIZE))
      else if stop \<le> length data then Inr (take (stop - start) (drop start data))
      else Inl (Err (OutOfBoundsSubstring start stop (length data))))"

definition i32_to_usize :: "int \<Rightarrow> nat script_result" where
  "i32_to_usize v = (if v < 0 then Inl (Err (InvalidIndex v)) else Inr (nat v))"

definition i32s_to_usizes :: "int list \<Rightarrow> nat list script_result" where
  "i32s_to_usizes vs = collect_results i32_to_usize vs"

datatype HashOpcodePricing = PriceBlake2b | PriceBlake3 | PriceSha256

fun units_per_byte :: "HashOpcodePricing \<Rightarrow> u64" where
  "units_per_byte PriceBlake2b = 2"
| "units_per_byte PriceBlake3 = 1"
| "units_per_byte PriceSha256 = 1"

definition script_units_for_data :: "HashOpcodePricing \<Rightarrow> nat \<Rightarrow> ScriptUnits" where
  "script_units_for_data p len = saturating_mul (of_nat len) (units_per_byte p)"

text \<open>\<^verbatim>\<open>let [x]: [bool; 1] = vm.dstack.pop_items()?\<close> followed by the demand that it is true.\<close>

definition pop_bool :: "Stack \<Rightarrow> (bool \<times> Stack) script_result" where
  "pop_bool s = bindR (pop_items (\<lambda>v. Inr (deserialize_bool v)) 1 s) (\<lambda>(xs, s). Inr (xs ! 0, s))"

definition OpVerify :: stack_op where
  "OpVerify s = bindR (pop_bool s) (\<lambda>(result, s). if result then Inr s else Inl (Err VerifyError))"

section \<open>Pushes and conditionals\<close>

definition push_op :: "OpCode \<Rightarrow> stack_op" where
  "push_op op s =
     (let v = op_value op in
      if v = 0x00 then push_literal_data [] s
      else if v \<le> 0x4e then push_literal_data (op_data op) s
      else if v = 0x4f then push_literal_number (- 1) s
      else if v = 0x50 then Inl (Err (OpcodeReserved op))
      else push_literal_number (int (unat v) - 0x50) s)"

definition OpIf :: vm_op where
  "OpIf vm =
     (if is_executing vm then
        bindR (pop_bool (dstack vm)) (\<lambda>(cond, s).
        Inr (vm\<lparr>dstack := s, cond_stack := cond_stack vm @ [if cond then CondTrue else CondFalse]\<rparr>))
      else Inr (vm\<lparr>cond_stack := cond_stack vm @ [CondSkip]\<rparr>))"

definition OpNotIf :: vm_op where
  "OpNotIf vm =
     (if is_executing vm then
        bindR (pop_bool (dstack vm)) (\<lambda>(cond, s).
        Inr (vm\<lparr>dstack := s, cond_stack := cond_stack vm @ [if cond then CondFalse else CondTrue]\<rparr>))
      else Inr (vm\<lparr>cond_stack := cond_stack vm @ [CondSkip]\<rparr>))"

definition OpElse :: vm_op where
  "OpElse vm =
     (if cond_stack vm = [] then Inl (Err InvalidState)
      else Inr (vm\<lparr>cond_stack := butlast (cond_stack vm) @ [OpCond_negate (last (cond_stack vm))]\<rparr>))"

definition OpEndIf :: vm_op where
  "OpEndIf vm =
     (if cond_stack vm = [] then Inl (Err InvalidState) else Inr (vm\<lparr>cond_stack := butlast (cond_stack vm)\<rparr>))"

definition control_op :: "OpCode \<Rightarrow> vm_op" where
  "control_op op vm =
     (let v = op_value op in
      if v = 0x61 then Inr vm
      else if v = 0x63 then OpIf vm
      else if v = 0x64 then OpNotIf vm
      else if v = 0x67 then OpElse vm
      else if v = 0x68 then OpEndIf vm
      else if v = 0x69 then on_dstack OpVerify vm
      else if v = 0x6a then Inl (Err EarlyReturn)
      else Inl (Err (OpcodeReserved op)))"

section \<open>Stack opcodes\<close>

definition OpToAltStack :: vm_op where
  "OpToAltStack vm =
     bindR (pop_raw 1 (dstack vm)) (\<lambda>(xs, s).
     bindR (push_unmetered (xs ! 0) (astack vm)) (\<lambda>a. Inr (vm\<lparr>dstack := s, astack := a\<rparr>)))"

definition OpFromAltStack :: vm_op where
  "OpFromAltStack vm =
     bindR (stack_pop (astack vm)) (\<lambda>(e, a).
     bindR (push_unmetered e (dstack vm)) (\<lambda>s. Inr (vm\<lparr>dstack := s, astack := a\<rparr>)))"

definition OpIfDup :: stack_op where
  "OpIfDup s = bindR (peek_raw 1 s) (\<lambda>xs. if deserialize_bool (xs ! 0) then stack_push (xs ! 0) s else Inr s)"

definition OpDepth :: stack_op where
  "OpDepth s = push_number (int (stack_len s)) s"

definition OpNip :: stack_op where
  "OpNip s =
     (if 2 \<le> stack_len s then bindR (stack_remove (stack_len s - 2) s) (\<lambda>(_, s). Inr s)
      else Inl (Err (InvalidStackOperation 2 (stack_len s))))"

definition OpPick :: stack_op where
  "OpPick s =
     bindR (pop_items deserialize_entry_i32 1 s) (\<lambda>(xs, s).
     let loc = xs ! 0 in
     if loc < 0 \<or> int (stack_len s) \<le> loc then Inl (Err InvalidState)
     else stack_push (inner s ! (stack_len s - nat loc - 1)) s)"

definition OpRoll :: stack_op where
  "OpRoll s =
     bindR (pop_items deserialize_entry_i32 1 s) (\<lambda>(xs, s).
     let loc = xs ! 0 in
     if loc < 0 \<or> int (stack_len s) \<le> loc then Inl (Err InvalidState) else stack_roll (nat loc) s)"

definition OpTuck :: stack_op where
  "OpTuck s =
     (if 2 \<le> stack_len s then stack_insert (stack_len s - 2) (last (inner s)) s
      else Inl (Err (InvalidStackOperation 2 (stack_len s))))"

definition stack_opcode :: "u8 \<Rightarrow> vm_op" where
  "stack_opcode v vm =
     (if v = 0x6b then OpToAltStack vm
      else if v = 0x6c then OpFromAltStack vm
      else on_dstack
        (if v = 0x6d then drop_items 2
         else if v = 0x6e then dup_items 2
         else if v = 0x6f then dup_items 3
         else if v = 0x70 then over_items 2
         else if v = 0x71 then rot_items 2
         else if v = 0x72 then swap_items 2
         else if v = 0x73 then OpIfDup
         else if v = 0x74 then OpDepth
         else if v = 0x75 then drop_items 1
         else if v = 0x76 then dup_items 1
         else if v = 0x77 then OpNip
         else if v = 0x78 then over_items 1
         else if v = 0x79 then OpPick
         else if v = 0x7a then OpRoll
         else if v = 0x7b then rot_items 1
         else if v = 0x7c then swap_items 1
         else OpTuck) vm)"

section \<open>Splice and bitwise opcodes\<close>

definition OpCat :: stack_op where
  "OpCat s = bindR (stack_pop s) (\<lambda>(b, s). bindR (stack_pop s) (\<lambda>(a, s). stack_push (a @ b) s))"

definition OpSubstr :: stack_op where
  "OpSubstr s =
     bindR (pop_items deserialize_entry_i32 2 s) (\<lambda>(xs, s).
     bindR (stack_pop s) (\<lambda>(data, s).
     bindR (i32s_to_usizes xs) (\<lambda>is.
     bindR (substring data (is ! 0) (is ! 1)) (\<lambda>substr. stack_push substr s))))"

definition OpSize :: stack_op where
  "OpSize s =
     (if inner s = [] then Inl (Err (InvalidStackOperation 1 0))
      else
        let n = int (length (last (inner s))) in
        if i64_range n then push_number n s else Inl (Err NumberTooBig))"

definition OpInvert :: stack_op where
  "OpInvert s = bindR (stack_pop s) (\<lambda>(data, s). stack_push (map NOT data) s)"

text \<open>\<^verbatim>\<open>OpAnd\<close>, \<^verbatim>\<open>OpOr\<close> and \<^verbatim>\<open>OpXor\<close> differ in the operation on bytes only.\<close>

definition bytewise :: "(u8 \<Rightarrow> u8 \<Rightarrow> u8) \<Rightarrow> stack_op" where
  "bytewise f s =
     bindR (stack_pop s) (\<lambda>(b, s).
     bindR (stack_pop s) (\<lambda>(a, s).
     if length a \<noteq> length b then Inl (Err InvalidState)
     else stack_push (map (\<lambda>(x, y). f x y) (zip a b)) s))"

definition OpAnd :: stack_op where "OpAnd = bytewise (AND)"
definition OpOr :: stack_op where "OpOr = bytewise (OR)"
definition OpXor :: stack_op where "OpXor = bytewise (XOR)"

definition OpEqual :: stack_op where
  "OpEqual s =
     (if 2 \<le> stack_len s then
        let (pair, s') = split_top 2 s in
        if pair ! 0 = pair ! 1 then stack_push [1] s' else stack_push [] s'
      else Inl (Err (InvalidStackOperation 2 (stack_len s))))"

definition OpEqualVerify :: stack_op where
  "OpEqualVerify s =
     (if 2 \<le> stack_len s then
        let (pair, s') = split_top 2 s in
        if pair ! 0 = pair ! 1 then Inr s' else Inl (Err VerifyError)
      else Inl (Err (InvalidStackOperation 2 (stack_len s))))"

definition splice_op :: "OpCode \<Rightarrow> stack_op" where
  "splice_op op s =
     (let v = op_value op in
      if v = 0x7e then OpCat s
      else if v = 0x7f then OpSubstr s
      else if v = 0x80 \<or> v = 0x81 then Inl (Err (OpcodeDisabled op))
      else if v = 0x82 then OpSize s
      else if v = 0x83 then OpInvert s
      else if v = 0x84 then OpAnd s
      else if v = 0x85 then OpOr s
      else if v = 0x86 then OpXor s
      else if v = 0x87 then OpEqual s
      else if v = 0x88 then OpEqualVerify s
      else Inl (Err (OpcodeReserved op)))"

section \<open>Numeric opcodes\<close>

text \<open>\<^verbatim>\<open>checked_add\<close> and the other checked operations of \<^verbatim>\<open>i64\<close>: the exact result, or \<^verbatim>\<open>None\<close> outside
  the range.  Division and remainder truncate towards zero.\<close>

definition i64_checked_value :: "int \<Rightarrow> TxScriptError \<Rightarrow> int script_result" where
  "i64_checked_value x e = (if i64_range x then Inr x else Inl (Err e))"

definition unary_num :: "(int \<Rightarrow> int script_result) \<Rightarrow> stack_op" where
  "unary_num f s =
     bindR (pop_items deserialize_entry_i64 1 s) (\<lambda>(xs, s). bindR (f (xs ! 0)) (\<lambda>r. push_number r s))"

definition binary_num :: "(int \<Rightarrow> int \<Rightarrow> int script_result) \<Rightarrow> stack_op" where
  "binary_num f s =
     bindR (pop_items deserialize_entry_i64 2 s) (\<lambda>(xs, s). bindR (f (xs ! 0) (xs ! 1)) (\<lambda>r. push_number r s))"

definition Op1Add :: stack_op where "Op1Add = unary_num (\<lambda>v. i64_checked_value (v + 1) NumberTooBig)"
definition Op1Sub :: stack_op where "Op1Sub = unary_num (\<lambda>v. i64_checked_value (v - 1) NumberTooBig)"
definition OpNegate :: stack_op where "OpNegate = unary_num (\<lambda>v. i64_checked_value (- v) NumberTooBig)"
definition OpAbs :: stack_op where "OpAbs = unary_num (\<lambda>v. i64_checked_value \<bar>v\<bar> NumberTooBig)"
definition OpNot :: stack_op where "OpNot = unary_num (\<lambda>m. Inr (bool_number (m = 0)))"
definition Op0NotEqual :: stack_op where "Op0NotEqual = unary_num (\<lambda>m. Inr (bool_number (m \<noteq> 0)))"
definition OpAdd :: stack_op where "OpAdd = binary_num (\<lambda>a b. i64_checked_value (a + b) NumberTooBig)"
definition OpSub :: stack_op where "OpSub = binary_num (\<lambda>a b. i64_checked_value (a - b) NumberTooBig)"
definition OpMul :: stack_op where "OpMul = binary_num (\<lambda>a b. i64_checked_value (a * b) NumberTooBig)"

definition OpDiv :: stack_op where
  "OpDiv = binary_num (\<lambda>a b. if b = 0 then Inl (Err InvalidState) else i64_checked_value (a sdiv b) InvalidState)"

text \<open>\<^verbatim>\<open>checked_rem\<close> also answers \<^verbatim>\<open>None\<close> for the smallest number and \<open>- 1\<close>, whose quotient overflows.\<close>

definition OpMod :: stack_op where
  "OpMod = binary_num (\<lambda>a b.
     if b = 0 \<or> \<not> i64_range (a sdiv b) then Inl (Err InvalidState) else Inr (a smod b))"

definition OpBoolAnd :: stack_op where "OpBoolAnd = binary_num (\<lambda>a b. Inr (bool_number (a \<noteq> 0 \<and> b \<noteq> 0)))"
definition OpBoolOr :: stack_op where "OpBoolOr = binary_num (\<lambda>a b. Inr (bool_number (a \<noteq> 0 \<or> b \<noteq> 0)))"
definition OpNumEqual :: stack_op where "OpNumEqual = binary_num (\<lambda>a b. Inr (bool_number (a = b)))"

definition OpNumEqualVerify :: stack_op where
  "OpNumEqualVerify s =
     bindR (pop_items deserialize_entry_i64 2 s) (\<lambda>(xs, s).
     if xs ! 0 = xs ! 1 then Inr s else Inl (Err VerifyError))"

definition OpNumNotEqual :: stack_op where "OpNumNotEqual = binary_num (\<lambda>a b. Inr (bool_number (a \<noteq> b)))"
definition OpLessThan :: stack_op where "OpLessThan = binary_num (\<lambda>a b. Inr (bool_number (a < b)))"
definition OpGreaterThan :: stack_op where "OpGreaterThan = binary_num (\<lambda>a b. Inr (bool_number (b < a)))"
definition OpLessThanOrEqual :: stack_op where "OpLessThanOrEqual = binary_num (\<lambda>a b. Inr (bool_number (a \<le> b)))"
definition OpGreaterThanOrEqual :: stack_op where "OpGreaterThanOrEqual = binary_num (\<lambda>a b. Inr (bool_number (b \<le> a)))"
definition OpMin :: stack_op where "OpMin = binary_num (\<lambda>a b. Inr (min a b))"
definition OpMax :: stack_op where "OpMax = binary_num (\<lambda>a b. Inr (max a b))"

definition OpWithin :: stack_op where
  "OpWithin s =
     bindR (pop_items deserialize_entry_i64 3 s) (\<lambda>(xs, s).
     push_number (bool_number (xs ! 1 \<le> xs ! 0 \<and> xs ! 0 < xs ! 2)) s)"

definition numeric_op :: "OpCode \<Rightarrow> stack_op" where
  "numeric_op op s =
     (let v = op_value op in
      if v = 0x8b then Op1Add s
      else if v = 0x8c then Op1Sub s
      else if v \<in> {0x8d, 0x8e, 0x98, 0x99} then Inl (Err (OpcodeDisabled op))
      else if v = 0x8f then OpNegate s
      else if v = 0x90 then OpAbs s
      else if v = 0x91 then OpNot s
      else if v = 0x92 then Op0NotEqual s
      else if v = 0x93 then OpAdd s
      else if v = 0x94 then OpSub s
      else if v = 0x95 then OpMul s
      else if v = 0x96 then OpDiv s
      else if v = 0x97 then OpMod s
      else if v = 0x9a then OpBoolAnd s
      else if v = 0x9b then OpBoolOr s
      else if v = 0x9c then OpNumEqual s
      else if v = 0x9d then OpNumEqualVerify s
      else if v = 0x9e then OpNumNotEqual s
      else if v = 0x9f then OpLessThan s
      else if v = 0xa0 then OpGreaterThan s
      else if v = 0xa1 then OpLessThanOrEqual s
      else if v = 0xa2 then OpGreaterThanOrEqual s
      else if v = 0xa3 then OpMin s
      else if v = 0xa4 then OpMax s
      else OpWithin s)"

section \<open>Hashes, proofs and signatures\<close>

fun ZkTag_cost :: "ZkTag \<Rightarrow> ScriptUnits" where
  "ZkTag_cost Groth16 = 1000 * 140 * SCRIPT_UNITS_PER_GRAM"
| "ZkTag_cost R0Succinct = 1000 * 250 * SCRIPT_UNITS_PER_GRAM"

definition ZkTag_max_cost :: ScriptUnits where
  "ZkTag_max_cost = 1000 * 250 * SCRIPT_UNITS_PER_GRAM"

definition ZkTag_try_from :: "u8 \<Rightarrow> ZkTag option" where
  "ZkTag_try_from v = (if v = 0x20 then Some Groth16 else if v = 0x21 then Some R0Succinct else None)"

definition parse_tag :: "Stack \<Rightarrow> (ZkTag \<times> Stack) script_result" where
  "parse_tag s =
     bindR (stack_pop s) (\<lambda>(tag_bytes, s).
     case tag_bytes of
       [b] \<Rightarrow> (case ZkTag_try_from b of Some t \<Rightarrow> Inr (t, s) | None \<Rightarrow> Inl (Err ZkIntegrity))
     | _ \<Rightarrow> Inl (Err ZkIntegrity))"

definition OpZkPrecompile :: "ScriptEnv \<Rightarrow> vm_op" where
  "OpZkPrecompile env vm =
     bindR (parse_tag (dstack vm)) (\<lambda>(tag, s).
     bindR (consume_script_units (ZkTag_cost tag) (runtime_resource_meter vm)) (\<lambda>m.
     bindR (verify_zk env tag s m) (\<lambda>(s, m).
     bindR (push_bool True s) (\<lambda>s. Inr (vm\<lparr>dstack := s, runtime_resource_meter := m\<rparr>)))))"

text \<open>The unkeyed hash opcodes pop one entry, pay for its bytes and push its hash.\<close>

definition hash_op :: "HashOpcodePricing \<Rightarrow> (bytes \<Rightarrow> bytes) \<Rightarrow> vm_op" where
  "hash_op price h vm =
     bindR (pop_raw 1 (dstack vm)) (\<lambda>(xs, s).
     bindR (vm_consume_script_units (script_units_for_data price (length (xs ! 0))) (vm\<lparr>dstack := s\<rparr>)) (\<lambda>vm.
     on_dstack (stack_push (h (xs ! 0))) vm))"

definition OpSHA256 :: "ScriptEnv \<Rightarrow> vm_op" where "OpSHA256 env = hash_op PriceSha256 (sha256 env)"
definition OpBlake2b :: "ScriptEnv \<Rightarrow> vm_op" where "OpBlake2b env = hash_op PriceBlake2b (blake2b_256 env)"
definition OpBlake3 :: "ScriptEnv \<Rightarrow> vm_op" where "OpBlake3 env = hash_op PriceBlake3 (blake3_hash env)"

definition BLAKE2B_KEYBYTES :: nat where "BLAKE2B_KEYBYTES = 64"
definition BLAKE3_KEY_LEN :: nat where "BLAKE3_KEY_LEN = 32"

definition OpBlake2bWithKey :: "ScriptEnv \<Rightarrow> vm_op" where
  "OpBlake2bWithKey env vm =
     bindR (pop_raw 2 (dstack vm)) (\<lambda>(xs, s).
     let data = xs ! 0; key = xs ! 1 in
     if BLAKE2B_KEYBYTES < length key then Inl (Err (ElementTooBig (length key) BLAKE2B_KEYBYTES))
     else
       bindR (vm_consume_script_units (script_units_for_data PriceBlake2b (length data)) (vm\<lparr>dstack := s\<rparr>))
         (on_dstack (stack_push (blake2b_256_keyed env key data))))"

definition OpBlake3WithKey :: "ScriptEnv \<Rightarrow> vm_op" where
  "OpBlake3WithKey env vm =
     bindR (pop_raw 2 (dstack vm)) (\<lambda>(xs, s).
     let data = xs ! 0; key = xs ! 1 in
     if length key \<noteq> BLAKE3_KEY_LEN then Inl (Err (MalformedPush BLAKE3_KEY_LEN (length key)))
     else
       bindR (vm_consume_script_units (script_units_for_data PriceBlake3 (length data)) (vm\<lparr>dstack := s\<rparr>))
         (on_dstack (stack_push (blake3_keyed_hash env key data))))"

definition SigHashType_from_u8 :: "u8 \<Rightarrow> u8 option" where
  "SigHashType_from_u8 v =
     (if v \<in> {0x01, 0x02, 0x04, 0x01 OR 0x80, 0x02 OR 0x80, 0x04 OR 0x80} then Some v else None)"

text \<open>What the library answers for a signature, a message and a key.\<close>

fun verify_key :: "('a ScriptCrypto_scheme) \<Rightarrow> SigCacheKey \<Rightarrow> bool" where
  "verify_key env (SchnorrKey sig pk msg) = schnorr_verify env sig msg pk"
| "verify_key env (EcdsaKey sig pk msg) = ecdsa_verify env sig msg pk"

text \<open>The answer is taken from the cache when it is there; storing it for later is not modelled.\<close>

definition cached_verify :: "ScriptEnv \<Rightarrow> SigCacheKey \<Rightarrow> bool" where
  "cached_verify env k = (case sig_cache_get env k of Some valid \<Rightarrow> valid | None \<Rightarrow> verify_key env k)"

definition check_schnorr_signature_with_msg_hash ::
    "ScriptEnv \<Rightarrow> bytes \<Rightarrow> bytes \<Rightarrow> hash \<Rightarrow> RuntimeResourceMeter \<Rightarrow> (bool \<times> RuntimeResourceMeter) script_result" where
  "check_schnorr_signature_with_msg_hash env key sig msg_hash m =
     bindR (consume_sig_op_cost 1 m) (\<lambda>m.
     if \<not> xonly_from_slice env key then Inl (Err InvalidPubkey)
     else if \<not> schnorr_from_slice env sig then Inl (Err InvalidSignature)
     else Inr (cached_verify env (SchnorrKey sig key msg_hash), m))"

definition check_schnorr_signature ::
    "ScriptEnv \<Rightarrow> u8 \<Rightarrow> bytes \<Rightarrow> bytes \<Rightarrow> RuntimeResourceMeter \<Rightarrow> (bool \<times> RuntimeResourceMeter) script_result" where
  "check_schnorr_signature env hash_type key sig m =
     (case script_source env of
        TxInput tx _ idx _ _ \<Rightarrow>
          check_schnorr_signature_with_msg_hash env key sig (calc_schnorr_signature_hash env tx idx hash_type) m
      | StandAloneScripts _ \<Rightarrow> Inl (Err NotATransactionInput))"

definition check_pub_key_encoding_ecdsa :: "bytes \<Rightarrow> unit script_result" where
  "check_pub_key_encoding_ecdsa pub_key = (if length pub_key = 33 then Inr () else Inl (Err PubKeyFormat))"

definition check_ecdsa_signature_with_msg_hash ::
    "ScriptEnv \<Rightarrow> bytes \<Rightarrow> bytes \<Rightarrow> hash \<Rightarrow> RuntimeResourceMeter \<Rightarrow> (bool \<times> RuntimeResourceMeter) script_result" where
  "check_ecdsa_signature_with_msg_hash env key sig msg_hash m =
     bindR (consume_sig_op_cost 1 m) (\<lambda>m.
     bindR (check_pub_key_encoding_ecdsa key) (\<lambda>_.
     if \<not> ecdsa_pk_from_slice env key then Inl (Err InvalidPubkey)
     else if \<not> ecdsa_from_compact env sig then Inl (Err InvalidSignature)
     else Inr (cached_verify env (EcdsaKey sig key msg_hash), m)))"

definition check_ecdsa_signature ::
    "ScriptEnv \<Rightarrow> u8 \<Rightarrow> bytes \<Rightarrow> bytes \<Rightarrow> RuntimeResourceMeter \<Rightarrow> (bool \<times> RuntimeResourceMeter) script_result" where
  "check_ecdsa_signature env hash_type key sig m =
     (case script_source env of
        TxInput tx _ idx _ _ \<Rightarrow>
          check_ecdsa_signature_with_msg_hash env key sig (calc_ecdsa_signature_hash env tx idx hash_type) m
      | StandAloneScripts _ \<Rightarrow> Inl (Err NotATransactionInput))"

text \<open>\<^verbatim>\<open>OpCheckSig\<close> and \<^verbatim>\<open>OpCheckSigECDSA\<close> differ in the check they call.\<close>

type_synonym sig_check = "u8 \<Rightarrow> bytes \<Rightarrow> bytes \<Rightarrow> RuntimeResourceMeter \<Rightarrow> (bool \<times> RuntimeResourceMeter) script_result"

definition check_sig_op :: "sig_check \<Rightarrow> vm_op" where
  "check_sig_op check vm =
     bindR (pop_raw 2 (dstack vm)) (\<lambda>(xs, s).
     let sig = xs ! 0; key = xs ! 1 in
     if sig = [] then bindR (push_bool False s) (\<lambda>s. Inr (vm\<lparr>dstack := s\<rparr>))
     else
       bindR (ok_or (Err (InvalidSigHashType (last sig))) (SigHashType_from_u8 (last sig))) (\<lambda>hash_type.
       bindR (check hash_type key (butlast sig) (runtime_resource_meter vm)) (\<lambda>(valid, m).
       bindR (push_bool valid s) (\<lambda>s. Inr (vm\<lparr>dstack := s, runtime_resource_meter := m\<rparr>)))))"

definition OpCheckSig :: "ScriptEnv \<Rightarrow> vm_op" where "OpCheckSig env = check_sig_op (check_schnorr_signature env)"
definition OpCheckSigECDSA :: "ScriptEnv \<Rightarrow> vm_op" where "OpCheckSigECDSA env = check_sig_op (check_ecdsa_signature env)"

definition OpCheckSigVerify :: "ScriptEnv \<Rightarrow> vm_op" where
  "OpCheckSigVerify env vm = bindR (OpCheckSig env vm) (on_dstack OpVerify)"

definition check_sig_from_stack ::
    "(bytes \<Rightarrow> bytes \<Rightarrow> hash \<Rightarrow> RuntimeResourceMeter \<Rightarrow> (bool \<times> RuntimeResourceMeter) script_result) \<Rightarrow> vm_op" where
  "check_sig_from_stack check vm =
     bindR (pop_raw 3 (dstack vm)) (\<lambda>(xs, s).
     let sig = xs ! 0; msg_hash = xs ! 1; pubkey = xs ! 2 in
     if length msg_hash \<noteq> 32 then Inl (Err InvalidState)
     else
       bindR (check pubkey sig msg_hash (runtime_resource_meter vm)) (\<lambda>(valid, m).
       bindR (push_bool valid s) (\<lambda>s. Inr (vm\<lparr>dstack := s, runtime_resource_meter := m\<rparr>))))"

definition OpCheckSigFromStack :: "ScriptEnv \<Rightarrow> vm_op" where
  "OpCheckSigFromStack env = check_sig_from_stack (check_schnorr_signature_with_msg_hash env)"

definition OpCheckSigFromStackECDSA :: "ScriptEnv \<Rightarrow> vm_op" where
  "OpCheckSigFromStackECDSA env = check_sig_from_stack (check_ecdsa_signature_with_msg_hash env)"

text \<open>The two loops of \<^verbatim>\<open>op_check_multisig_schnorr_or_ecdsa\<close>.  The inner one advances through the
  public keys until one accepts the signature; its answer says whether one did, and carries the
  keys that are left.\<close>

fun multisig_inner ::
    "(bytes \<Rightarrow> RuntimeResourceMeter \<Rightarrow> (bool \<times> RuntimeResourceMeter) script_result) \<Rightarrow> nat \<Rightarrow>
     bytes list \<Rightarrow> RuntimeResourceMeter \<Rightarrow> (bool \<times> bytes list \<times> RuntimeResourceMeter) script_result" where
  "multisig_inner check needed [] m = (if 0 < needed then Inr (False, [], m) else Inl Panic)"
| "multisig_inner check needed (pub_key # rest) m =
     (if length (pub_key # rest) < needed then Inr (False, pub_key # rest, m)
      else bindR (check pub_key m) (\<lambda>(valid, m).
        if valid then Inr (True, rest, m) else multisig_inner check needed rest m))"

text \<open>The outer loop runs over the signatures that are left, \<open>length\<close> of which is
  \<^verbatim>\<open>num_sigs - sig_idx\<close>.  Its answer is \<^verbatim>\<open>failed\<close>.\<close>

fun multisig_outer ::
    "sig_check \<Rightarrow> bytes list \<Rightarrow> bytes list \<Rightarrow> RuntimeResourceMeter \<Rightarrow> (bool \<times> RuntimeResourceMeter) script_result" where
  "multisig_outer check [] pub_keys m = Inr (False, m)"
| "multisig_outer check (sig # sigs) pub_keys m =
     (if sig = [] then Inr (True, m)
      else
        bindR (ok_or (Err (InvalidSigHashType (last sig))) (SigHashType_from_u8 (last sig))) (\<lambda>hash_type.
        bindR (multisig_inner (\<lambda>pub_key. check hash_type pub_key (butlast sig))
                 (length (sig # sigs)) pub_keys m) (\<lambda>(found, rest, m).
        if found then multisig_outer check sigs rest m else Inr (True, m))))"

text \<open>\<^verbatim>\<open>self.num_ops += n\<close> on an \<^verbatim>\<open>i32\<close>, followed by the limit.\<close>

definition count_ops :: "int \<Rightarrow> vm_op" where
  "count_ops n vm =
     (let total = num_ops vm + n in
      if \<not> i32_range total then Inl Panic
      else if MAX_OPS_PER_SCRIPT < total then Inl (Err (TooManyOperations MAX_OPS_PER_SCRIPT))
      else Inr (vm\<lparr>num_ops := total\<rparr>))"

definition take_items :: "nat \<Rightarrow> Stack \<Rightarrow> (StackEntry list \<times> Stack) script_result" where
  "take_items n s =
     (if n \<le> stack_len s then Inr (split_top n s) else Inl (Err (InvalidStackOperation n (stack_len s))))"

definition op_check_multisig :: "sig_check \<Rightarrow> vm_op" where
  "op_check_multisig check vm =
     bindR (pop_items deserialize_entry_i32 1 (dstack vm)) (\<lambda>(xs, s).
     let num_keys = xs ! 0 in
     if num_keys < 0 \<or> MAX_PUB_KEYS_PER_MUTLTISIG < num_keys then Inl (Err InvalidPubKeyCount)
     else
       bindR (count_ops num_keys vm) (\<lambda>vm.
       bindR (take_items (nat num_keys) s) (\<lambda>(pub_keys, s).
       bindR (pop_items deserialize_entry_i32 1 s) (\<lambda>(ys, s).
       let num_sigs = ys ! 0 in
       if num_sigs < 0 \<or> num_keys < num_sigs then Inl (Err InvalidSignatureCount)
       else
         bindR (take_items (nat num_sigs) s) (\<lambda>(signatures, s).
         bindR (multisig_outer check signatures pub_keys (runtime_resource_meter vm)) (\<lambda>(failed, m).
         if failed \<and> (\<exists>sig \<in> set signatures. sig \<noteq> []) then Inl (Err NullFail)
         else bindR (push_bool (\<not> failed) s) (\<lambda>s.
           Inr (vm\<lparr>dstack := s, runtime_resource_meter := m\<rparr>))))))))"

definition OpCheckMultiSig :: "ScriptEnv \<Rightarrow> vm_op" where
  "OpCheckMultiSig env = op_check_multisig (check_schnorr_signature env)"

definition OpCheckMultiSigECDSA :: "ScriptEnv \<Rightarrow> vm_op" where
  "OpCheckMultiSigECDSA env = op_check_multisig (check_ecdsa_signature env)"

definition OpCheckMultiSigVerify :: "ScriptEnv \<Rightarrow> vm_op" where
  "OpCheckMultiSigVerify env vm = bindR (OpCheckMultiSig env vm) (on_dstack OpVerify)"

definition crypto_op :: "ScriptEnv \<Rightarrow> u8 \<Rightarrow> vm_op" where
  "crypto_op env v =
     (if v = 0xa6 then OpZkPrecompile env
      else if v = 0xa7 then OpBlake2bWithKey env
      else if v = 0xa8 then OpSHA256 env
      else if v = 0xa9 then OpCheckMultiSigECDSA env
      else if v = 0xaa then OpBlake2b env
      else if v = 0xab then OpCheckSigECDSA env
      else if v = 0xac then OpCheckSig env
      else if v = 0xad then OpCheckSigVerify env
      else if v = 0xae then OpCheckMultiSig env
      else if v = 0xaf then OpCheckMultiSigVerify env
      else if v = 0xd7 then OpCheckSigFromStack env
      else if v = 0xd8 then OpCheckSigFromStackECDSA env
      else if v = 0xd9 then OpBlake3 env
      else OpBlake3WithKey env)"

section \<open>Lock times\<close>

text \<open>The opcodes of this and the following sections apply to transaction inputs only.\<close>

definition on_tx ::
    "ScriptEnv \<Rightarrow> (PopulatedTransaction \<Rightarrow> TransactionInput \<Rightarrow> nat \<Rightarrow> stack_op) \<Rightarrow> stack_op" where
  "on_tx env f s =
     (case script_source env of
        TxInput tx input idx _ _ \<Rightarrow> f tx input idx s
      | StandAloneScripts _ \<Rightarrow> Inl (Err InvalidSource))"

text \<open>\<^verbatim>\<open>resize(8, 0)\<close> and \<^verbatim>\<open>u64::from_le_bytes\<close>.\<close>

definition pop_u64 :: "Stack \<Rightarrow> (u64 \<times> Stack) script_result" where
  "pop_u64 s =
     bindR (pop_raw 1 s) (\<lambda>(xs, s).
     let v = xs ! 0 in
     if 8 < length v then Inl (Err NumberTooBig)
     else Inr (u64_from_le_bytes (v @ replicate (8 - length v) 0), s))"

definition OpCheckLockTimeVerify :: "ScriptEnv \<Rightarrow> stack_op" where
  "OpCheckLockTimeVerify env = on_tx env (\<lambda>tx input idx s.
     bindR (pop_u64 s) (\<lambda>(stack_lock_time, s).
     let tx_lock_time = lock_time (ptx tx) in
     if \<not> (tx_lock_time < LOCK_TIME_THRESHOLD \<and> stack_lock_time < LOCK_TIME_THRESHOLD \<or>
          LOCK_TIME_THRESHOLD \<le> tx_lock_time \<and> LOCK_TIME_THRESHOLD \<le> stack_lock_time)
     then Inl (Err UnsatisfiedLockTime)
     else if tx_lock_time < stack_lock_time then Inl (Err UnsatisfiedLockTime)
     else if sequence input = MAX_TX_IN_SEQUENCE_NUM then Inl (Err UnsatisfiedLockTime)
     else Inr s))"

definition OpCheckSequenceVerify :: "ScriptEnv \<Rightarrow> stack_op" where
  "OpCheckSequenceVerify env = on_tx env (\<lambda>tx input idx s.
     bindR (pop_u64 s) (\<lambda>(stack_sequence, s).
     if stack_sequence AND SEQUENCE_LOCK_TIME_DISABLED \<noteq> 0 then Inr s
     else if sequence input AND SEQUENCE_LOCK_TIME_DISABLED \<noteq> 0 then Inl (Err UnsatisfiedLockTime)
     else if sequence input AND SEQUENCE_LOCK_TIME_MASK < stack_sequence AND SEQUENCE_LOCK_TIME_MASK
     then Inl (Err UnsatisfiedLockTime)
     else Inr s))"

section \<open>Introspection\<close>

definition SpkEncoding_to_bytes :: "ScriptPublicKey \<Rightarrow> bytes" where
  "SpkEncoding_to_bytes spk = rev (u16_to_le_bytes (spk_version spk)) @ spk_script spk"

text \<open>\<^verbatim>\<open>let [idx]: [i32; 1] = vm.dstack.pop_items()?; let idx = i32_to_usize(idx)?\<close>\<close>

definition pop_index :: "Stack \<Rightarrow> (nat \<times> Stack) script_result" where
  "pop_index s =
     bindR (pop_items deserialize_entry_i32 1 s) (\<lambda>(xs, s).
     bindR (i32_to_usize (xs ! 0)) (\<lambda>i. Inr (i, s)))"

text \<open>\<^verbatim>\<open>i32s_to_usizes(vm.dstack.pop_items()?)?\<close>\<close>

definition pop_indices :: "nat \<Rightarrow> Stack \<Rightarrow> (nat list \<times> Stack) script_result" where
  "pop_indices n s =
     bindR (pop_items deserialize_entry_i32 n s) (\<lambda>(xs, s).
     bindR (i32s_to_usizes xs) (\<lambda>is. Inr (is, s)))"

definition get_or :: "'a list \<Rightarrow> nat \<Rightarrow> TxScriptError \<Rightarrow> 'a script_result" where
  "get_or xs i e = (if i < length xs then Inr (xs ! i) else Inl (Err e))"

abbreviation bad_input :: "PopulatedTransaction \<Rightarrow> int \<Rightarrow> TxScriptError" where
  "bad_input tx i \<equiv> InvalidInputIndex i (length (inputs (ptx tx)))"

abbreviation bad_output :: "PopulatedTransaction \<Rightarrow> int \<Rightarrow> TxScriptError" where
  "bad_output tx i \<equiv> InvalidOutputIndex i (length (outputs (ptx tx)))"

text \<open>The four accessors of inputs, entries and outputs by the index on the stack.  The last two
  are the ones that report a negative index as out of bounds instead of as no index.\<close>

definition with_input :: "PopulatedTransaction \<Rightarrow> (TransactionInput \<Rightarrow> stack_op) \<Rightarrow> stack_op" where
  "with_input tx f s =
     bindR (pop_index s) (\<lambda>(i, s). bindR (get_or (inputs (ptx tx)) i (bad_input tx (int i))) (\<lambda>x. f x s))"

definition with_utxo :: "PopulatedTransaction \<Rightarrow> (UtxoEntry \<Rightarrow> stack_op) \<Rightarrow> stack_op" where
  "with_utxo tx f s =
     bindR (pop_index s) (\<lambda>(i, s). bindR (get_or (entries tx) i (bad_input tx (int i))) (\<lambda>x. f x s))"

definition with_output :: "PopulatedTransaction \<Rightarrow> (TransactionOutput \<Rightarrow> stack_op) \<Rightarrow> stack_op" where
  "with_output tx f s =
     bindR (pop_index s) (\<lambda>(i, s). bindR (get_or (outputs (ptx tx)) i (bad_output tx (int i))) (\<lambda>x. f x s))"

definition get_signed :: "'a list \<Rightarrow> int \<Rightarrow> TxScriptError \<Rightarrow> 'a script_result" where
  "get_signed xs i e = (if i < 0 then Inl (Err e) else get_or xs (nat i) e)"

definition with_utxo_signed :: "PopulatedTransaction \<Rightarrow> (UtxoEntry \<Rightarrow> stack_op) \<Rightarrow> stack_op" where
  "with_utxo_signed tx f s =
     bindR (pop_items deserialize_entry_i32 1 s) (\<lambda>(xs, s).
     bindR (get_signed (entries tx) (xs ! 0) (bad_input tx (xs ! 0))) (\<lambda>x. f x s))"

definition with_output_signed :: "PopulatedTransaction \<Rightarrow> (TransactionOutput \<Rightarrow> stack_op) \<Rightarrow> stack_op" where
  "with_output_signed tx f s =
     bindR (pop_items deserialize_entry_i32 1 s) (\<lambda>(xs, s).
     bindR (get_signed (outputs (ptx tx)) (xs ! 0) (bad_output tx (xs ! 0))) (\<lambda>x. f x s))"

text \<open>\<^verbatim>\<open>amount.try_into()\<close>: a 64-bit amount as an \<^verbatim>\<open>i64\<close>; \<^verbatim>\<open>as i64\<close> reinterprets the bits instead.\<close>

definition push_amount :: "u64 \<Rightarrow> stack_op" where
  "push_amount a s = (if i64_range (int (unat a)) then push_number (int (unat a)) s else Inl (Err NumberTooBig))"

definition push_u64_as_i64 :: "u64 \<Rightarrow> stack_op" where
  "push_u64_as_i64 a = push_number (sint a)"

definition push_substring :: "bytes \<Rightarrow> nat \<Rightarrow> nat \<Rightarrow> stack_op" where
  "push_substring data start stop s = bindR (substring data start stop) (\<lambda>substr. push_data substr s)"

definition OpTxVersion :: "ScriptEnv \<Rightarrow> stack_op" where
  "OpTxVersion env = on_tx env (\<lambda>tx input idx. push_number (int (unat (version (ptx tx)))))"
definition OpTxInputCount :: "ScriptEnv \<Rightarrow> stack_op" where
  "OpTxInputCount env = on_tx env (\<lambda>tx input idx. push_number (int (length (inputs (ptx tx)))))"
definition OpTxOutputCount :: "ScriptEnv \<Rightarrow> stack_op" where
  "OpTxOutputCount env = on_tx env (\<lambda>tx input idx. push_number (int (length (outputs (ptx tx)))))"
definition OpTxLockTime :: "ScriptEnv \<Rightarrow> stack_op" where
  "OpTxLockTime env = on_tx env (\<lambda>tx input idx. push_u64_as_i64 (lock_time (ptx tx)))"
definition OpTxSubnetId :: "ScriptEnv \<Rightarrow> stack_op" where
  "OpTxSubnetId env = on_tx env (\<lambda>tx input idx. push_data (subnetwork_id (ptx tx)))"
definition OpTxGas :: "ScriptEnv \<Rightarrow> stack_op" where
  "OpTxGas env = on_tx env (\<lambda>tx input idx. push_u64_as_i64 (gas (ptx tx)))"

definition OpTxPayloadSubstr :: "ScriptEnv \<Rightarrow> stack_op" where
  "OpTxPayloadSubstr env = on_tx env (\<lambda>tx input idx s.
     bindR (pop_indices 2 s) (\<lambda>(is, s). push_substring (payload (ptx tx)) (is ! 0) (is ! 1) s))"

definition OpTxInputIndex :: "ScriptEnv \<Rightarrow> stack_op" where
  "OpTxInputIndex env = on_tx env (\<lambda>tx input idx. push_number (int idx))"

definition OpOutpointTxId :: "ScriptEnv \<Rightarrow> stack_op" where
  "OpOutpointTxId env = on_tx env (\<lambda>tx input idx.
     with_input tx (\<lambda>i. push_data (transaction_id (previous_outpoint i))))"

definition OpOutpointIndex :: "ScriptEnv \<Rightarrow> stack_op" where
  "OpOutpointIndex env = on_tx env (\<lambda>tx input idx.
     with_input tx (\<lambda>i. push_number (int (unat (outpoint_index (previous_outpoint i))))))"

definition OpTxInputScriptSigSubstr :: "ScriptEnv \<Rightarrow> stack_op" where
  "OpTxInputScriptSigSubstr env = on_tx env (\<lambda>tx input idx s.
     bindR (pop_indices 3 s) (\<lambda>(is, s).
     bindR (get_or (inputs (ptx tx)) (is ! 0) (bad_input tx (int (is ! 0)))) (\<lambda>i.
     push_substring (signature_script i) (is ! 1) (is ! 2) s)))"

definition OpTxInputSeq :: "ScriptEnv \<Rightarrow> stack_op" where
  "OpTxInputSeq env = on_tx env (\<lambda>tx input idx. with_input tx (\<lambda>i. push_data (u64_to_le_bytes (sequence i))))"

definition OpTxInputAmount :: "ScriptEnv \<Rightarrow> stack_op" where
  "OpTxInputAmount env = on_tx env (\<lambda>tx input idx. with_utxo_signed tx (\<lambda>e. push_amount (amount e)))"

definition OpTxInputSpk :: "ScriptEnv \<Rightarrow> stack_op" where
  "OpTxInputSpk env = on_tx env (\<lambda>tx input idx.
     with_utxo_signed tx (\<lambda>e. stack_push (SpkEncoding_to_bytes (entry_spk e))))"

definition OpTxInputDaaScore :: "ScriptEnv \<Rightarrow> stack_op" where
  "OpTxInputDaaScore env = on_tx env (\<lambda>tx input idx. with_utxo tx (\<lambda>e. push_u64_as_i64 (block_daa_score e)))"

definition OpTxInputIsCoinbase :: "ScriptEnv \<Rightarrow> stack_op" where
  "OpTxInputIsCoinbase env = on_tx env (\<lambda>tx input idx.
     with_utxo tx (\<lambda>e. push_number (bool_number (entry_is_coinbase e))))"

definition OpTxOutputAmount :: "ScriptEnv \<Rightarrow> stack_op" where
  "OpTxOutputAmount env = on_tx env (\<lambda>tx input idx. with_output_signed tx (\<lambda>out. push_amount (out_value out)))"

definition OpTxOutputSpk :: "ScriptEnv \<Rightarrow> stack_op" where
  "OpTxOutputSpk env = on_tx env (\<lambda>tx input idx.
     with_output_signed tx (\<lambda>out. stack_push (SpkEncoding_to_bytes (out_spk out))))"

definition OpTxPayloadLen :: "ScriptEnv \<Rightarrow> stack_op" where
  "OpTxPayloadLen env = on_tx env (\<lambda>tx input idx. push_number (int (length (payload (ptx tx)))))"

definition OpTxInputSpkLen :: "ScriptEnv \<Rightarrow> stack_op" where
  "OpTxInputSpkLen env = on_tx env (\<lambda>tx input idx.
     with_utxo tx (\<lambda>e. push_number (int (length (SpkEncoding_to_bytes (entry_spk e))))))"

definition OpTxInputSpkSubstr :: "ScriptEnv \<Rightarrow> stack_op" where
  "OpTxInputSpkSubstr env = on_tx env (\<lambda>tx input idx s.
     bindR (pop_indices 3 s) (\<lambda>(is, s).
     bindR (get_or (entries tx) (is ! 0) (bad_input tx (int (is ! 0)))) (\<lambda>e.
     push_substring (SpkEncoding_to_bytes (entry_spk e)) (is ! 1) (is ! 2) s)))"

definition OpTxOutputSpkLen :: "ScriptEnv \<Rightarrow> stack_op" where
  "OpTxOutputSpkLen env = on_tx env (\<lambda>tx input idx.
     with_output tx (\<lambda>out. push_number (int (length (SpkEncoding_to_bytes (out_spk out))))))"

definition OpTxOutputSpkSubstr :: "ScriptEnv \<Rightarrow> stack_op" where
  "OpTxOutputSpkSubstr env = on_tx env (\<lambda>tx input idx s.
     bindR (pop_indices 3 s) (\<lambda>(is, s).
     bindR (get_or (outputs (ptx tx)) (is ! 0) (bad_output tx (int (is ! 0)))) (\<lambda>out.
     push_substring (SpkEncoding_to_bytes (out_spk out)) (is ! 1) (is ! 2) s)))"

definition OpTxInputScriptSigLen :: "ScriptEnv \<Rightarrow> stack_op" where
  "OpTxInputScriptSigLen env = on_tx env (\<lambda>tx input idx.
     with_input tx (\<lambda>i. push_number (int (length (signature_script i)))))"

section \<open>Covenants and number conversion\<close>

abbreviation lift_covenants :: "(CovenantsError + 'a) \<Rightarrow> 'a script_result" where
  "lift_covenants r \<equiv> map_err Err (map_err ScriptCovenantsError r)"

definition OpAuthOutputCount :: "ScriptEnv \<Rightarrow> stack_op" where
  "OpAuthOutputCount env = on_tx env (\<lambda>tx input idx s.
     bindR (pop_index s) (\<lambda>(i, s).
     if length (inputs (ptx tx)) \<le> i then Inl (Err (bad_input tx (int i)))
     else push_number (int (num_auth_outputs (covenants_ctx env) i)) s))"

definition OpAuthOutputIdx :: "ScriptEnv \<Rightarrow> stack_op" where
  "OpAuthOutputIdx env = on_tx env (\<lambda>tx input idx s.
     bindR (pop_indices 2 s) (\<lambda>(is, s).
     if length (inputs (ptx tx)) \<le> is ! 0 then Inl (Err (bad_input tx (int (is ! 0))))
     else
       bindR (lift_covenants (auth_output_index (covenants_ctx env) (is ! 0) (is ! 1))) (\<lambda>output_idx.
       push_number (int output_idx) s)))"

definition OpNum2Bin :: stack_op where
  "OpNum2Bin s =
     bindR (pop_index s) (\<lambda>(len, s).
     if 8 < len then Inl (Err NotMinimalData)
     else
       bindR (pop_items deserialize_entry_i64 1 s) (\<lambda>(xs, s).
       bindR (map_err (map_fail Serialization) (serialize_i64 (xs ! 0) (Some len))) (\<lambda>r. stack_push r s)))"

definition OpBin2Num :: stack_op where
  "OpBin2Num s = bindR (pop_items deserialize_entry_i64 1 s) (\<lambda>(xs, s). push_number (xs ! 0) s)"

definition OpInputCovenantId :: "ScriptEnv \<Rightarrow> stack_op" where
  "OpInputCovenantId env = on_tx env (\<lambda>tx input idx.
     with_utxo tx (\<lambda>e. push_data (case covenant_id e of Some c \<Rightarrow> c | None \<Rightarrow> ZERO_HASH)))"

definition pop_hash :: "Stack \<Rightarrow> (hash \<times> Stack) script_result" where
  "pop_hash s = bindR (pop_items deserialize_hash 1 s) (\<lambda>(xs, s). Inr (xs ! 0, s))"

definition OpCovInputCount :: "ScriptEnv \<Rightarrow> stack_op" where
  "OpCovInputCount env = on_tx env (\<lambda>tx input idx s.
     bindR (pop_hash s) (\<lambda>(cid, s). push_number (int (num_covenant_inputs (covenants_ctx env) cid)) s))"

definition OpCovInputIdx :: "ScriptEnv \<Rightarrow> stack_op" where
  "OpCovInputIdx env = on_tx env (\<lambda>tx input idx s.
     bindR (pop_index s) (\<lambda>(k, s).
     bindR (pop_hash s) (\<lambda>(cid, s).
     bindR (lift_covenants (covenant_input_index (covenants_ctx env) cid k)) (\<lambda>i. push_number (int i) s))))"

definition OpCovOutputCount :: "ScriptEnv \<Rightarrow> stack_op" where
  "OpCovOutputCount env = on_tx env (\<lambda>tx input idx s.
     bindR (pop_hash s) (\<lambda>(cid, s). push_number (int (num_covenant_outputs (covenants_ctx env) cid)) s))"

definition OpCovOutputIdx :: "ScriptEnv \<Rightarrow> stack_op" where
  "OpCovOutputIdx env = on_tx env (\<lambda>tx input idx s.
     bindR (pop_index s) (\<lambda>(k, s).
     bindR (pop_hash s) (\<lambda>(cid, s).
     bindR (lift_covenants (covenant_output_index (covenants_ctx env) cid k)) (\<lambda>i. push_number (int i) s))))"

definition OpChainblockSeqCommit :: "ScriptEnv \<Rightarrow> OpCode \<Rightarrow> stack_op" where
  "OpChainblockSeqCommit env op s =
     (case seq_commit_accessor env of
        None \<Rightarrow> Inl (Err (InvalidOpcode op))
      | Some acc \<Rightarrow>
          bindR (pop_hash s) (\<lambda>(block, s).
          case is_chain_ancestor_from_pov acc block of
            None \<Rightarrow> Inl (Err (BlockAlreadyPruned block))
          | Some False \<Rightarrow> Inl (Err (BlockNotSelected block))
          | Some True \<Rightarrow>
              bindR (ok_or (Err (BlockIsTooDeep block)) (seq_commitment_within_depth acc block)) (\<lambda>commitment.
              push_item (Inr commitment) s)))"

definition OpOutputCovenantId :: "ScriptEnv \<Rightarrow> stack_op" where
  "OpOutputCovenantId env = on_tx env (\<lambda>tx input idx.
     with_output tx (\<lambda>out. push_data (case covenant out of Some c \<Rightarrow> binding_covenant_id c | None \<Rightarrow> ZERO_HASH)))"

definition OpOutputAuthorizingInput :: "ScriptEnv \<Rightarrow> stack_op" where
  "OpOutputAuthorizingInput env = on_tx env (\<lambda>tx input idx.
     with_output tx (\<lambda>out.
       push_number (case covenant out of Some c \<Rightarrow> int (unat (authorizing_input c)) | None \<Rightarrow> - 1)))"

section \<open>The opcode table\<close>

definition introspection_op :: "ScriptEnv \<Rightarrow> OpCode \<Rightarrow> stack_op" where
  "introspection_op env op =
     (let v = op_value op in
      if v = 0xb0 then OpCheckLockTimeVerify env
      else if v = 0xb1 then OpCheckSequenceVerify env
      else if v = 0xb2 then OpTxVersion env
      else if v = 0xb3 then OpTxInputCount env
      else if v = 0xb4 then OpTxOutputCount env
      else if v = 0xb5 then OpTxLockTime env
      else if v = 0xb6 then OpTxSubnetId env
      else if v = 0xb7 then OpTxGas env
      else if v = 0xb8 then OpTxPayloadSubstr env
      else if v = 0xb9 then OpTxInputIndex env
      else if v = 0xba then OpOutpointTxId env
      else if v = 0xbb then OpOutpointIndex env
      else if v = 0xbc then OpTxInputScriptSigSubstr env
      else if v = 0xbd then OpTxInputSeq env
      else if v = 0xbe then OpTxInputAmount env
      else if v = 0xbf then OpTxInputSpk env
      else if v = 0xc0 then OpTxInputDaaScore env
      else if v = 0xc1 then OpTxInputIsCoinbase env
      else if v = 0xc2 then OpTxOutputAmount env
      else if v = 0xc3 then OpTxOutputSpk env
      else if v = 0xc4 then OpTxPayloadLen env
      else if v = 0xc5 then OpTxInputSpkLen env
      else if v = 0xc6 then OpTxInputSpkSubstr env
      else if v = 0xc7 then OpTxOutputSpkLen env
      else if v = 0xc8 then OpTxOutputSpkSubstr env
      else if v = 0xc9 then OpTxInputScriptSigLen env
      else (\<lambda>s. Inl (Err (InvalidOpcode op))))"

definition covenant_op :: "ScriptEnv \<Rightarrow> OpCode \<Rightarrow> stack_op" where
  "covenant_op env op =
     (let v = op_value op in
      if v = 0xcb then OpAuthOutputCount env
      else if v = 0xcc then OpAuthOutputIdx env
      else if v = 0xcd then OpNum2Bin
      else if v = 0xce then OpBin2Num
      else if v = 0xcf then OpInputCovenantId env
      else if v = 0xd0 then OpCovInputCount env
      else if v = 0xd1 then OpCovInputIdx env
      else if v = 0xd2 then OpCovOutputCount env
      else if v = 0xd3 then OpCovOutputIdx env
      else if v = 0xd4 then OpChainblockSeqCommit env op
      else if v = 0xd5 then OpOutputCovenantId env
      else OpOutputAuthorizingInput env)"

text \<open>\<^verbatim>\<open>execute\<close> of the opcode, by the ranges of the table; \<open>0xca\<close> and everything above \<open>0xda\<close> is invalid.\<close>

definition opcode_execute :: "ScriptEnv \<Rightarrow> OpCode \<Rightarrow> vm_op" where
  "opcode_execute env op =
     (let v = op_value op in
      if v \<le> 0x60 then on_dstack (push_op op)
      else if v \<le> 0x6a then control_op op
      else if v \<le> 0x7d then stack_opcode v
      else if v \<le> 0x8a then on_dstack (splice_op op)
      else if v \<le> 0xa5 then on_dstack (numeric_op op)
      else if v \<le> 0xaf then crypto_op env v
      else if v \<le> 0xca then on_dstack (introspection_op env op)
      else if v \<le> 0xd6 then on_dstack (covenant_op env op)
      else if v \<le> 0xda then crypto_op env v
      else (\<lambda>vm. Inl (Err (InvalidOpcode op))))"

section \<open>Opcodes keep the stack well-formed\<close>

text \<open>\<open>keeps f\<close>: the operation does not panic on a well-formed stack and meters the bytes of at most
  four entries.  \<open>pops p\<close>: the operation takes something off the stack and meters nothing.\<close>

definition keeps :: "stack_op \<Rightarrow> bool" where
  "keeps f \<longleftrightarrow> (\<forall>k s. k < 100 \<longrightarrow> stack_ok k s \<longrightarrow> holds (stack_ok (k + 4)) (f s))"

definition pops :: "(Stack \<Rightarrow> ('a \<times> Stack) script_result) \<Rightarrow> bool" where
  "pops p \<longleftrightarrow> (\<forall>k s. stack_ok k s \<longrightarrow> holds (\<lambda>(x, s'). stack_ok k s') (p s))"

definition safe :: "'a script_result \<Rightarrow> bool" where
  "safe r \<longleftrightarrow> r \<noteq> Inl Panic"

named_theorems keeps_intros \<open>operations that keep the stack well-formed\<close>

lemma keepsI: "(\<And>k s. k < 100 \<Longrightarrow> stack_ok k s \<Longrightarrow> holds (stack_ok (k + 4)) (f s)) \<Longrightarrow> keeps f"
  by (simp add: keeps_def)

lemma popsI: "(\<And>k s. stack_ok k s \<Longrightarrow> holds (\<lambda>(x, s'). stack_ok k s') (p s)) \<Longrightarrow> pops p"
  by (simp add: pops_def)

lemma safe_holds: "safe r \<Longrightarrow> (\<And>x. r = Inr x \<Longrightarrow> P x) \<Longrightarrow> holds P r"
  by (simp add: safe_def holds_def)

lemma safe_intros [keeps_intros]:
  "safe (Inr x)" "safe (Inl (Err e))"
  "safe (map_err Err r)" "safe (map_err Err r')"
  "safe (ok_or (Err e) opt)" "safe (get_or xs i e)" "safe (get_signed xs j e)"
  "safe (i32_to_usize j)" "safe (i32s_to_usizes js)" "safe (substring bs a b)" "safe (i64_checked_value j e)"
  by (auto simp: safe_def map_err_eq ok_or_eq get_or_def get_signed_def i32_to_usize_def substring_def
      i64_checked_value_def i32s_to_usizes_def)
  (induction js; auto simp: i32_to_usize_def bindR_eq_Inl split: if_splits)+

lemma safe_if [keeps_intros]: "(c \<Longrightarrow> safe a) \<Longrightarrow> (\<not> c \<Longrightarrow> safe b) \<Longrightarrow> safe (if c then a else b)"
  by simp

lemma keeps_simple [keeps_intros]: "keeps Inr" "keeps (\<lambda>s. Inr s)" "keeps (\<lambda>s. Inl (Err (e s)))"
  by (auto simp: keeps_def intro: stack_ok_mono)

lemma keeps_if [keeps_intros]: "keeps f \<Longrightarrow> keeps g \<Longrightarrow> keeps (\<lambda>s. if c s then f s else g s)"
  by (simp add: keeps_def)

lemma keeps_if_fun [keeps_intros]: "keeps f \<Longrightarrow> keeps g \<Longrightarrow> keeps (if c then f else g)"
  by simp

lemma keeps_pop [keeps_intros]:
  "pops p \<Longrightarrow> (\<And>x. keeps (g x)) \<Longrightarrow> keeps (\<lambda>s. bindR (p s) (\<lambda>(x, s). g x s))"
  unfolding keeps_def pops_def by (fastforce elim: holds_mono)

lemma keeps_value [keeps_intros]:
  "safe r \<Longrightarrow> (\<And>x. keeps (g x)) \<Longrightarrow> keeps (\<lambda>s. bindR r (\<lambda>x. g x s))"
  unfolding keeps_def by (auto intro!: safe_holds)

lemma pops_pop [keeps_intros]:
  "pops p \<Longrightarrow> (\<And>x. pops (g x)) \<Longrightarrow> pops (\<lambda>s. bindR (p s) (\<lambda>(x, s). g x s))"
  unfolding pops_def by (fastforce elim: holds_mono)

lemma pops_value [keeps_intros]:
  "safe r \<Longrightarrow> (\<And>x. pops (g x)) \<Longrightarrow> pops (\<lambda>s. bindR r (\<lambda>x. g x s))"
  unfolding pops_def by (auto intro!: safe_holds)

lemma pops_if [keeps_intros]: "pops f \<Longrightarrow> pops g \<Longrightarrow> pops (\<lambda>s. if c s then f s else g s)"
  by (simp add: pops_def)

lemma pops_simple [keeps_intros]: "pops (\<lambda>s. Inr (x, s))" "pops (\<lambda>s. Inl (Err (e s)))"
  by (auto simp: pops_def)

lemma pops_prims [keeps_intros]:
  "pops (pop_items deser n)" "pops (pop_raw n)" "pops stack_pop" "pops (take_items n)"
  using split_top_ok
  by (auto simp: pops_def take_items_def case_prod_beta intro!: stack_rules)

lemma pops_derived [keeps_intros]:
  "pops pop_bool" "pops pop_index" "pops (pop_indices n)" "pops pop_hash" "pops pop_u64"
  unfolding pop_bool_def [abs_def] pop_index_def [abs_def] pop_indices_def [abs_def] pop_hash_def [abs_def]
    pop_u64_def [abs_def] Let_def
  by (intro keeps_intros)+

lemma serialize_entry_length: "holds (\<lambda>v. length v \<le> MAX_SCRIPT_ELEMENT_SIZE) (serialize_entry_i64 n)"
proof -
  have "length (number_bytes False (nat \<bar>n\<bar>)) \<le> 8" if "\<bar>n\<bar> < 2 ^ 63"
    using that number_bytes_length [of 8 "nat \<bar>n\<bar>"] by simp
  then show ?thesis
    by (auto simp: serialize_entry_i64_eq Let_def negate_bytes_def MAX_SCRIPT_ELEMENT_SIZE_def)
qed

lemma keeps_push [keeps_intros]:
  "keeps (stack_push e)" "keeps (push_unmetered e)" "keeps (push_data e)" "keeps (push_literal_data e)"
  "keeps (push_number n)" "keeps (push_literal_number n)" "keeps (push_bool b)"
  "length v \<le> MAX_SCRIPT_ELEMENT_SIZE \<Longrightarrow> keeps (push_item (Inr v))"
  unfolding keeps_def push_data_def push_literal_data_def push_number_def push_literal_number_def push_bool_def
  using serialize_entry_length
  by (auto intro!: stack_rules elim: stack_ok_mono simp: serialize_bool_def MAX_SCRIPT_ELEMENT_SIZE_def)

lemma keeps_push_derived [keeps_intros]:
  "keeps (push_amount a)" "keeps (push_u64_as_i64 a)" "keeps (push_substring bs i j)"
  unfolding push_amount_def [abs_def] push_u64_as_i64_def push_substring_def [abs_def]
  by (intro keeps_intros)+

lemma keeps_moves [keeps_intros]:
  "keeps (drop_items n)" "n \<le> 4 \<Longrightarrow> keeps (dup_items n)" "n \<le> 4 \<Longrightarrow> keeps (over_items n)" "keeps (rot_items n)"
  "keeps (swap_items n)" "keeps (stack_roll n)"
  unfolding keeps_def by (auto intro!: stack_rules elim: stack_ok_mono)

lemma keeps_on_tx [keeps_intros]: "(\<And>tx input idx. keeps (f tx input idx)) \<Longrightarrow> keeps (on_tx env f)"
  by (simp add: keeps_def on_tx_def split: ScriptSource.splits)

lemma keeps_with [keeps_intros]:
  "(\<And>x. keeps (f x)) \<Longrightarrow> keeps (with_input tx f)"
  "(\<And>x. keeps (g x)) \<Longrightarrow> keeps (with_utxo tx g)"
  "(\<And>x. keeps (h x)) \<Longrightarrow> keeps (with_output tx h)"
  "(\<And>x. keeps (g x)) \<Longrightarrow> keeps (with_utxo_signed tx g)"
  "(\<And>x. keeps (h x)) \<Longrightarrow> keeps (with_output_signed tx h)"
  unfolding with_input_def [abs_def] with_utxo_def [abs_def] with_output_def [abs_def]
    with_utxo_signed_def [abs_def] with_output_signed_def [abs_def]
  by (intro keeps_intros; assumption)+

lemma keeps_arith [keeps_intros]:
  "(\<And>a. safe (f a)) \<Longrightarrow> keeps (unary_num f)" "(\<And>a b. safe (g a b)) \<Longrightarrow> keeps (binary_num g)"
  unfolding unary_num_def [abs_def] binary_num_def [abs_def] by (intro keeps_intros; blast)+

lemma keeps_push_op: "keeps (push_op op)"
  unfolding push_op_def [abs_def] Let_def by (intro keeps_intros)

lemma keeps_OpVerify [keeps_intros]: "keeps OpVerify"
  unfolding OpVerify_def [abs_def] by (intro keeps_intros)

lemma keeps_stack_ops [keeps_intros]: "keeps OpIfDup" "keeps OpDepth" "keeps OpNip" "keeps OpPick" "keeps OpRoll" "keeps OpTuck"
proof -
  show "keeps OpIfDup" "keeps OpDepth" "keeps OpNip" "keeps OpTuck"
    unfolding keeps_def OpIfDup_def OpDepth_def OpNip_def OpTuck_def push_number_def
    using serialize_entry_length
    by (auto intro!: stack_rules intro: stack_ok_mono simp: case_prod_beta)
  show "keeps OpPick" "keeps OpRoll"
    unfolding OpPick_def [abs_def] OpRoll_def [abs_def] Let_def
    by (intro keeps_intros; simp add: keeps_def; auto intro!: stack_rules intro: stack_ok_mono)+
qed

lemma keeps_splice [keeps_intros]:
  "keeps OpCat" "keeps OpSubstr" "keeps OpInvert" "keeps (bytewise f)"
  unfolding OpCat_def [abs_def] OpSubstr_def [abs_def] OpInvert_def [abs_def] bytewise_def [abs_def]
  by (intro keeps_intros)+

lemma equal_ops_pop:
  "OpEqual = (\<lambda>s. bindR (pop_raw 2 s) (\<lambda>(pair, s). if pair ! 0 = pair ! 1 then stack_push [1] s else stack_push [] s))"
  "OpEqualVerify = (\<lambda>s. bindR (pop_raw 2 s) (\<lambda>(pair, s). if pair ! 0 = pair ! 1 then Inr s else Inl (Err VerifyError)))"
  by (auto simp: fun_eq_iff OpEqual_def OpEqualVerify_def pop_raw_def case_prod_beta Let_def)

lemma keeps_equal [keeps_intros]: "keeps OpEqual" "keeps OpEqualVerify"
  unfolding equal_ops_pop by (intro keeps_intros)+

lemma keeps_OpSize [keeps_intros]: "keeps OpSize"
  unfolding keeps_def OpSize_def push_number_def Let_def
  using serialize_entry_length by (auto intro!: stack_rules intro: stack_ok_mono)

lemma keeps_splice_op: "keeps (splice_op op)"
  unfolding splice_op_def [abs_def] Let_def OpAnd_def OpOr_def OpXor_def by (intro keeps_intros)

lemma keeps_numeric_op: "keeps (numeric_op op)"
proof -
  have "keeps OpNumEqualVerify" "keeps OpWithin"
    unfolding OpNumEqualVerify_def [abs_def] OpWithin_def [abs_def] by (intro keeps_intros)+
  then show ?thesis
    unfolding numeric_op_def [abs_def] Let_def Op1Add_def Op1Sub_def OpNegate_def OpAbs_def OpNot_def
      Op0NotEqual_def OpAdd_def OpSub_def OpMul_def OpDiv_def OpMod_def OpBoolAnd_def OpBoolOr_def
      OpNumEqual_def OpNumNotEqual_def OpLessThan_def OpGreaterThan_def OpLessThanOrEqual_def
      OpGreaterThanOrEqual_def OpMin_def OpMax_def
    by (intro keeps_intros)
qed

lemma keeps_introspection_op: "keeps (introspection_op env op)"
  unfolding introspection_op_def Let_def OpCheckLockTimeVerify_def OpCheckSequenceVerify_def OpTxVersion_def
    OpTxInputCount_def OpTxOutputCount_def OpTxLockTime_def OpTxSubnetId_def OpTxGas_def OpTxPayloadSubstr_def
    OpTxInputIndex_def OpOutpointTxId_def OpOutpointIndex_def OpTxInputScriptSigSubstr_def OpTxInputSeq_def
    OpTxInputAmount_def OpTxInputSpk_def OpTxInputDaaScore_def OpTxInputIsCoinbase_def OpTxOutputAmount_def
    OpTxOutputSpk_def OpTxPayloadLen_def OpTxInputSpkLen_def OpTxInputSpkSubstr_def OpTxOutputSpkLen_def
    OpTxOutputSpkSubstr_def OpTxInputScriptSigLen_def
  by (intro keeps_intros)

text \<open>What the engine relies on in the accessor of sequencing commitments: it returns hashes.\<close>

definition commitments_ok :: "ScriptEnv \<Rightarrow> bool" where
  "commitments_ok env \<longleftrightarrow> (\<forall>acc b c. seq_commit_accessor env = Some acc \<longrightarrow>
     seq_commitment_within_depth acc b = Some c \<longrightarrow> length c = 32)"

lemma keeps_seq_commit: "commitments_ok env \<Longrightarrow> keeps (OpChainblockSeqCommit env op)"
proof (cases "seq_commit_accessor env")
  case (Some acc)
  assume ok: "commitments_ok env"
  have "keeps (\<lambda>s. bindR (ok_or (Err e) (seq_commitment_within_depth acc b)) (\<lambda>c. push_item (Inr c) s))" for b e
  proof (cases "seq_commitment_within_depth acc b")
    case (Some c)
    then show ?thesis using ok \<open>seq_commit_accessor env = Some acc\<close>
      by (auto intro!: keeps_push simp: commitments_ok_def MAX_SCRIPT_ELEMENT_SIZE_def)
  qed (simp add: keeps_intros)
  then have *: "keeps (\<lambda>s. case is_chain_ancestor_from_pov acc b of
      None \<Rightarrow> Inl (Err (BlockAlreadyPruned b))
    | Some False \<Rightarrow> Inl (Err (BlockNotSelected b))
    | Some True \<Rightarrow> bindR (ok_or (Err (BlockIsTooDeep b)) (seq_commitment_within_depth acc b)) (\<lambda>c. push_item (Inr c) s))" for b
    by (cases "is_chain_ancestor_from_pov acc b = Some True"; cases "is_chain_ancestor_from_pov acc b = None")
      (auto simp: keeps_intros)
  show ?thesis
    unfolding OpChainblockSeqCommit_def [abs_def] Some option.case by (intro keeps_intros *)
qed (simp add: OpChainblockSeqCommit_def [abs_def] keeps_intros)

lemma safe_serialize [keeps_intros]: "safe (map_err (map_fail Serialization) (serialize_i64 n len))"
  by (auto simp: safe_def serialize_i64_cases Let_def split: option.splits)

lemma keeps_covenant_op:
  assumes "commitments_ok env"
  shows "keeps (covenant_op env op)"
  unfolding covenant_op_def Let_def OpAuthOutputCount_def OpAuthOutputIdx_def OpNum2Bin_def [abs_def]
    OpBin2Num_def [abs_def] OpInputCovenantId_def OpCovInputCount_def OpCovInputIdx_def OpCovOutputCount_def
    OpCovOutputIdx_def OpOutputCovenantId_def OpOutputAuthorizingInput_def
  by (intro keeps_intros keeps_seq_commit assms)

section \<open>Opcodes keep the engine well-formed\<close>

definition meter_ok :: "RuntimeResourceMeter \<Rightarrow> bool" where
  "meter_ok m \<longleftrightarrow> remaining_script_units m \<le> script_units_limit m"

text \<open>The engine between two opcodes (\<open>k = 0\<close>) and right after one.\<close>

definition vm_ok :: "nat \<Rightarrow> ScriptVm \<Rightarrow> bool" where
  "vm_ok k vm \<longleftrightarrow> stack_ok k (dstack vm) \<and> stack_ok 0 (astack vm) \<and>
     0 \<le> num_ops vm \<and> num_ops vm \<le> MAX_OPS_PER_SCRIPT \<and> meter_ok (runtime_resource_meter vm)"

definition vm_keeps :: "vm_op \<Rightarrow> bool" where
  "vm_keeps f \<longleftrightarrow> (\<forall>k vm. k < 50 \<longrightarrow> vm_ok k vm \<longrightarrow> holds (vm_ok (k + 4)) (f vm))"

text \<open>What the engine relies on in the proof verifiers: they take their arguments off the stack,
  push nothing and may only spend script units.\<close>

definition verifier_pops :: "'a ScriptCrypto_scheme \<Rightarrow> bool" where
  "verifier_pops c \<longleftrightarrow> (\<forall>tag s m. verify_zk c tag s m \<noteq> Inl Panic \<and>
     (\<forall>s' m'. verify_zk c tag s m = Inr (s', m') \<longrightarrow>
        (\<exists>n. s' = s\<lparr>inner := take n (inner s)\<rparr>) \<and>
        (\<exists>r. r \<le> remaining_script_units m \<and> m' = m\<lparr>remaining_script_units := r\<rparr>)))"

lemma stack_ok_add: "stack_ok k s \<Longrightarrow> stack_ok (k + 4) s"
  by (erule stack_ok_mono) simp

lemma vm_okD: "vm_ok k vm \<Longrightarrow> stack_ok k (dstack vm)" "vm_ok k vm \<Longrightarrow> stack_ok 0 (astack vm)"
  "vm_ok k vm \<Longrightarrow> meter_ok (runtime_resource_meter vm)"
  by (simp_all add: vm_ok_def)

lemma vm_ok_mono: "vm_ok k vm \<Longrightarrow> k \<le> k' \<Longrightarrow> vm_ok k' vm"
  by (auto simp: vm_ok_def elim: stack_ok_mono)

lemma vm_ok_update [simp]:
  "vm_ok k vm \<Longrightarrow> vm_ok k' (vm\<lparr>dstack := s\<rparr>) \<longleftrightarrow> stack_ok k' s"
  "vm_ok k vm \<Longrightarrow> vm_ok k' (vm\<lparr>dstack := s, runtime_resource_meter := m\<rparr>) \<longleftrightarrow> stack_ok k' s \<and> meter_ok m"
  "vm_ok k vm \<Longrightarrow> vm_ok k' (vm\<lparr>dstack := s, cond_stack := c\<rparr>) \<longleftrightarrow> stack_ok k' s"
  "vm_ok k vm \<Longrightarrow> vm_ok k' (vm\<lparr>runtime_resource_meter := m, dstack := s\<rparr>) \<longleftrightarrow> stack_ok k' s \<and> meter_ok m"
  "vm_ok k' (vm\<lparr>cond_stack := c\<rparr>) \<longleftrightarrow> vm_ok k' vm"
  by (auto simp: vm_ok_def)

lemma consume_ok:
  assumes "meter_ok m" and "\<And>m'. meter_ok m' \<Longrightarrow> Q m'"
  shows "holds Q (consume_script_units u m)"
proof (cases "u \<le> remaining_script_units m")
  case True
  have "meter_ok (m\<lparr>remaining_script_units := remaining_script_units m - u\<rparr>)"
    using assms(1) order_trans [OF word_sub_le [OF True]] by (simp add: meter_ok_def)
  then show ?thesis using True assms(2) by (simp add: consume_script_units_def checked_sub_def)
next
  case False
  then have "psub u (remaining_script_units m) = (Inr (u - remaining_script_units m) :: u64 script_result)"
    by (simp add: psub_eq not_le order_less_imp_le)
  then show ?thesis using False by (simp add: consume_script_units_def checked_sub_def)
qed

lemma consume_sig_op_ok:
  assumes "meter_ok m" and "\<And>m'. meter_ok m' \<Longrightarrow> Q m'"
  shows "holds Q (consume_sig_op_cost n m)"
  unfolding consume_sig_op_cost_def holds_bindR
  by (rule consume_ok [OF assms(1)]) (auto intro: assms(2) simp: meter_ok_def)

text \<open>A signature check never panics and leaves the meter well-formed.\<close>

definition check_ok :: "(RuntimeResourceMeter \<Rightarrow> (bool \<times> RuntimeResourceMeter) script_result) \<Rightarrow> bool" where
  "check_ok check \<longleftrightarrow> (\<forall>m. meter_ok m \<longrightarrow> holds (\<lambda>(_, m'). meter_ok m') (check m))"

lemma checks_ok:
  "check_ok (check_schnorr_signature_with_msg_hash env key sig h)"
  "check_ok (check_ecdsa_signature_with_msg_hash env key sig h)"
  "check_ok (check_schnorr_signature env t key sig)"
  "check_ok (check_ecdsa_signature env t key sig)"
  unfolding check_ok_def check_schnorr_signature_with_msg_hash_def check_ecdsa_signature_with_msg_hash_def
    check_schnorr_signature_def check_ecdsa_signature_def check_pub_key_encoding_ecdsa_def
  by (auto intro!: consume_sig_op_ok split: ScriptSource.splits)

lemma vm_keeps_on_dstack: "keeps f \<Longrightarrow> vm_keeps (on_dstack f)"
  unfolding vm_keeps_def keeps_def on_dstack_def by (fastforce dest: vm_okD elim!: holds_mono)

lemma keeps_wp:
  "keeps f \<Longrightarrow> stack_ok k s \<Longrightarrow> k < 100 \<Longrightarrow> (\<And>s'. stack_ok (k + 4) s' \<Longrightarrow> Q s') \<Longrightarrow> holds Q (f s)"
  unfolding keeps_def by (blast intro: holds_mono)

lemma pops_wp:
  "pops p \<Longrightarrow> stack_ok k s \<Longrightarrow> (\<And>x s'. stack_ok k s' \<Longrightarrow> Q (x, s')) \<Longrightarrow> holds Q (p s)"
  unfolding pops_def by (fastforce elim: holds_mono)

lemma check_wp:
  "check_ok check \<Longrightarrow> meter_ok m \<Longrightarrow> (\<And>b m'. meter_ok m' \<Longrightarrow> Q (b, m')) \<Longrightarrow> holds Q (check m)"
  unfolding check_ok_def by (fastforce elim: holds_mono)

lemma vm_keepsI:
  "(\<And>k vm. k < 50 \<Longrightarrow> vm_ok k vm \<Longrightarrow> holds (vm_ok (k + 4)) (f vm)) \<Longrightarrow> vm_keeps f"
  by (simp add: vm_keeps_def)

lemma vm_keeps_check_sig:
  assumes "\<And>t key sig. check_ok (check t key sig)"
  shows "vm_keeps (check_sig_op check)"
proof (rule vm_keepsI)
  fix k :: nat and vm assume k: "k < 50" and vm: "vm_ok k vm"
  note push = keeps_wp [OF keeps_push(7), where k = k]
  show "holds (vm_ok (k + 4)) (check_sig_op check vm)"
    unfolding check_sig_op_def holds_bindR Let_def
    using k vm vm_okD [OF vm]
    by (auto intro!: pops_wp [OF pops_prims(2), where k = k] push check_wp [OF assms]
        safe_holds [OF safe_intros(5)])
qed

lemma vm_keeps_check_from_stack:
  assumes "\<And>key sig h. check_ok (check key sig h)"
  shows "vm_keeps (check_sig_from_stack check)"
proof (rule vm_keepsI)
  fix k :: nat and vm assume k: "k < 50" and vm: "vm_ok k vm"
  note push = keeps_wp [OF keeps_push(7), where k = k]
  show "holds (vm_ok (k + 4)) (check_sig_from_stack check vm)"
    unfolding check_sig_from_stack_def holds_bindR Let_def
    using k vm vm_okD [OF vm]
    by (auto intro!: pops_wp [OF pops_prims(2), where k = k] push check_wp [OF assms])
qed

lemma multisig_inner_ok:
  "(\<And>key. check_ok (check key)) \<Longrightarrow> meter_ok m \<Longrightarrow> 0 < needed \<Longrightarrow>
    holds (\<lambda>(_, _, m'). meter_ok m') (multisig_inner check needed keys m)"
proof (induction keys arbitrary: m)
  case (Cons key keys)
  show ?case
    using Cons by (auto intro!: check_wp [OF Cons.prems(1)])
qed simp

lemma multisig_outer_ok:
  "(\<And>t key sig. check_ok (check t key sig)) \<Longrightarrow> meter_ok m \<Longrightarrow>
    holds (\<lambda>(_, m'). meter_ok m') (multisig_outer check sigs keys m)"
proof (induction sigs arbitrary: keys m)
  case (Cons sig sigs)
  have "holds (\<lambda>(_, m'). meter_ok m')
      (bindR (multisig_inner (\<lambda>key. check t key (butlast sig)) (length (sig # sigs)) keys m) (\<lambda>(found, rest, m).
        if found then multisig_outer check sigs rest m else Inr (True, m)))" for t
    unfolding holds_bindR
    by (rule holds_mono [OF multisig_inner_ok]) (use Cons in auto)
  then show ?case using Cons.prems(2) by (auto intro!: safe_holds [OF safe_intros(5)] simp del: holds_bindR simp: holds_bindR [of _ "ok_or _ _"])
qed simp

lemma count_ops_ok:
  assumes "vm_ok k vm" and "0 \<le> n" and "n \<le> 20" and "\<And>vm'. vm_ok k vm' \<Longrightarrow> Q vm'"
  shows "holds Q (count_ops n vm)"
proof -
  have "i32_range (num_ops vm + n)"
    using assms(1-3) by (simp add: vm_ok_def i32_range_def MAX_OPS_PER_SCRIPT_def)
  moreover have "vm_ok k (vm\<lparr>num_ops := num_ops vm + n\<rparr>)" if "num_ops vm + n \<le> MAX_OPS_PER_SCRIPT"
    using assms(1,2) that by (simp add: vm_ok_def)
  ultimately show ?thesis using assms(4) by (auto simp: count_ops_def Let_def)
qed

lemma vm_keeps_multisig:
  assumes "\<And>t key sig. check_ok (check t key sig)"
  shows "vm_keeps (op_check_multisig check)"
proof (rule vm_keepsI)
  fix k :: nat and vm assume k: "k < 50" and vm: "vm_ok k vm"
  note pop = pops_wp [OF pops_prims(1), where k = k] pops_wp [OF pops_prims(4), where k = k]
  have outer: "holds (\<lambda>x. (fst x \<longrightarrow> (\<forall>sig \<in> set sigs. sig = [])) \<longrightarrow>
        holds (\<lambda>s. stack_ok (k + 4) s \<and> meter_ok (snd x)) (push_bool (\<not> fst x) s))
      (multisig_outer check sigs keys m)"
    if "meter_ok m" "stack_ok k s" for m s sigs keys
    by (rule holds_mono [OF multisig_outer_ok [OF assms that(1)]])
      (use that k in \<open>auto intro!: keeps_wp [OF keeps_push(7), where k = k]\<close>)
  show "holds (vm_ok (k + 4)) (op_check_multisig check vm)"
    unfolding op_check_multisig_def holds_bindR Let_def
    using k vm vm_okD [OF vm]
    by (auto intro!: pop count_ops_ok [where k = k] outer intro: vm_okD(3)
        simp: MAX_PUB_KEYS_PER_MUTLTISIG_def case_prod_beta)
qed

lemma vm_keeps_hash: "vm_keeps (hash_op price h)"
proof (rule vm_keepsI)
  fix k :: nat and vm assume k: "k < 50" and vm: "vm_ok k vm"
  show "holds (vm_ok (k + 4)) (hash_op price h vm)"
    unfolding hash_op_def vm_consume_script_units_def on_dstack_def holds_bindR
    using k vm vm_okD [OF vm]
    by (auto intro!: pops_wp [OF pops_prims(2), where k = k] consume_ok keeps_wp [OF keeps_push(1), where k = k])
qed

lemma vm_keeps_keyed: "vm_keeps (OpBlake2bWithKey env)" "vm_keeps (OpBlake3WithKey env)"
proof -
  have "holds (vm_ok (k + 4)) (OpBlake2bWithKey env vm) \<and> holds (vm_ok (k + 4)) (OpBlake3WithKey env vm)"
    if "k < 50" and "vm_ok k vm" for k vm
    unfolding OpBlake2bWithKey_def OpBlake3WithKey_def vm_consume_script_units_def on_dstack_def holds_bindR Let_def
    using that vm_okD [OF that(2)]
    by (auto intro!: pops_wp [OF pops_prims(2), where k = k] consume_ok keeps_wp [OF keeps_push(1), where k = k])
  then show "vm_keeps (OpBlake2bWithKey env)" "vm_keeps (OpBlake3WithKey env)" by (auto intro: vm_keepsI)
qed

lemma parse_tag_pops: "pops parse_tag"
  by (rule popsI) (auto simp: parse_tag_def intro!: stack_pop_ok split: list.splits option.splits)

lemma vm_keeps_zk:
  assumes "verifier_pops env"
  shows "vm_keeps (OpZkPrecompile env)"
proof (rule vm_keepsI)
  fix k :: nat and vm assume k: "k < 50" and vm: "vm_ok k vm"
  have zk: "holds (\<lambda>x. holds (\<lambda>s. stack_ok (k + 4) s \<and> meter_ok (snd x)) (push_bool True (fst x))) (verify_zk env tag s m)"
    if "stack_ok k s" "meter_ok m" for tag s m
  proof -
    have "stack_ok k (s\<lparr>inner := take n (inner s)\<rparr>)" for n
      using that(1) by (rule stack_ok_inner) (auto dest: in_set_takeD)
    moreover have "meter_ok (m\<lparr>remaining_script_units := r\<rparr>)" if "r \<le> remaining_script_units m" for r
      using that \<open>meter_ok m\<close> by (auto simp: meter_ok_def)
    ultimately have "stack_ok k s' \<and> meter_ok m'" if "verify_zk env tag s m = Inr (s', m')" for s' m'
      using assms that unfolding verifier_pops_def by metis
    moreover have "verify_zk env tag s m \<noteq> Inl Panic" using assms by (simp add: verifier_pops_def)
    ultimately show ?thesis
      using k by (auto simp: holds_def [of _ "verify_zk env tag s m"] intro!: keeps_wp [OF keeps_push(7), where k = k])
  qed
  show "holds (vm_ok (k + 4)) (OpZkPrecompile env vm)"
    unfolding OpZkPrecompile_def holds_bindR
    using k vm vm_okD [OF vm] zk
    by (auto intro!: pops_wp [OF parse_tag_pops, where k = k] consume_ok simp: case_prod_beta)
qed

lemma vm_keeps_control: "vm_keeps (control_op op)"
proof (rule vm_keepsI)
  fix k :: nat and vm assume k: "k < 50" and vm: "vm_ok k vm"
  have cond: "holds (vm_ok (k + 4)) (OpIf vm)" "holds (vm_ok (k + 4)) (OpNotIf vm)" "holds (vm_ok (k + 4)) (OpElse vm)"
    "holds (vm_ok (k + 4)) (OpEndIf vm)" "holds (vm_ok (k + 4)) (Inr vm)"
    unfolding OpIf_def OpNotIf_def OpElse_def OpEndIf_def
    using vm vm_okD(1) [OF vm] vm_ok_mono [OF vm, of "k + 4"]
    by (auto intro!: pops_wp [OF pops_derived(1), where k = k] intro: stack_ok_add)
  have "holds (vm_ok (k + 4)) (on_dstack OpVerify vm)"
    using vm_keeps_on_dstack [OF keeps_OpVerify] k vm by (simp add: vm_keeps_def)
  with cond show "holds (vm_ok (k + 4)) (control_op op vm)" by (simp add: control_op_def Let_def)
qed

lemma vm_keeps_alt: "vm_keeps OpToAltStack" "vm_keeps OpFromAltStack"
proof -
  have "holds (vm_ok (k + 4)) (OpToAltStack vm) \<and> holds (vm_ok (k + 4)) (OpFromAltStack vm)"
    if "k < 50" and "vm_ok k vm" for k vm
  proof -
    have "vm_ok k' (vm\<lparr>dstack := s, astack := a\<rparr>) \<longleftrightarrow> stack_ok k' s \<and> stack_ok 0 a" for k' s a
      using that by (auto simp: vm_ok_def)
    then show ?thesis
      unfolding OpToAltStack_def OpFromAltStack_def holds_bindR using that vm_okD [OF that(2)]
      by (auto intro!: pops_wp [OF pops_prims(2), where k = k] pops_wp [OF pops_prims(3), where k = 0]
          push_unmetered_ok [where k = k] push_unmetered_ok [where k = 0 and s = "astack vm"] intro: stack_ok_add)
  qed
  then show "vm_keeps OpToAltStack" "vm_keeps OpFromAltStack" by (auto intro: vm_keepsI)
qed

lemma vm_keeps_if: "vm_keeps f \<Longrightarrow> vm_keeps g \<Longrightarrow> vm_keeps (\<lambda>vm. if c vm then f vm else g vm)"
  "vm_keeps f \<Longrightarrow> vm_keeps g \<Longrightarrow> vm_keeps (if b then f else g)"
  by (simp_all add: vm_keeps_def)

lemma vm_keeps_err: "vm_keeps (\<lambda>vm. Inl (Err e))"
  by (simp add: vm_keeps_def)

lemma vm_keeps_stack_opcode: "vm_keeps (stack_opcode v)"
  unfolding stack_opcode_def [abs_def]
  by (intro vm_keeps_if vm_keeps_alt vm_keeps_on_dstack keeps_intros) simp_all

text \<open>The verifying variants run two steps, so an opcode meters at most eight entries.\<close>

definition vm_keeps8 :: "vm_op \<Rightarrow> bool" where
  "vm_keeps8 f \<longleftrightarrow> (\<forall>vm. vm_ok 0 vm \<longrightarrow> holds (vm_ok 8) (f vm))"

lemma vm_keeps8: "vm_keeps f \<Longrightarrow> vm_keeps8 f"
  unfolding vm_keeps_def vm_keeps8_def by (fastforce elim: holds_mono vm_ok_mono)

lemma vm_keeps8_verify:
  assumes "vm_keeps f"
  shows "vm_keeps8 (\<lambda>vm. bindR (f vm) (on_dstack OpVerify))"
  unfolding vm_keeps8_def holds_bindR
proof (intro allI impI)
  fix vm assume "vm_ok 0 vm"
  then have "holds (vm_ok 4) (f vm)" using assms by (auto simp: vm_keeps_def dest: spec [of _ 0])
  moreover have "holds (vm_ok 8) (on_dstack OpVerify vm')" if "vm_ok 4 vm'" for vm'
    using vm_keeps_on_dstack [OF keeps_OpVerify] that by (auto simp: vm_keeps_def dest!: spec [of _ 4])
  ultimately show "holds (\<lambda>x. holds (vm_ok 8) (on_dstack OpVerify x)) (f vm)" by (rule holds_mono)
qed

lemma vm_keeps8_if: "vm_keeps8 f \<Longrightarrow> vm_keeps8 g \<Longrightarrow> vm_keeps8 (if b then f else g)"
  by simp

lemma vm_keeps8_crypto_op:
  assumes "verifier_pops env"
  shows "vm_keeps8 (crypto_op env v)"
  unfolding crypto_op_def OpSHA256_def OpBlake2b_def OpBlake3_def OpCheckSig_def OpCheckSigECDSA_def
    OpCheckSigVerify_def [abs_def] OpCheckSigFromStack_def OpCheckSigFromStackECDSA_def OpCheckMultiSig_def
    OpCheckMultiSigECDSA_def OpCheckMultiSigVerify_def [abs_def]
  by (intro vm_keeps8_if vm_keeps8_verify vm_keeps8 vm_keeps_hash vm_keeps_keyed vm_keeps_zk vm_keeps_check_sig
      vm_keeps_check_from_stack vm_keeps_multisig checks_ok assms)

lemma opcode_execute_ok:
  assumes "verifier_pops env" and "commitments_ok env" and "vm_ok 0 vm"
  shows "holds (vm_ok 8) (opcode_execute env op vm)"
proof -
  have "vm_keeps8 (opcode_execute env op)"
    unfolding opcode_execute_def Let_def
    by (intro vm_keeps8_if vm_keeps8_crypto_op assms; intro vm_keeps8 vm_keeps_on_dstack vm_keeps_control
        vm_keeps_stack_opcode vm_keeps_err keeps_push_op keeps_splice_op keeps_numeric_op keeps_introspection_op
        keeps_covenant_op assms)
  with assms(3) show ?thesis by (simp add: vm_keeps8_def)
qed

end
