(* ===== verification/Script_Engine.thy ===== *)
theory Script_Engine
  imports Script_Opcodes
begin

text \<open>
  The script engine: \<^verbatim>\<open>TxScriptEngine\<close> of \<^verbatim>\<open>src/crypto/txscript/src/lib.rs\<close>, the static bounds on
  signature operations in the same file, the script classes of
  \<^verbatim>\<open>src/crypto/txscript/src/script_class.rs\<close> and the standard scripts of
  \<^verbatim>\<open>src/crypto/txscript/src/standard.rs\<close>.
\<close>

section \<open>Script classes and standard scripts\<close>

datatype ScriptClass = NonStandard | PubKey | PubKeyECDSA | ScriptHash

definition is_pay_to_pubkey :: "bytes \<Rightarrow> bool" where
  "is_pay_to_pubkey spk \<longleftrightarrow> length spk = 34 \<and> spk ! 0 = 0x20 \<and> spk ! 33 = 0xac"

definition is_pay_to_pubkey_ecdsa :: "bytes \<Rightarrow> bool" where
  "is_pay_to_pubkey_ecdsa spk \<longleftrightarrow> length spk = 35 \<and> spk ! 0 = 0x21 \<and> spk ! 34 = 0xab"

definition is_pay_to_script_hash :: "bytes \<Rightarrow> bool" where
  "is_pay_to_script_hash spk \<longleftrightarrow> length spk = 35 \<and> spk ! 0 = 0xaa \<and> spk ! 1 = 0x20 \<and> spk ! 34 = 0x87"

definition ScriptClass_from_script :: "ScriptPublicKey \<Rightarrow> ScriptClass" where
  "ScriptClass_from_script spk =
     (if spk_version spk = MAX_SCRIPT_PUBLIC_KEY_VERSION then
        if is_pay_to_pubkey (spk_script spk) then PubKey
        else if is_pay_to_pubkey_ecdsa (spk_script spk) then PubKeyECDSA
        else if is_pay_to_script_hash (spk_script spk) then ScriptHash
        else NonStandard
      else NonStandard)"

fun ScriptClass_version :: "ScriptClass \<Rightarrow> u16" where
  "ScriptClass_version NonStandard = 0"
| "ScriptClass_version PubKey = MAX_SCRIPT_PUBLIC_KEY_VERSION"
| "ScriptClass_version PubKeyECDSA = MAX_SCRIPT_PUBLIC_KEY_VERSION"
| "ScriptClass_version ScriptHash = MAX_SCRIPT_PUBLIC_KEY_VERSION"

definition pay_to_pub_key :: "bytes \<Rightarrow> ('e, bytes) outcome" where
  "pay_to_pub_key pl = (if length pl = 32 then Inr (0x20 # pl @ [0xac]) else Inl Panic)"

definition pay_to_pub_key_ecdsa :: "bytes \<Rightarrow> ('e, bytes) outcome" where
  "pay_to_pub_key_ecdsa pl = (if length pl = 33 then Inr (0x21 # pl @ [0xab]) else Inl Panic)"

definition pay_to_script_hash :: "bytes \<Rightarrow> ('e, bytes) outcome" where
  "pay_to_script_hash h = (if length h = 32 then Inr (0xaa # 0x20 # h @ [0x87]) else Inl Panic)"

text \<open>The address classes other than \<^verbatim>\<open>NonStandard\<close> are the versions of an address.\<close>

record Address =
  addr_version :: ScriptClass
  addr_payload :: bytes

definition pay_to_address_script :: "Address \<Rightarrow> ('e, ScriptPublicKey) outcome" where
  "pay_to_address_script a =
     bindR (case addr_version a of
              PubKey \<Rightarrow> pay_to_pub_key (addr_payload a)
            | PubKeyECDSA \<Rightarrow> pay_to_pub_key_ecdsa (addr_payload a)
            | ScriptHash \<Rightarrow> pay_to_script_hash (addr_payload a)
            | NonStandard \<Rightarrow> Inl Panic) (\<lambda>script.
     Inr \<lparr>spk_version = ScriptClass_version (addr_version a), spk_script = script\<rparr>)"

definition pay_to_script_hash_script :: "'a ScriptCrypto_scheme \<Rightarrow> bytes \<Rightarrow> ('e, ScriptPublicKey) outcome" where
  "pay_to_script_hash_script env redeem_script =
     bindR (pay_to_script_hash (blake2b_256 env redeem_script)) (\<lambda>script.
     Inr \<lparr>spk_version = ScriptClass_version ScriptHash, spk_script = script\<rparr>)"

text \<open>The prefix of an address only names the network and is left out.\<close>

definition extract_script_pub_key_address :: "ScriptPublicKey \<Rightarrow> Address script_result" where
  "extract_script_pub_key_address spk =
     (let class = ScriptClass_from_script spk; script = spk_script spk in
      if ScriptClass_version class < spk_version spk then Inl (Err PubKeyFormat)
      else case class of
        NonStandard \<Rightarrow> Inl (Err PubKeyFormat)
      | PubKey \<Rightarrow> Inr \<lparr>addr_version = PubKey, addr_payload = take 32 (drop 1 script)\<rparr>
      | PubKeyECDSA \<Rightarrow> Inr \<lparr>addr_version = PubKeyECDSA, addr_payload = take 33 (drop 1 script)\<rparr>
      | ScriptHash \<Rightarrow> Inr \<lparr>addr_version = ScriptHash, addr_payload = take 32 (drop 2 script)\<rparr>)"

section \<open>Running scripts\<close>

definition vm_pop_pushed_bytes :: "ScriptVm \<Rightarrow> u64 \<times> ScriptVm" where
  "vm_pop_pushed_bytes vm =
     (let (d, ds) = pop_pushed_bytes (dstack vm); (a, as) = pop_pushed_bytes (astack vm) in
      (saturating_add d a, vm\<lparr>dstack := ds, astack := as\<rparr>))"

definition execute_opcode :: "ScriptEnv \<Rightarrow> OpCode \<Rightarrow> vm_op" where
  "execute_opcode env op vm =
     bindR (if \<not> is_push_opcode op then count_ops 1 vm
            else if MAX_SCRIPT_ELEMENT_SIZE < length (op_data op) then
              Inl (Err (ElementTooBig (length (op_data op)) MAX_SCRIPT_ELEMENT_SIZE))
            else Inr vm) (\<lambda>vm.
     if is_executing vm \<or> is_conditional op then
       bindR (opcode_execute env op vm) (\<lambda>vm.
       let (pushed, vm) = vm_pop_pushed_bytes vm in
       bindR (charge_newly_pushed_bytes pushed (runtime_resource_meter vm)) (\<lambda>m.
       Inr (vm\<lparr>runtime_resource_meter := m\<rparr>)))
     else Inr vm)"

text \<open>The closure of \<^verbatim>\<open>execute_script\<close>, run on every item the parser yields.\<close>

definition script_step :: "ScriptEnv \<Rightarrow> bool \<Rightarrow> ScriptVm \<Rightarrow> TxScriptError + OpCode \<Rightarrow> ScriptVm script_result" where
  "script_step env verify_only_push vm item =
     bindR (map_err Err item) (\<lambda>op.
     if is_disabled op then Inl (Err (OpcodeDisabled op))
     else if always_illegal op then Inl (Err (OpcodeReserved op))
     else if verify_only_push \<and> \<not> is_push_opcode op then Inl (Err SignatureScriptNotPushOnly)
     else
       bindR (execute_opcode env op vm) (\<lambda>vm.
       let combined_size = stack_len (astack vm) + stack_len (dstack vm) in
       if MAX_STACK_SIZE < combined_size then Inl (Err (StackSizeExceeded combined_size MAX_STACK_SIZE))
       else Inr vm))"

text \<open>On an error the engine is not used any further, so that the resets that follow it are not
  represented.\<close>

definition execute_script :: "ScriptEnv \<Rightarrow> bytes \<Rightarrow> bool \<Rightarrow> vm_op" where
  "execute_script env script verify_only_push vm =
     bindR (fold_result (script_step env verify_only_push) vm (parse_script script)) (\<lambda>vm.
     if cond_stack vm \<noteq> [] then Inl (Err ErrUnbalancedConditional)
     else Inr (vm\<lparr>astack := stack_clear (astack vm), num_ops := 0\<rparr>))"

definition check_error_condition :: "bool \<Rightarrow> vm_op" where
  "check_error_condition final_script vm =
     (if final_script \<and> 1 < stack_len (dstack vm) then Inl (Err (CleanStack (stack_len (dstack vm) - 1)))
      else if final_script \<and> inner (dstack vm) = [] then Inl (Err EmptyStack)
      else bindR (pop_bool (dstack vm)) (\<lambda>(v, s).
        if v then Inr (vm\<lparr>dstack := s\<rparr>) else Inl (Err EvalFalse)))"

datatype ScriptExecutionOutput = Executed | AcceptedUnknownVersion

text \<open>The scripts to run, whether the last pushed item is a script too, and the script units
  charged for a long script public key; \<open>None\<close> when the version is unknown.\<close>

definition script_inputs :: "ScriptEnv \<Rightarrow> (bytes list \<times> bool \<times> ScriptUnits) option script_result" where
  "script_inputs env =
     (case script_source env of
        TxInput _ input _ utxo_entry is_p2sh \<Rightarrow>
          if MAX_SCRIPT_PUBLIC_KEY_VERSION < spk_version (entry_spk utxo_entry) then Inr None
          else
            let script = spk_script (entry_spk utxo_entry) in
            bindR (pmul (of_nat (length script - STANDARD_SCRIPT_PUB_KEY_MAX_SIZE)) SCRIPT_UNITS_PER_GRAM) (\<lambda>units.
            Inr (Some ([signature_script input, script], is_p2sh, units)))
      | StandAloneScripts scripts \<Rightarrow> Inr (Some (scripts, False, 0)))"

definition from_tx_input :: "ScriptEnv \<Rightarrow> bool" where
  "from_tx_input env \<longleftrightarrow> (case script_source env of TxInput _ _ _ _ _ \<Rightarrow> True | StandAloneScripts _ \<Rightarrow> False)"

definition run_scripts :: "ScriptEnv \<Rightarrow> bool \<Rightarrow> ScriptVm \<Rightarrow> bytes list \<Rightarrow> (ScriptVm \<times> Stack option) script_result" where
  "run_scripts env is_p2sh vm scripts =
     fold_result (\<lambda>(vm, saved_stack) (idx, s).
         let saved_stack = (if is_p2sh \<and> idx = 1 then Some (dstack vm) else saved_stack) in
         bindR (execute_script env s (idx = 0 \<and> from_tx_input env) vm) (\<lambda>vm. Inr (vm, saved_stack)))
       (vm, None) (filter (\<lambda>(_, s). s \<noteq> []) (enumerate 0 scripts))"

definition execute_inner :: "ScriptEnv \<Rightarrow> ScriptVm \<Rightarrow> (ScriptExecutionOutput \<times> ScriptVm) script_result" where
  "execute_inner env vm =
     bindR (script_inputs env) (\<lambda>inp. case inp of
       None \<Rightarrow> Inr (AcceptedUnknownVersion, vm)
     | Some (scripts, is_p2sh, units) \<Rightarrow>
         bindR (vm_consume_script_units units vm) (\<lambda>vm.
         if scripts = [] then Inl (Err NoScripts)
         else if list_all (\<lambda>s. s = []) scripts then Inl (Err EvalFalse)
         else case find (\<lambda>s. MAX_SCRIPTS_SIZE < length s) scripts of
           Some s \<Rightarrow> Inl (Err (ScriptSize (length s) MAX_SCRIPTS_SIZE))
         | None \<Rightarrow>
             bindR (run_scripts env is_p2sh vm scripts) (\<lambda>(vm, saved_stack).
             if is_p2sh then
               bindR (check_error_condition False vm) (\<lambda>vm.
               bindR (ok_or (Err EmptyStack) saved_stack) (\<lambda>saved.
               bindR (stack_pop saved) (\<lambda>(script, s).
               bindR (execute_script env script False (vm\<lparr>dstack := s\<rparr>)) (\<lambda>vm.
               Inr (Executed, vm)))))
             else Inr (Executed, vm))))"

definition execute :: "ScriptEnv \<Rightarrow> ScriptVm \<Rightarrow> unit script_result" where
  "execute env vm =
     bindR (execute_inner env vm) (\<lambda>(output, vm). case output of
       Executed \<Rightarrow> bindR (check_error_condition True vm) (\<lambda>_. Inr ())
     | AcceptedUnknownVersion \<Rightarrow> Inr ())"

definition execute_and_return_stacks :: "ScriptEnv \<Rightarrow> ScriptVm \<Rightarrow> (StackEntry list \<times> StackEntry list) script_result" where
  "execute_and_return_stacks env vm =
     bindR (execute_inner env vm) (\<lambda>(_, vm). Inr (inner (dstack vm), inner (astack vm)))"

definition new_engine :: "ScriptUnits \<Rightarrow> ScriptUnits \<Rightarrow> ScriptVm" where
  "new_engine sigop_units limit =
     \<lparr>dstack = Stack_new [], astack = Stack_new [], cond_stack = [], num_ops = 0,
      runtime_resource_meter = new_script_units sigop_units limit\<rparr>"

text \<open>\<^verbatim>\<open>from_transaction_input_with_script_units_limit\<close> asserts that the index is an input's.\<close>

definition from_transaction_input ::
    "ScriptCrypto \<Rightarrow> PopulatedTransaction \<Rightarrow> TransactionInput \<Rightarrow> nat \<Rightarrow> UtxoEntry \<Rightarrow> CovenantsContext \<Rightarrow>
     SeqCommitAccessor option \<Rightarrow> ScriptUnits \<Rightarrow> ScriptUnits \<Rightarrow> (ScriptEnv \<times> ScriptVm) script_result" where
  "from_transaction_input crypto tx input idx utxo_entry ctx acc sigop_units limit =
     (if length (inputs (ptx tx)) \<le> idx then Inl Panic
      else Inr
        (ScriptCrypto.extend crypto
           \<lparr>script_source = TxInput tx input idx utxo_entry (is_pay_to_script_hash (spk_script (entry_spk utxo_entry))),
            covenants_ctx = ctx, seq_commit_accessor = acc\<rparr>,
         new_engine sigop_units limit))"

definition get_sig_op_count ::
    "ScriptCrypto \<Rightarrow> PopulatedTransaction \<Rightarrow> nat \<Rightarrow> CovenantsContext \<Rightarrow> SeqCommitAccessor option \<Rightarrow> u16 script_result" where
  "get_sig_op_count crypto tx idx ctx acc =
     bindR (if idx < length (inputs (ptx tx)) then Inr (inputs (ptx tx) ! idx) else Inl Panic) (\<lambda>input.
     bindR (get_or (entries tx) idx (bad_input tx (int idx))) (\<lambda>e.
     bindR (from_transaction_input (crypto\<lparr>sig_cache_get := Map.empty\<rparr>) tx input idx e ctx acc 100000 (- 1)) (\<lambda>(env, vm).
     bindR (execute_inner env vm) (\<lambda>(output, vm).
     bindR (case output of
              Executed \<Rightarrow> check_error_condition True vm
            | AcceptedUnknownVersion \<Rightarrow> Inr vm) (\<lambda>vm.
     Inr (used_sig_ops (runtime_resource_meter vm)))))))"

section \<open>Static bounds\<close>

text \<open>The data of the last opcode of the signature script: the redeem script of a pay-to-script-hash
  input.  \<open>None\<close> when there is none or the signature script does not parse.\<close>

definition redeem_script :: "bytes \<Rightarrow> bytes option" where
  "redeem_script sig_script =
     (case collect_results id (parse_script sig_script) of
        Inl _ \<Rightarrow> None
      | Inr ops \<Rightarrow> if ops = [] then None else Some (op_data (last ops)))"

text \<open>The loop of \<^verbatim>\<open>p2sh_sig_scanner\<close>: the count so far and the number of keys the previous opcode
  pushes; \<open>Inl ()\<close> is the early return of zero.\<close>

definition single_sig_ops :: "u8 set" where "single_sig_ops = {0xac, 0xad, 0xab, 0xd7, 0xd8}"
definition multi_sig_ops :: "u8 set" where "multi_sig_ops = {0xae, 0xaf, 0xa9}"

definition pushed_key_count :: "bytes \<Rightarrow> u64 option" where
  "pushed_key_count data =
     (case deserialize_i64 data of
        Inl _ \<Rightarrow> None
      | Inr n \<Rightarrow> if 1 \<le> n \<and> n \<le> MAX_PUB_KEYS_PER_MUTLTISIG then Some (of_int n) else None)"

definition scan_step :: "u64 \<times> u64 option \<Rightarrow> TxScriptError + OpCode \<Rightarrow> unit + (u64 \<times> u64 option)" where
  "scan_step st item =
     (let (sigops, multisig_count) = st in
      case item of
        Inl _ \<Rightarrow> Inl ()
      | Inr op \<Rightarrow>
          let v = op_value op in
          Inr (if v \<in> single_sig_ops then (saturating_add sigops 1, None)
               else if v \<in> multi_sig_ops then
                 (saturating_add sigops (case multisig_count of Some c \<Rightarrow> c | None \<Rightarrow> of_int MAX_PUB_KEYS_PER_MUTLTISIG), None)
               else if 0x51 \<le> v \<and> v \<le> 0x60 then (sigops, Some (ucast (v - 0x51 + 1)))
               else if v \<le> 0x4e then (sigops, pushed_key_count (op_data op))
               else (sigops, None)))"

definition scan_script :: "bytes \<Rightarrow> u64" where
  "scan_script script =
     (case fold_result scan_step (0, None) (parse_script script) of Inl _ \<Rightarrow> 0 | Inr (sigops, _) \<Rightarrow> sigops)"

definition p2sh_sig_scanner :: "bytes \<Rightarrow> ScriptPublicKey \<Rightarrow> u64" where
  "p2sh_sig_scanner sig_script spk =
     (if \<not> is_pay_to_script_hash (spk_script spk) then 0
      else case redeem_script sig_script of None \<Rightarrow> 0 | Some script \<Rightarrow> scan_script script)"

definition to_small_int :: "OpCode \<Rightarrow> ('e, u8) outcome" where
  "to_small_int op =
     (let v = op_value op in
      if v = 0 then Inr 0
      else if 0x51 \<le> v \<and> v < 0x60 then Inr (v - (0x51 - 1))
      else Inl Panic)"

text \<open>\<^verbatim>\<open>get_sig_op_count_by_opcodes\<close>: a loop over the items with the previous one at hand.\<close>

fun sig_op_count_loop :: "u64 \<Rightarrow> OpCode option \<Rightarrow> (TxScriptError + OpCode) list \<Rightarrow> ('e, u64) outcome" where
  "sig_op_count_loop num_sigs prev [] = Inr num_sigs"
| "sig_op_count_loop num_sigs prev (Inl _ # items) = Inr num_sigs"
| "sig_op_count_loop num_sigs prev (Inr op # items) =
     bindR (if op_value op \<in> {0xac, 0xad, 0xab} then padd num_sigs 1
            else if op_value op \<in> multi_sig_ops then
              (case prev of
                 None \<Rightarrow> padd num_sigs (of_int MAX_PUB_KEYS_PER_MUTLTISIG)
               | Some p \<Rightarrow>
                   if 0x51 \<le> op_value p \<and> op_value p \<le> 0x60
                   then bindR (to_small_int p) (\<lambda>n. padd num_sigs (ucast n))
                   else padd num_sigs (of_int MAX_PUB_KEYS_PER_MUTLTISIG))
            else Inr num_sigs) (\<lambda>num_sigs.
     sig_op_count_loop num_sigs (Some op) items)"

definition get_sig_op_count_upper_bound :: "bytes \<Rightarrow> ScriptPublicKey \<Rightarrow> ('e, u64) outcome" where
  "get_sig_op_count_upper_bound sig_script prev_spk =
     (if \<not> is_pay_to_script_hash (spk_script prev_spk)
      then sig_op_count_loop 0 None (parse_script (spk_script prev_spk))
      else case redeem_script sig_script of
        None \<Rightarrow> Inr 0
      | Some script \<Rightarrow> sig_op_count_loop 0 None (parse_script script))"

definition compute_zk_cost :: "u8 \<Rightarrow> ScriptUnits" where
  "compute_zk_cost tag = (case ZkTag_try_from tag of Some t \<Rightarrow> ZkTag_cost t | None \<Rightarrow> ZkTag_max_cost)"

fun zk_units_loop :: "ScriptUnits \<Rightarrow> OpCode option \<Rightarrow> (TxScriptError + OpCode) list \<Rightarrow> ScriptUnits" where
  "zk_units_loop zk_units prev [] = zk_units"
| "zk_units_loop zk_units prev (Inl _ # items) = zk_units"
| "zk_units_loop zk_units prev (Inr op # items) =
     zk_units_loop
       (if op_value op = 0xa6 then
          saturating_add zk_units (case prev of
            None \<Rightarrow> ZkTag_max_cost
          | Some p \<Rightarrow> (case op_data p of [] \<Rightarrow> ZkTag_max_cost | b # _ \<Rightarrow> compute_zk_cost b))
        else zk_units) (Some op) items"

definition get_zk_script_units_upper_bound :: "bytes \<Rightarrow> ScriptPublicKey \<Rightarrow> ScriptUnits" where
  "get_zk_script_units_upper_bound sig_script prev_spk =
     (if \<not> is_pay_to_script_hash (spk_script prev_spk)
      then zk_units_loop 0 None (parse_script (spk_script prev_spk))
      else case redeem_script sig_script of
        None \<Rightarrow> 0
      | Some script \<Rightarrow> zk_units_loop 0 None (parse_script script))"

definition estimate_script_units_upper_bound :: "bytes \<Rightarrow> ScriptPublicKey \<Rightarrow> u64 \<Rightarrow> ('e, ScriptUnits) outcome" where
  "estimate_script_units_upper_bound sig_script prev_spk sigop_units =
     bindR (get_sig_op_count_upper_bound sig_script prev_spk) (\<lambda>sig_op_upper_bound.
     bindR (pmul (of_nat (length sig_script + length (spk_script prev_spk))) 100) (\<lambda>len_units.
     Inr (saturating_add (saturating_add (saturating_mul sig_op_upper_bound sigop_units) len_units)
            (get_zk_script_units_upper_bound sig_script prev_spk))))"

definition is_unspendable :: "bytes \<Rightarrow> bool" where
  "is_unspendable script \<longleftrightarrow>
     (\<exists>(i, item) \<in> set (enumerate 0 (parse_script script)).
        case item of Inl _ \<Rightarrow> True | Inr op \<Rightarrow> i = 0 \<and> op_value op = 0x6a)"

section \<open>Running scripts keeps the engine within its limits\<close>

definition engine_ok :: "ScriptVm \<Rightarrow> bool" where
  "engine_ok vm \<longleftrightarrow> vm_ok 0 vm \<and> stack_len (astack vm) + stack_len (dstack vm) \<le> MAX_STACK_SIZE"

lemma charge_pushed_ok:
  assumes "vm_ok 8 vm"
  shows "holds (vm_ok 0) (let (pushed, vm) = vm_pop_pushed_bytes vm in
    bindR (charge_newly_pushed_bytes pushed (runtime_resource_meter vm)) (\<lambda>m. Inr (vm\<lparr>runtime_resource_meter := m\<rparr>)))"
  unfolding vm_pop_pushed_bytes_def pop_pushed_bytes_def charge_newly_pushed_bytes_def Let_def prod.case holds_bindR
  by (rule consume_ok) (use assms in \<open>auto simp: vm_ok_def stack_ok_def\<close>)

lemma execute_opcode_ok:
  assumes env: "verifier_pops env" "commitments_ok env" and vm: "vm_ok 0 vm"
  shows "holds (vm_ok 0) (execute_opcode env op vm)"
proof -
  have run: "holds (vm_ok 0) (if is_executing vm \<or> is_conditional op then
      bindR (opcode_execute env op vm) (\<lambda>vm.
        let (pushed, vm) = vm_pop_pushed_bytes vm in
        bindR (charge_newly_pushed_bytes pushed (runtime_resource_meter vm)) (\<lambda>m. Inr (vm\<lparr>runtime_resource_meter := m\<rparr>)))
      else Inr vm)" if "vm_ok 0 vm" for vm
    using that by (simp only: holds_bindI [OF opcode_execute_ok [OF env that] charge_pushed_ok] holds_simps split: if_split) simp
  have "holds (vm_ok 0) (if \<not> is_push_opcode op then count_ops 1 vm
      else if MAX_SCRIPT_ELEMENT_SIZE < length (op_data op) then
        Inl (Err (ElementTooBig (length (op_data op)) MAX_SCRIPT_ELEMENT_SIZE)) else Inr vm)"
    using vm by (auto intro!: count_ops_ok [where k = 0])
  then show ?thesis unfolding execute_opcode_def holds_bindR by (rule holds_mono) (rule run)
qed

lemma script_step_ok:
  assumes env: "verifier_pops env" "commitments_ok env" and vm: "engine_ok vm"
  shows "holds engine_ok (script_step env only_push vm item)"
proof (cases item)
  case (Inr op)
  have "vm_ok 0 vm" using vm by (simp add: engine_ok_def)
  from execute_opcode_ok [OF env this, of op] show ?thesis
    by (auto simp: script_step_def Inr Let_def engine_ok_def elim!: holds_mono)
qed (simp add: script_step_def)

text \<open>Between two scripts the alternative stack is empty and no conditional is open.\<close>

definition between_scripts :: "ScriptVm \<Rightarrow> bool" where
  "between_scripts vm \<longleftrightarrow> engine_ok vm \<and> inner (astack vm) = [] \<and> cond_stack vm = []"

lemma execute_script_ok:
  assumes env: "verifier_pops env" "commitments_ok env" and vm: "engine_ok vm"
  shows "holds between_scripts (execute_script env script only_push vm)"
  unfolding execute_script_def holds_bindR
  by (rule holds_mono [OF holds_fold_result [where P = engine_ok, OF script_step_ok [OF env]]])
    (use vm in \<open>auto simp: engine_ok_def between_scripts_def vm_ok_def stack_ok_def stack_clear_def MAX_OPS_PER_SCRIPT_def\<close>)

lemma run_scripts_ok:
  assumes env: "verifier_pops env" "commitments_ok env" and vm: "between_scripts vm"
  shows "holds (\<lambda>(vm, saved). between_scripts vm \<and>
      (\<forall>s. saved = Some s \<longrightarrow> stack_ok 0 s \<and> stack_len s \<le> MAX_STACK_SIZE)) (run_scripts env p2sh vm scripts)"
  unfolding run_scripts_def
proof (rule holds_fold_result, goal_cases)
  case (1 st x)
  obtain vm saved where st: "st = (vm, saved)" by force
  obtain i s where x: "x = (i, s)" by force
  have ok: "engine_ok vm" and "stack_ok 0 (dstack vm)" "stack_len (dstack vm) \<le> MAX_STACK_SIZE"
    using 1 by (auto simp: st between_scripts_def engine_ok_def vm_ok_def)
  with 1 show ?case
    unfolding st x prod.case Let_def holds_bindR
    by (intro holds_mono [OF execute_script_ok [OF env ok]]) (auto split: if_splits)
qed (use vm in simp)

lemma check_error_condition_ok:
  assumes "between_scripts vm"
  shows "holds between_scripts (check_error_condition final vm)"
proof -
  have "stack_len s' \<le> stack_len (dstack vm)" if "pop_bool (dstack vm) = Inr (b, s')" for b s'
    using that by (auto simp: pop_bool_def pop_items_def split_top_def Let_def bindR_eq_Inr map_err_eq split: if_splits)
  moreover have "holds (\<lambda>(_, s). stack_ok 0 s) (pop_bool (dstack vm))"
    using assms pops_derived(1) by (auto simp: pops_def between_scripts_def engine_ok_def dest: vm_okD)
  ultimately have "holds (\<lambda>(_, s). stack_ok 0 s \<and> stack_len s \<le> stack_len (dstack vm)) (pop_bool (dstack vm))"
    by (auto simp: holds_def)
  then show ?thesis
    using assms unfolding check_error_condition_def
    by (auto simp: between_scripts_def engine_ok_def elim!: holds_mono)
qed

definition spk_bounded :: "ScriptEnv \<Rightarrow> bool" where
  "spk_bounded env \<longleftrightarrow> (\<forall>tx input idx e p2sh. script_source env = TxInput tx input idx e p2sh \<longrightarrow>
     length (spk_script (entry_spk e)) < 2 ^ 57)"

lemma script_inputs_ok: "spk_bounded env \<Longrightarrow> safe (script_inputs env)"
proof (cases "script_source env")
  case (TxInput tx input idx e p2sh)
  assume "spk_bounded env"
  then have "length (spk_script (entry_spk e)) < 2 ^ 57" using TxInput by (simp add: spk_bounded_def)
  then have "unat (of_nat (length (spk_script (entry_spk e)) - 35) :: u64) * unat SCRIPT_UNITS_PER_GRAM < 2 ^ 64"
    by (simp add: unat_of_nat SCRIPT_UNITS_PER_GRAM_def)
  then have "pmul (of_nat (length (spk_script (entry_spk e)) - 35)) SCRIPT_UNITS_PER_GRAM \<noteq> (Inl Panic :: u64 script_result)"
    by (simp add: pmul_eq)
  then show ?thesis
    by (auto simp: script_inputs_def TxInput safe_def Let_def bindR_eq_Inl STANDARD_SCRIPT_PUB_KEY_MAX_SIZE_def pmul_eq)
qed (simp add: script_inputs_def safe_def)

lemma execute_inner_ok:
  assumes env: "verifier_pops env" "commitments_ok env" "spk_bounded env" and vm: "between_scripts vm"
  shows "holds (\<lambda>(_, vm). between_scripts vm) (execute_inner env vm)"
proof -
  have p2sh: "holds (\<lambda>(_, vm). between_scripts vm) (bindR (check_error_condition False vm) (\<lambda>vm.
      bindR (ok_or (Err EmptyStack) saved) (\<lambda>saved.
      bindR (stack_pop saved) (\<lambda>(script, s).
      bindR (execute_script env script False (vm\<lparr>dstack := s\<rparr>)) (\<lambda>vm. Inr (Executed, vm))))))"
    if "between_scripts vm" and "\<And>s. saved = Some s \<Longrightarrow> stack_ok 0 s \<and> stack_len s \<le> MAX_STACK_SIZE" for vm saved
    unfolding holds_bindR
  proof (rule holds_mono [OF check_error_condition_ok [OF that(1)]], rule safe_holds [OF safe_intros(5)])
    fix vm' s assume vm': "between_scripts vm'" and "ok_or (Err EmptyStack) saved = Inr s"
    then have s: "stack_ok 0 s" "stack_len s \<le> MAX_STACK_SIZE" using that(2) by (auto simp: ok_or_eq)
    have ok: "engine_ok (vm'\<lparr>dstack := s'\<rparr>)" if "stack_pop s = Inr (e, s')" for e s'
    proof -
      have "stack_ok 0 s'" using stack_pop_ok [OF s(1), of "\<lambda>(_, s). stack_ok 0 s"] that by (simp add: holds_def)
      moreover have "stack_len s' \<le> stack_len s" using that by (auto simp: stack_pop_def split: if_splits)
      ultimately show ?thesis using vm' s(2) by (auto simp: between_scripts_def engine_ok_def)
    qed
    have "safe (stack_pop s)" by (simp add: safe_def stack_pop_def)
    then show "holds (\<lambda>x. holds (\<lambda>(_, vm). between_scripts vm) (case x of (script, s) \<Rightarrow>
        bindR (execute_script env script False (vm'\<lparr>dstack := s\<rparr>)) (\<lambda>vm. Inr (Executed, vm)))) (stack_pop s)"
      by (rule safe_holds) (auto intro: holds_mono [OF execute_script_ok [OF env(1,2) ok]])
  qed
  have run: "holds (\<lambda>(_, vm). between_scripts vm) (bindR (run_scripts env p vm scripts) (\<lambda>(vm, saved).
      if p then bindR (check_error_condition False vm) (\<lambda>vm.
        bindR (ok_or (Err EmptyStack) saved) (\<lambda>saved.
        bindR (stack_pop saved) (\<lambda>(script, s).
        bindR (execute_script env script False (vm\<lparr>dstack := s\<rparr>)) (\<lambda>vm. Inr (Executed, vm)))))
      else Inr (Executed, vm)))" if "between_scripts vm" for vm p scripts
    unfolding holds_bindR [of _ "run_scripts _ _ _ _"]
    by (rule holds_mono [OF run_scripts_ok [OF env(1,2) that]]) (use p2sh in \<open>auto simp del: holds_bindR\<close>)
  have consume: "holds between_scripts (vm_consume_script_units u vm)" for u
    unfolding vm_consume_script_units_def holds_bindR
    by (rule consume_ok) (use vm in \<open>auto simp: between_scripts_def engine_ok_def vm_ok_def\<close>)
  show ?thesis
    unfolding execute_inner_def holds_bindR [of _ "script_inputs env"]
    apply (rule safe_holds [OF script_inputs_ok [OF env(3)]])
    using vm run
    by (auto split: option.splits simp: holds_bindR [of _ "vm_consume_script_units _ _"]
        intro!: holds_mono [OF consume] simp del: holds_bindR)
qed

lemma engine_holds:
  fixes crypto :: ScriptCrypto
  assumes "verifier_pops crypto"
    and "\<And>a b c. acc = Some a \<Longrightarrow> seq_commitment_within_depth a b = Some c \<Longrightarrow> length c = 32"
    and "length (spk_script (entry_spk e)) < 2 ^ 57"
    and "from_transaction_input crypto tx input idx e ctx acc sigop_units limit = Inr (env, vm)"
  shows "holds (\<lambda>(_, vm). between_scripts vm) (execute_inner env vm)" "execute env vm \<noteq> Inl Panic"
proof -
  have env: "env = ScriptCrypto.extend crypto
      \<lparr>script_source = TxInput tx input idx e (is_pay_to_script_hash (spk_script (entry_spk e))),
       covenants_ctx = ctx, seq_commit_accessor = acc\<rparr>" and vm: "vm = new_engine sigop_units limit"
    using assms(4) by (auto simp: from_transaction_input_def split: if_splits)
  have "verifier_pops env" "commitments_ok env" "spk_bounded env"
    using assms(1-3) by (auto simp: env verifier_pops_def commitments_ok_def spk_bounded_def ScriptCrypto.defs)
  moreover have "between_scripts vm"
    by (simp add: vm new_engine_def between_scripts_def engine_ok_def vm_ok_def stack_ok_def Stack_new_def
        new_script_units_def meter_ok_def MAX_OPS_PER_SCRIPT_def)
  ultimately show inner: "holds (\<lambda>(_, vm). between_scripts vm) (execute_inner env vm)" by (rule execute_inner_ok)
  have "holds (\<lambda>_. True) (execute env vm)"
    unfolding execute_def holds_bindR
    by (rule holds_mono [OF inner]) (auto split: ScriptExecutionOutput.splits intro: holds_mono [OF check_error_condition_ok])
  then show "execute env vm \<noteq> Inl Panic" by (auto simp: holds_def)
qed

text \<open>A public-key output and the input that spends it, under toy cryptography: a signature is the key
  followed by the hash it signs.\<close>

definition sample_crypto :: ScriptCrypto where
  "sample_crypto =
     \<lparr>sha256 = \<lambda>_. replicate 32 0, blake2b_256 = \<lambda>_. replicate 32 0, blake2b_256_keyed = \<lambda>_ _. replicate 32 0,
      blake3_hash = \<lambda>_. replicate 32 0, blake3_keyed_hash = \<lambda>_ _. replicate 32 0,
      xonly_from_slice = \<lambda>k. length k = 32, schnorr_from_slice = \<lambda>s. length s = 64,
      schnorr_verify = \<lambda>s h k. s = k @ h, ecdsa_pk_from_slice = \<lambda>k. length k = 33,
      ecdsa_from_compact = \<lambda>s. length s = 64, ecdsa_verify = \<lambda>s h k. s = tl k @ h,
      calc_schnorr_signature_hash = \<lambda>tx i t. replicate 32 t, calc_ecdsa_signature_hash = \<lambda>tx i t. replicate 32 t,
      verify_zk = \<lambda>tag s m. Inr (s\<lparr>inner := []\<rparr>, m), sig_cache_get = Map.empty\<rparr>"

definition sample_key :: bytes where
  "sample_key = replicate 32 5"

definition sample_sig :: bytes where
  "sample_sig = sample_key @ replicate 32 1"

definition sample_p2pk_entry :: UtxoEntry where
  "sample_p2pk_entry = \<lparr>amount = 5, entry_spk = \<lparr>spk_version = 0, spk_script = 0x20 # sample_key @ [0xac]\<rparr>,
     block_daa_score = 0, entry_is_coinbase = False, covenant_id = None\<rparr>"

definition sample_p2pk_input :: TransactionInput where
  "sample_p2pk_input = \<lparr>previous_outpoint = \<lparr>transaction_id = [7], outpoint_index = 0\<rparr>,
     signature_script = 0x41 # sample_sig @ [1], sequence = 0, compute_commit = ComputeBudget 2\<rparr>"

definition sample_p2pk_spend :: PopulatedTransaction where
  "sample_p2pk_spend = \<lparr>ptx = sample_covenant_tx\<lparr>inputs := [sample_p2pk_input]\<rparr>, entries = [sample_p2pk_entry]\<rparr>"

definition sample_ctx :: CovenantsContext where
  "sample_ctx = \<lparr>input_ctxs = [], shared_ctxs = []\<rparr>"

definition sample_engine :: "(ScriptEnv \<times> ScriptVm) script_result" where
  "sample_engine = from_transaction_input sample_crypto sample_p2pk_spend sample_p2pk_input 0 sample_p2pk_entry
     sample_ctx None 100000 200000"

lemma sample_engine_eq:
  "\<exists>env vm. sample_engine = Inr (env, vm)"
  by (simp add: sample_engine_def from_transaction_input_def sample_p2pk_spend_def)

lemma sample_verifier_pops: "verifier_pops sample_crypto"
  unfolding verifier_pops_def sample_crypto_def
proof (simp, intro conjI allI)
  fix s :: Stack and m :: RuntimeResourceMeter
  show "\<exists>n. s\<lparr>inner := []\<rparr> = s\<lparr>inner := take n (inner s)\<rparr>" by (rule exI [of _ 0]) simp
  show "\<exists>r\<le>remaining_script_units m. m = m\<lparr>remaining_script_units := r\<rparr>"
    by (rule exI [of _ "remaining_script_units m"]) simp
qed

lemma sample_spk_len: "length (spk_script (entry_spk sample_p2pk_entry)) < 2 ^ 57"
  by (simp add: sample_p2pk_entry_def sample_key_def)

text \<open>C13: running the engine on a transaction input never panics, whatever the two scripts contain,
  and when it finishes the engine is within its limits: every entry of its stacks within the
  element size, the two stacks together within the stack size, no metered bytes left uncharged, the
  operation count within its limit and no more script units spent than committed.  Assumed: the proof
  verifiers only take entries off the stack and spend units, sequencing commitments are hashes and
  the script public key has fewer than \<open>2 ^ 57\<close> bytes.\<close>

theorem script_engine_safe:
  fixes crypto :: ScriptCrypto
  assumes "verifier_pops crypto"
    and "\<And>a b c. acc = Some a \<Longrightarrow> seq_commitment_within_depth a b = Some c \<Longrightarrow> length c = 32"
    and "length (spk_script (entry_spk e)) < 2 ^ 57"
    and "from_transaction_input crypto tx input idx e ctx acc sigop_units limit = Inr (env, vm)"
  shows "execute env vm \<noteq> Inl Panic \<and>
    (\<forall>out vm'. execute_inner env vm = Inr (out, vm') \<longrightarrow> engine_ok vm')"
  using engine_holds [OF assms] by (auto simp: holds_def between_scripts_def)

theorem script_engine_safe_witness:
  "\<exists>env vm. sample_engine = Inr (env, vm) \<and> execute env vm \<noteq> Inl Panic \<and>
    (\<forall>out vm'. execute_inner env vm = Inr (out, vm') \<longrightarrow> engine_ok vm')"
proof -
  obtain env vm where e: "sample_engine = Inr (env, vm)" using sample_engine_eq by blast
  with script_engine_safe [OF sample_verifier_pops _ sample_spk_len e [unfolded sample_engine_def]]
  show ?thesis by blast
qed

end
