(* ===== verification/Script_Spend.thy ===== *)
theory Script_Spend
  imports Script_Engine "HOL-Library.Sublist"
begin

text \<open>
  What a successful run of the script engine says about signatures: the spending of public-key
  outputs and the multisignature opcodes of \<^verbatim>\<open>src/crypto/txscript/src/lib.rs\<close>.
\<close>

section \<open>Spending a public-key output needs its signature\<close>

text \<open>The steps of one opcode that does run.\<close>

lemma count_ops_Inr:
  "count_ops n vm = Inr vm' \<Longrightarrow> dstack vm' = dstack vm \<and> astack vm' = astack vm \<and> cond_stack vm' = cond_stack vm \<and>
    runtime_resource_meter vm' = runtime_resource_meter vm"
  by (auto simp: count_ops_def Let_def split: if_splits)

lemma execute_opcode_Inr:
  assumes "execute_opcode env op vm = Inr vm'" and "is_executing vm \<or> is_conditional op"
  obtains vm0 vm1 where "opcode_execute env op vm0 = Inr vm1"
    and "dstack vm0 = dstack vm" and "astack vm0 = astack vm" and "cond_stack vm0 = cond_stack vm"
    and "runtime_resource_meter vm0 = runtime_resource_meter vm"
    and "inner (dstack vm') = inner (dstack vm1)" and "inner (astack vm') = inner (astack vm1)"
    and "cond_stack vm' = cond_stack vm1"
    and "used_sig_ops (runtime_resource_meter vm') = used_sig_ops (runtime_resource_meter vm1)"
proof -
  obtain vm0 where pre: "(if \<not> is_push_opcode op then count_ops 1 vm
      else if MAX_SCRIPT_ELEMENT_SIZE < length (op_data op) then
        Inl (Err (ElementTooBig (length (op_data op)) MAX_SCRIPT_ELEMENT_SIZE)) else Inr vm) = Inr vm0"
    and rest: "(if is_executing vm0 \<or> is_conditional op then
       bindR (opcode_execute env op vm0) (\<lambda>vm.
       let (pushed, vm) = vm_pop_pushed_bytes vm in
       bindR (charge_newly_pushed_bytes pushed (runtime_resource_meter vm)) (\<lambda>m.
       Inr (vm\<lparr>runtime_resource_meter := m\<rparr>)))
     else Inr vm0) = Inr vm'"
    using assms(1) unfolding execute_opcode_def bindR_eq_Inr by blast
  have vm0: "dstack vm0 = dstack vm" "astack vm0 = astack vm" "cond_stack vm0 = cond_stack vm"
    "runtime_resource_meter vm0 = runtime_resource_meter vm"
    using pre by (auto dest!: count_ops_Inr split: if_splits)
  then have "is_executing vm0 \<or> is_conditional op" using assms(2) by (simp add: is_executing_def)
  then obtain vm1 m where vm1: "opcode_execute env op vm0 = Inr vm1"
    and m: "charge_newly_pushed_bytes (fst (vm_pop_pushed_bytes vm1))
       (runtime_resource_meter (snd (vm_pop_pushed_bytes vm1))) = Inr m"
    and vm': "vm' = (snd (vm_pop_pushed_bytes vm1))\<lparr>runtime_resource_meter := m\<rparr>"
    using rest by (auto simp: bindR_eq_Inr case_prod_beta)
  have "used_sig_ops m = used_sig_ops (runtime_resource_meter vm1)"
    using m by (auto simp: charge_newly_pushed_bytes_def consume_script_units_def vm_pop_pushed_bytes_def
        pop_pushed_bytes_def Let_def bindR_eq_Inr split: option.splits)
  then show ?thesis
    using that [OF vm1 vm0] by (simp add: vm' vm_pop_pushed_bytes_def pop_pushed_bytes_def Let_def)
qed

lemma script_step_Inr:
  "script_step env only_push vm item = Inr vm' \<Longrightarrow> \<exists>op. item = Inr op \<and> execute_opcode env op vm = Inr vm' \<and>
    (only_push \<longrightarrow> is_push_opcode op) \<and> \<not> is_disabled op"
  by (cases item) (auto simp: script_step_def bindR_eq_Inr Let_def split: if_splits)

lemma execute_script_cond: "execute_script env script only_push vm = Inr vm' \<Longrightarrow> cond_stack vm' = []"
  by (auto simp: execute_script_def bindR_eq_Inr split: if_splits)

lemma parse_two: 
  assumes "wf_opcode a" and "wf_opcode b"
  shows "parse_script (serialize_opcode a @ serialize_opcode b) = [Inr a, Inr b]"
  using parse_serialized [of "[a, b]"] assms by simp

lemma parse_p2pk:
  assumes "length pk = 32"
  shows "parse_script (0x20 # pk @ [0xac]) =
    [Inr \<lparr>op_value = 0x20, op_data = pk\<rparr>, Inr \<lparr>op_value = 0xac, op_data = []\<rparr>]"
  using parse_two [of "\<lparr>op_value = 0x20, op_data = pk\<rparr>" "\<lparr>op_value = 0xac, op_data = []\<rparr>"] assms
  by (simp add: wf_opcode_def serialize_opcode_def push_len_width_def fixed_data_len_def)

text \<open>A literal push of a running engine.\<close>

lemma execute_push_Inr:
  assumes "execute_opcode env \<lparr>op_value = v, op_data = d\<rparr> vm = Inr vm'" and "is_executing vm"
    and "v \<noteq> 0" and "v \<le> 0x4e"
  shows "inner (dstack vm') = inner (dstack vm) @ [d] \<and> cond_stack vm' = cond_stack vm"
proof -
  let ?op = "\<lparr>op_value = v, op_data = d\<rparr>"
  have "v \<le> 0x60" using assms(4) by (rule order_trans) simp
  with assms show ?thesis
    by (elim execute_opcode_Inr)
      (auto simp: opcode_execute_def push_op_def push_literal_data_def push_unmetered_def on_dstack_def bindR_eq_Inr
        split: if_splits)
qed

lemma pop_raw_Inr:
  "pop_raw n s = Inr (xs, s') \<longleftrightarrow> n \<le> stack_len s \<and> xs = drop (stack_len s - n) (inner s) \<and>
    s' = s\<lparr>inner := take (stack_len s - n) (inner s)\<rparr>"
  by (auto simp: pop_raw_def split_top_def)

lemma push_bool_Inr: "push_bool b s = Inr s' \<Longrightarrow> inner s' = inner s @ [serialize_bool b]"
  by (auto simp: push_bool_def push_item_def add_pushed_bytes_def bindR_eq_Inr)

lemma check_sig_Inr:
  assumes "check_sig_op check vm = Inr vm'"
  obtains st sig key b where "inner (dstack vm) = st @ [sig, key]" and "inner (dstack vm') = st @ [serialize_bool b]"
    and "cond_stack vm' = cond_stack vm"
    and "b \<Longrightarrow> sig \<noteq> [] \<and> (\<exists>t m m'. SigHashType_from_u8 (last sig) = Some t \<and> check t key (butlast sig) m = Inr (True, m'))"
proof -
  obtain xs s where pop: "pop_raw 2 (dstack vm) = Inr (xs, s)"
    and rest: "(let sig = xs ! 0; key = xs ! 1 in
     if sig = [] then bindR (push_bool False s) (\<lambda>s. Inr (vm\<lparr>dstack := s\<rparr>))
     else
       bindR (ok_or (Err (InvalidSigHashType (last sig))) (SigHashType_from_u8 (last sig))) (\<lambda>hash_type.
       bindR (check hash_type key (butlast sig) (runtime_resource_meter vm)) (\<lambda>(valid, m).
       bindR (push_bool valid s) (\<lambda>s. Inr (vm\<lparr>dstack := s, runtime_resource_meter := m\<rparr>))))) = Inr vm'"
    using assms by (auto simp: check_sig_op_def bindR_eq_Inr)
  let ?st = "take (stack_len (dstack vm) - 2) (inner (dstack vm))"
  have "length xs = 2" "inner (dstack vm) = ?st @ xs" "inner s = ?st" using pop by (auto simp: pop_raw_Inr)
  then have dst: "inner (dstack vm) = ?st @ [xs ! 0, xs ! 1]"
    by (metis (no_types) One_nat_def length_0_conv length_Suc_conv nth_Cons_0 nth_Cons_Suc numeral_2_eq_2)
  show ?thesis
  proof (cases "xs ! 0 = []")
    case True
    then show ?thesis using rest that [OF dst, of False] push_bool_Inr \<open>inner s = ?st\<close>
      by (auto simp: bindR_eq_Inr)
  next
    case False
    then obtain t b m s' where t: "SigHashType_from_u8 (last (xs ! 0)) = Some t"
      "check t (xs ! 1) (butlast (xs ! 0)) (runtime_resource_meter vm) = Inr (b, m)"
      "push_bool b s = Inr s'" "vm' = vm\<lparr>dstack := s', runtime_resource_meter := m\<rparr>"
      using rest by (auto simp: bindR_eq_Inr ok_or_eq Let_def)
    show ?thesis
    proof (rule that [OF dst])
      show "inner (dstack vm') = ?st @ [serialize_bool b]" using push_bool_Inr [OF t(3)] \<open>inner s = ?st\<close> t(4) by simp
      show "cond_stack vm' = cond_stack vm" using t(4) by simp
      assume b
      then show "xs ! 0 \<noteq> [] \<and> (\<exists>t m m'. SigHashType_from_u8 (last (xs ! 0)) = Some t \<and>
          check t (xs ! 1) (butlast (xs ! 0)) m = Inr (True, m'))"
        using False t(1,2) by auto
    qed
  qed
qed

lemma p2pk_script_run:
  assumes run: "execute_script env (0x20 # pk @ [0xac]) False vm = Inr vm'" and pk: "length pk = 32"
    and cond: "cond_stack vm = []"
  obtains st sig b where "inner (dstack vm) = st @ [sig]" and "inner (dstack vm') = st @ [serialize_bool b]"
    and "b \<Longrightarrow> sig \<noteq> [] \<and> (\<exists>t m m'. SigHashType_from_u8 (last sig) = Some t \<and>
      check_schnorr_signature env t pk (butlast sig) m = Inr (True, m'))"
proof -
  let ?push = "\<lparr>op_value = 0x20, op_data = pk\<rparr>"
  let ?sig = "\<lparr>op_value = 0xac, op_data = []\<rparr> :: OpCode"
  obtain vm1 vm2 where step: "script_step env False vm (Inr ?push) = Inr vm1" "script_step env False vm1 (Inr ?sig) = Inr vm2"
    and vm': "vm' = vm2\<lparr>astack := stack_clear (astack vm2), num_ops := 0\<rparr>"
    using run by (auto simp: execute_script_def parse_p2pk [OF pk] bindR_eq_Inr split: if_splits)
  have "execute_opcode env ?push vm = Inr vm1" "execute_opcode env ?sig vm1 = Inr vm2"
    using script_step_Inr [OF step(1)] script_step_Inr [OF step(2)] by auto
  have push: "inner (dstack vm1) = inner (dstack vm) @ [pk]" "cond_stack vm1 = []"
    using execute_push_Inr [OF \<open>execute_opcode env ?push vm = Inr vm1\<close>] cond by (auto simp: is_executing_def)
  obtain vm1' vm2' where sig: "opcode_execute env ?sig vm1' = Inr vm2'" and "dstack vm1' = dstack vm1"
    "inner (dstack vm2) = inner (dstack vm2')"
    using execute_opcode_Inr [OF \<open>execute_opcode env ?sig vm1 = Inr vm2\<close>] push(2) by (metis is_executing_def)
  have check: "check_sig_op (check_schnorr_signature env) vm1' = Inr vm2'"
    using sig by (simp add: opcode_execute_def crypto_op_def OpCheckSig_def)
  from check obtain st sig key b where "inner (dstack vm1') = st @ [sig, key]" "inner (dstack vm2') = st @ [serialize_bool b]"
    and valid: "b \<Longrightarrow> sig \<noteq> [] \<and> (\<exists>t m m'. SigHashType_from_u8 (last sig) = Some t \<and>
      check_schnorr_signature env t key (butlast sig) m = Inr (True, m'))"
    by (rule check_sig_Inr) blast
  moreover have "inner (dstack vm) = st @ [sig]" "key = pk"
    using push(1) calculation(1) \<open>dstack vm1' = dstack vm1\<close> by auto
  ultimately show ?thesis
    using that vm' \<open>inner (dstack vm2) = inner (dstack vm2')\<close> by auto
qed

text \<open>The shape of a successful run of the engine on two scripts without a redeem script.\<close>

lemma execute_plain_Inr:
  assumes run: "execute env vm = Inr ()" and src: "script_source env = TxInput tx input idx e False"
    and spk: "spk_version (entry_spk e) = MAX_SCRIPT_PUBLIC_KEY_VERSION" "spk_script (entry_spk e) \<noteq> []"
    and vm: "cond_stack vm = []"
  obtains vm1 vm2 vm3 where "vm1 = vm\<lparr>runtime_resource_meter := runtime_resource_meter vm1\<rparr>"
    and "if signature_script input = [] then vm2 = vm1 else execute_script env (signature_script input) True vm1 = Inr vm2"
    and "execute_script env (spk_script (entry_spk e)) False vm2 = Inr vm3"
    and "\<exists>v. inner (dstack vm3) = [v] \<and> deserialize_bool v"
proof -
  obtain units where inp: "script_inputs env = Inr (Some ([signature_script input, spk_script (entry_spk e)], False, units))"
    using run spk(1) by (auto simp: execute_def execute_inner_def script_inputs_def src Let_def bindR_eq_Inr)
  obtain vm1 vm3 saved where vm1: "vm_consume_script_units units vm = Inr vm1"
    and scripts: "run_scripts env False vm1 [signature_script input, spk_script (entry_spk e)] = Inr (vm3, saved)"
    and final: "check_error_condition True vm3 \<noteq> Inl (Err EvalFalse)" "\<exists>vm4. check_error_condition True vm3 = Inr vm4"
    using run inp by (auto simp: execute_def execute_inner_def bindR_eq_Inr split: if_splits option.splits prod.splits)
  have "vm1 = vm\<lparr>runtime_resource_meter := runtime_resource_meter vm1\<rparr>"
    using vm1 by (auto simp: vm_consume_script_units_def bindR_eq_Inr)
  moreover have src': "from_tx_input env" by (simp add: from_tx_input_def src)
  obtain vm2 where "if signature_script input = [] then vm2 = vm1 else execute_script env (signature_script input) True vm1 = Inr vm2"
    and "execute_script env (spk_script (entry_spk e)) False vm2 = Inr vm3"
    using scripts spk(2) src' by (auto simp: run_scripts_def bindR_eq_Inr enumerate_eq_zip Let_def split: if_splits)
  moreover have "\<exists>v. inner (dstack vm3) = [v] \<and> deserialize_bool v"
    using final by (cases "inner (dstack vm3)"; cases "tl (inner (dstack vm3))")
      (auto simp: check_error_condition_def pop_bool_def pop_items_def split_top_def bindR_eq_Inr map_err_eq split: if_splits)
  ultimately show ?thesis by (rule that)
qed

definition sound_cache :: "'a ScriptCrypto_scheme \<Rightarrow> bool" where
  "sound_cache c \<longleftrightarrow> (\<forall>k v. sig_cache_get c k = Some v \<longrightarrow> v = verify_key c k)"

lemma sound_cache_verify: "sound_cache env \<Longrightarrow> cached_verify env k = verify_key env k"
  by (auto simp: cached_verify_def sound_cache_def split: option.splits)

lemma check_schnorr_Inr:
  assumes "check_schnorr_signature env t key sig m = Inr (True, m')" and "script_source env = TxInput tx input idx e p"
    and "sound_cache env"
  shows "xonly_from_slice env key \<and> schnorr_from_slice env sig \<and>
    schnorr_verify env sig (calc_schnorr_signature_hash env tx idx t) key"
  using assms
  by (auto simp: check_schnorr_signature_def check_schnorr_signature_with_msg_hash_def bindR_eq_Inr sound_cache_verify
      split: if_splits)

lemma p2pk_script: "is_pay_to_pubkey s \<Longrightarrow> s = 0x20 # take 32 (drop 1 s) @ [0xac] \<and> length (take 32 (drop 1 s)) = 32"
proof -
  assume s: "is_pay_to_pubkey s"
  then obtain a r where ar: "s = a # r" "length r = 33" by (cases s) (auto simp: is_pay_to_pubkey_def)
  then have "r = take 32 r @ [r ! 32]" by (metis take_Suc_conv_app_nth take_all_iff Suc_numeral lessI numeral_Bit1 numeral_inc order_refl semiring_norm(5))
  then show ?thesis using s ar by (simp add: is_pay_to_pubkey_def)
qed

text \<open>The key of a public-key output, and the engine that runs on its spending.\<close>

definition p2pk_key :: "UtxoEntry \<Rightarrow> bytes" where
  "p2pk_key e = take 32 (drop 1 (spk_script (entry_spk e)))"

lemma p2pk_engine:
  fixes crypto :: ScriptCrypto
  assumes "from_transaction_input crypto tx input idx e ctx acc sigop_units limit = Inr (env, vm)"
    and "ScriptClass_from_script (entry_spk e) = PubKey"
  shows "script_source env = TxInput tx input idx e False" "vm = new_engine sigop_units limit"
    "spk_script (entry_spk e) = 0x20 # p2pk_key e @ [0xac]" "length (p2pk_key e) = 32"
    "spk_version (entry_spk e) = MAX_SCRIPT_PUBLIC_KEY_VERSION"
    "verify_key env k = verify_key crypto k"
    "sound_cache crypto \<Longrightarrow> sound_cache env"
    "xonly_from_slice env = xonly_from_slice crypto" "schnorr_from_slice env = schnorr_from_slice crypto"
    "schnorr_verify env = schnorr_verify crypto" "calc_schnorr_signature_hash env = calc_schnorr_signature_hash crypto"
proof -
  have cls: "is_pay_to_pubkey (spk_script (entry_spk e))" "spk_version (entry_spk e) = MAX_SCRIPT_PUBLIC_KEY_VERSION"
    using assms(2) by (auto simp: ScriptClass_from_script_def split: if_splits)
  then have "\<not> is_pay_to_script_hash (spk_script (entry_spk e))" by (simp add: is_pay_to_pubkey_def is_pay_to_script_hash_def)
  then have env: "env = ScriptCrypto.extend crypto
      \<lparr>script_source = TxInput tx input idx e False, covenants_ctx = ctx, seq_commit_accessor = acc\<rparr>"
    and "vm = new_engine sigop_units limit"
    using assms(1) by (auto simp: from_transaction_input_def split: if_splits)
  then show "script_source env = TxInput tx input idx e False" "vm = new_engine sigop_units limit"
    "xonly_from_slice env = xonly_from_slice crypto" "schnorr_from_slice env = schnorr_from_slice crypto"
    "schnorr_verify env = schnorr_verify crypto" "calc_schnorr_signature_hash env = calc_schnorr_signature_hash crypto"
    by (simp_all add: ScriptCrypto.defs)
  show key: "verify_key env k = verify_key crypto k" for k by (cases k) (simp_all add: env ScriptCrypto.defs)
  show "sound_cache crypto \<Longrightarrow> sound_cache env" by (simp add: sound_cache_def key) (simp add: env ScriptCrypto.defs)
  show "spk_script (entry_spk e) = 0x20 # p2pk_key e @ [0xac]" "length (p2pk_key e) = 32"
    using p2pk_script [OF cls(1)] by (simp_all add: p2pk_key_def)
qed (use assms in \<open>auto simp: ScriptClass_from_script_def split: if_splits\<close>)

text \<open>When the engine accepts the spending of a public-key output, the signature script left
  exactly one entry, a signature followed by a hash type, and the signature verifies.\<close>

lemma p2pk_spend_is_signed:
  fixes crypto :: ScriptCrypto
  assumes "from_transaction_input crypto tx input idx e ctx acc sigop_units limit = Inr (env, vm)"
    and "ScriptClass_from_script (entry_spk e) = PubKey" and "sound_cache crypto"
    and "execute env vm = Inr ()"
  shows "\<exists>sig t. SigHashType_from_u8 t = Some t \<and> schnorr_from_slice crypto sig \<and> xonly_from_slice crypto (p2pk_key e) \<and>
    schnorr_verify crypto sig (calc_schnorr_signature_hash crypto tx idx t) (p2pk_key e) \<and>
    (\<exists>vm' vm''. execute_script env (signature_script input) True vm' = Inr vm'' \<and> inner (dstack vm') = [] \<and>
      cond_stack vm' = [] \<and> inner (dstack vm'') = [sig @ [t]])"
proof -
  let ?spk = "spk_script (entry_spk e)"
  note engine = p2pk_engine [OF assms(1,2)]
  obtain vm1 vm2 vm3 v where vm1: "vm1 = vm\<lparr>runtime_resource_meter := runtime_resource_meter vm1\<rparr>"
    and sigs: "if signature_script input = [] then vm2 = vm1 else execute_script env (signature_script input) True vm1 = Inr vm2"
    and spk: "execute_script env ?spk False vm2 = Inr vm3"
    and top: "inner (dstack vm3) = [v]" "deserialize_bool v"
    by (rule execute_plain_Inr [OF assms(4) engine(1,5)]) (simp_all add: engine(2,3) new_engine_def, blast)
  have dst: "inner (dstack vm1) = []" "cond_stack vm1 = []"
    by (subst vm1; simp add: engine(2) new_engine_def Stack_new_def)+
  have cond: "cond_stack vm2 = []" using sigs dst execute_script_cond by (auto split: if_splits)
  obtain st sig b where run: "inner (dstack vm2) = st @ [sig]" "inner (dstack vm3) = st @ [serialize_bool b]"
    "b \<Longrightarrow> sig \<noteq> [] \<and> (\<exists>t m m'. SigHashType_from_u8 (last sig) = Some t \<and>
      check_schnorr_signature env t (p2pk_key e) (butlast sig) m = Inr (True, m'))"
    using p2pk_script_run [OF spk [unfolded engine(3)] engine(4) cond] by metis
  have "st = []" "b" using run(2) top by (auto simp: serialize_bool_def deserialize_bool_def split: if_splits)
  then obtain t m m' where sig: "sig \<noteq> []" "SigHashType_from_u8 (last sig) = Some t"
    "check_schnorr_signature env t (p2pk_key e) (butlast sig) m = Inr (True, m')" using run(3) by auto
  have t: "t = last sig" using sig(2) by (auto simp: SigHashType_from_u8_def split: if_splits)
  note ok = check_schnorr_Inr [OF sig(3) engine(1) engine(7) [OF assms(3)], unfolded engine(8-11)]
  have "signature_script input \<noteq> []" using sigs dst(1) run(1) by auto
  then have "execute_script env (signature_script input) True vm1 = Inr vm2" using sigs by simp
  moreover have "inner (dstack vm2) = [butlast sig @ [t]]" using run(1) \<open>st = []\<close> sig(1) t by simp
  ultimately show ?thesis using ok sig(2) t dst by blast
qed

text \<open>The other direction: the owner's signature, pushed as the signature script, is accepted.\<close>

lemma consume_zero [simp]: "consume_script_units 0 m = Inr m"
  by (simp add: consume_script_units_def checked_sub_def)

lemma execute_literal:
  assumes "is_executing vm" and "v \<noteq> 0" and "v \<le> 0x4e" and "length d \<le> MAX_SCRIPT_ELEMENT_SIZE"
    and "pushed_bytes (dstack vm) = 0" and "pushed_bytes (astack vm) = 0"
  shows "execute_opcode env \<lparr>op_value = v, op_data = d\<rparr> vm =
    Inr (vm\<lparr>dstack := (dstack vm)\<lparr>inner := inner (dstack vm) @ [d]\<rparr>\<rparr>)"
proof -
  have "v \<le> 0x60" using assms(3) by (rule order_trans) simp
  moreover have "(dstack vm)\<lparr>pushed_bytes := 0\<rparr> = dstack vm" "(astack vm)\<lparr>pushed_bytes := 0\<rparr> = astack vm"
    using assms(5,6) by simp_all
  moreover have "vm\<lparr>dstack := s, astack := astack vm, runtime_resource_meter := runtime_resource_meter vm\<rparr> = vm\<lparr>dstack := s\<rparr>" for s
    by simp
  ultimately show ?thesis
    using assms
    by (simp add: execute_opcode_def is_push_opcode_def NO_COST_OPCODE_def opcode_execute_def push_op_def push_literal_data_def
        push_unmetered_def on_dstack_def vm_pop_pushed_bytes_def pop_pushed_bytes_def charge_newly_pushed_bytes_def
        saturating_add_def checked_add_def)
qed

lemma script_step_literal:
  assumes "is_executing vm" and "v \<noteq> 0" and "v \<le> 0x4e" and "length d \<le> MAX_SCRIPT_ELEMENT_SIZE"
    and "pushed_bytes (dstack vm) = 0" and "pushed_bytes (astack vm) = 0"
    and "stack_len (astack vm) + stack_len (dstack vm) < MAX_STACK_SIZE"
  shows "script_step env b vm (Inr \<lparr>op_value = v, op_data = d\<rparr>) =
    Inr (vm\<lparr>dstack := (dstack vm)\<lparr>inner := inner (dstack vm) @ [d]\<rparr>\<rparr>)"
proof -
  have "v \<le> 0x60" using assms(3) by (rule order_trans) simp
  moreover have "v \<notin> {0x80, 0x81, 0x8d, 0x8e, 0x98, 0x99, 0x65, 0x66}" using assms(3) by auto
  ultimately show ?thesis
    using assms(7)
    by (simp add: script_step_def is_disabled_def always_illegal_def is_push_opcode_def NO_COST_OPCODE_def
        execute_literal [OF assms(1-6)])
qed

lemma consume_enough:
  "u \<le> remaining_script_units m \<Longrightarrow>
    consume_script_units u m = Inr (m\<lparr>remaining_script_units := remaining_script_units m - u\<rparr>)"
  by (simp add: consume_script_units_def checked_sub_def)

lemma push_bool_fresh:
  "pushed_bytes s = 0 \<Longrightarrow> push_bool b s =
    Inr (s\<lparr>inner := inner s @ [serialize_bool b], pushed_bytes := of_nat (length (serialize_bool b))\<rparr>)"
  by (simp add: push_bool_def push_item_def serialize_bool_def add_pushed_bytes_def checked_add_def unwrap_def)

lemma script_step_checksig:
  assumes "is_executing vm" and "inner (dstack vm) = st @ [sig @ [t], pk]" and "pushed_bytes (dstack vm) = 0"
    and "pushed_bytes (astack vm) = 0" and "num_ops vm = 0" and "SigHashType_from_u8 t = Some t"
    and "check_schnorr_signature env t pk sig (runtime_resource_meter vm) = Inr (True, m)"
    and "1 \<le> remaining_script_units m" and "stack_len (astack vm) + stack_len (dstack vm) \<le> MAX_STACK_SIZE"
  shows "\<exists>vm'. script_step env False vm (Inr \<lparr>op_value = 0xac, op_data = []\<rparr>) = Inr vm' \<and>
    inner (dstack vm') = st @ [[1]] \<and> cond_stack vm' = cond_stack vm"
proof -
  let ?vm = "vm\<lparr>num_ops := 1\<rparr>"
  have ops: "count_ops 1 vm = Inr ?vm" using assms(5) by (simp add: count_ops_def i32_range_def MAX_OPS_PER_SCRIPT_def)
  have pop: "pop_raw 2 (dstack vm) = Inr ([sig @ [t], pk], (dstack vm)\<lparr>inner := st\<rparr>)"
    using assms(2) by (simp add: pop_raw_Inr)
  have push: "push_bool True ((dstack vm)\<lparr>inner := st\<rparr>) = Inr ((dstack vm)\<lparr>inner := st @ [[1]], pushed_bytes := 1\<rparr>)"
    using assms(3) by (simp add: push_bool_fresh serialize_bool_def)
  have check: "OpCheckSig env ?vm = Inr (?vm\<lparr>dstack := (dstack vm)\<lparr>inner := st @ [[1]], pushed_bytes := 1\<rparr>, runtime_resource_meter := m\<rparr>)"
    using assms(6,7) by (simp add: OpCheckSig_def check_sig_op_def pop push)
  have "opcode_execute env \<lparr>op_value = 0xac, op_data = []\<rparr> ?vm = OpCheckSig env ?vm"
    by (simp add: opcode_execute_def crypto_op_def)
  then show ?thesis
    using assms(1,2,4,8,9) ops check
    by (simp add: script_step_def is_disabled_def always_illegal_def is_push_opcode_def NO_COST_OPCODE_def execute_opcode_def
        is_executing_def is_conditional_def vm_pop_pushed_bytes_def pop_pushed_bytes_def charge_newly_pushed_bytes_def consume_enough
        saturating_add_def checked_add_def)
qed

lemma parse_signature_push:
  assumes "length sig = 64"
  shows "parse_script (0x41 # sig @ [t]) = [Inr \<lparr>op_value = 0x41, op_data = sig @ [t]\<rparr>]"
  using parse_serialized [of "[\<lparr>op_value = 0x41, op_data = sig @ [t]\<rparr>]"] assms
  by (simp add: wf_opcode_def serialize_opcode_def push_len_width_def fixed_data_len_def)

lemma p2pk_scripts_run:
  assumes vm: "vm = new_engine sigop_units limit" and sig: "length sig = 64" "SigHashType_from_u8 t = Some t" and pk: "length pk = 32"
    and check: "check_schnorr_signature env t pk sig (new_script_units sigop_units limit) = Inr (True, m)" "1 \<le> remaining_script_units m"
  shows "\<exists>vm1 vm2. execute_script env (0x41 # sig @ [t]) True vm = Inr vm1 \<and>
    execute_script env (0x20 # pk @ [0xac]) False vm1 = Inr vm2 \<and> inner (dstack vm2) = [[1]]"
proof -
  note parse = parse_signature_push [OF sig(1), of t]
  let ?st = "\<lambda>es. vm\<lparr>dstack := \<lparr>inner = es, pushed_bytes = 0\<rparr>\<rparr>"
  have fields: "dstack vm = \<lparr>inner = [], pushed_bytes = 0\<rparr>" "astack vm = \<lparr>inner = [], pushed_bytes = 0\<rparr>"
    "cond_stack vm = []" "num_ops vm = 0" "runtime_resource_meter vm = new_script_units sigop_units limit"
    by (simp_all add: vm new_engine_def Stack_new_def)
  have one: "execute_script env (0x41 # sig @ [t]) True vm = Inr (?st [sig @ [t]])"
    using sig(1) fields
    by (simp add: execute_script_def parse script_step_literal is_executing_def MAX_SCRIPT_ELEMENT_SIZE_def MAX_STACK_SIZE_def
        stack_clear_def)
  have "script_step env False (?st [sig @ [t]]) (Inr \<lparr>op_value = 0x20, op_data = pk\<rparr>) = Inr (?st [sig @ [t], pk])"
    using pk fields
    by (simp add: script_step_literal is_executing_def MAX_SCRIPT_ELEMENT_SIZE_def MAX_STACK_SIZE_def)
  moreover obtain vm' where "script_step env False (?st [sig @ [t], pk]) (Inr \<lparr>op_value = 0xac, op_data = []\<rparr>) = Inr vm'"
    "inner (dstack vm') = [[1]]" "cond_stack vm' = []"
    using script_step_checksig [of "?st [sig @ [t], pk]" "[]" sig t pk env m] check fields sig(2)
    by (auto simp: is_executing_def MAX_STACK_SIZE_def)
  ultimately have "execute_script env (0x20 # pk @ [0xac]) False (?st [sig @ [t]]) =
      Inr (vm'\<lparr>astack := stack_clear (astack vm'), num_ops := 0\<rparr>)"
    by (simp add: execute_script_def parse_p2pk [OF pk])
  with one show ?thesis using \<open>inner (dstack vm') = [[1]]\<close> by auto
qed

lemma saturating_mul_one: "saturating_mul 1 u = (u :: u64)"
  using unat_less_two_power [of u] by (simp add: saturating_mul_def checked_mul_def)

lemma p2pk_engine_accepts:
  fixes crypto :: ScriptCrypto
  assumes "from_transaction_input crypto tx input idx e ctx acc sigop_units limit = Inr (env, vm)"
    and "ScriptClass_from_script (entry_spk e) = PubKey" and "sound_cache crypto"
    and "xonly_from_slice crypto (p2pk_key e)" and "length sig = 64" and "schnorr_from_slice crypto sig"
    and "SigHashType_from_u8 t = Some t"
    and "schnorr_verify crypto sig (calc_schnorr_signature_hash crypto tx idx t) (p2pk_key e)"
    and "signature_script input = 0x41 # sig @ [t]" and "unat sigop_units < unat limit"
  shows "\<exists>vm'. execute_inner env vm = Inr (Executed, vm') \<and> inner (dstack vm') = [[1]]"
proof -
  note engine = p2pk_engine [OF assms(1,2)]
  have units: "sigop_units \<le> limit" "1 \<le> limit - sigop_units"
    using assms(10) by (simp_all add: word_le_nat_alt unat_sub)
  then obtain m where m: "check_schnorr_signature env t (p2pk_key e) sig (new_script_units sigop_units limit) = Inr (True, m)"
    "1 \<le> remaining_script_units m"
    using assms(4,6,8) sound_cache_verify [OF engine(7) [OF assms(3)]]
    by (simp add: check_schnorr_signature_def check_schnorr_signature_with_msg_hash_def consume_sig_op_cost_def engine
        consume_enough new_script_units_def saturating_mul_one)
  obtain vm1 vm2 where run: "execute_script env (0x41 # sig @ [t]) True vm = Inr vm1"
    "execute_script env (0x20 # p2pk_key e @ [0xac]) False vm1 = Inr vm2" "inner (dstack vm2) = [[1]]"
    using p2pk_scripts_run [OF engine(2) assms(5,7) engine(4) m] by blast
  have meter: "vm\<lparr>runtime_resource_meter := runtime_resource_meter vm\<rparr> = vm" by simp
  have "execute_inner env vm = Inr (Executed, vm2)"
    using run assms(5,9) engine(1,3-5)
    by (simp add: execute_inner_def script_inputs_def vm_consume_script_units_def meter run_scripts_def from_tx_input_def
        STANDARD_SCRIPT_PUB_KEY_MAX_SIZE_def pmul_def checked_mul_def unwrap_def MAX_SCRIPTS_SIZE_def enumerate_eq_zip)
  with run(3) show ?thesis by blast
qed

lemma execute_inner_true:
  "execute_inner env vm = Inr (Executed, vm') \<Longrightarrow> inner (dstack vm') = [[1]] \<Longrightarrow> execute env vm = Inr ()"
  by (simp add: execute_def check_error_condition_def pop_bool_def pop_items_def split_top_def deserialize_bool_def)

text \<open>C21: conversely the owner can spend: when the signature script pushes a 64-byte signature and a
  hash type that verify under the output's key, and the script units cover one signature
  operation and the byte pushed by its answer, the engine accepts.\<close>

theorem p2pk_owner_can_spend:
  fixes crypto :: ScriptCrypto
  assumes "from_transaction_input crypto tx input idx e ctx acc sigop_units limit = Inr (env, vm)"
    and "ScriptClass_from_script (entry_spk e) = PubKey" and "sound_cache crypto"
    and "xonly_from_slice crypto (p2pk_key e)" and "length sig = 64" and "schnorr_from_slice crypto sig"
    and "SigHashType_from_u8 t = Some t"
    and "schnorr_verify crypto sig (calc_schnorr_signature_hash crypto tx idx t) (p2pk_key e)"
    and "signature_script input = 0x41 # sig @ [t]" and "unat sigop_units < unat limit"
  shows "execute env vm = Inr ()"
  using p2pk_engine_accepts [OF assms] execute_inner_true by blast

lemma sample_p2pk:
  "ScriptClass_from_script (entry_spk sample_p2pk_entry) = PubKey" "sound_cache sample_crypto"
  "xonly_from_slice sample_crypto (p2pk_key sample_p2pk_entry)" "length sample_sig = 64"
  "schnorr_from_slice sample_crypto sample_sig" "SigHashType_from_u8 1 = Some 1"
  "schnorr_verify sample_crypto sample_sig (calc_schnorr_signature_hash sample_crypto sample_p2pk_spend 0 1)
     (p2pk_key sample_p2pk_entry)"
  "signature_script sample_p2pk_input = 0x41 # sample_sig @ [1]" "unat (100000 :: u64) < unat (200000 :: u64)"
  by (simp_all add: ScriptClass_from_script_def is_pay_to_pubkey_def sample_p2pk_entry_def sample_key_def sample_sig_def
      sound_cache_def sample_crypto_def p2pk_key_def SigHashType_from_u8_def sample_p2pk_input_def
      MAX_SCRIPT_PUBLIC_KEY_VERSION_def nth_append)

theorem p2pk_owner_can_spend_witness:
  "\<exists>env vm. sample_engine = Inr (env, vm) \<and> execute env vm = Inr ()"
proof -
  obtain env vm where e: "sample_engine = Inr (env, vm)" using sample_engine_eq by blast
  with p2pk_owner_can_spend [OF e [unfolded sample_engine_def] sample_p2pk]
  show ?thesis by blast
qed

section \<open>Multisignatures\<close>

text \<open>What the two loops compute: every signature in turn takes the first key left that accepts it.\<close>

fun greedy :: "('s \<Rightarrow> 'k \<Rightarrow> bool) \<Rightarrow> 's list \<Rightarrow> 'k list \<Rightarrow> bool" where
  "greedy ok [] keys = True"
| "greedy ok (s # sigs) [] = False"
| "greedy ok (s # sigs) (k # keys) = (if ok s k then greedy ok sigs keys else greedy ok (s # sigs) keys)"

text \<open>Some keys, in their order, accept the signatures one by one.\<close>

definition matches :: "('s \<Rightarrow> 'k \<Rightarrow> bool) \<Rightarrow> 's list \<Rightarrow> 'k list \<Rightarrow> bool" where
  "matches ok sigs keys \<longleftrightarrow> (\<exists>ks. subseq ks keys \<and> list_all2 ok sigs ks)"

lemma matches_drop_key: "matches ok (s # sigs) (k # keys) \<Longrightarrow> matches ok sigs keys"
proof -
  assume "matches ok (s # sigs) (k # keys)"
  then obtain a ks where sub: "subseq (a # ks) (k # keys)" and "list_all2 ok sigs ks"
    by (auto simp: matches_def list_all2_Cons1)
  moreover have "subseq ks keys"
    using sub by (cases "a = k") (auto intro: subseq_Cons')
  ultimately show ?thesis by (auto simp: matches_def)
qed

lemma matches_step:
  "matches ok (s # sigs) (k # keys) \<longleftrightarrow> (if ok s k then matches ok sigs keys else matches ok (s # sigs) keys)"
proof (cases "ok s k")
  case True
  moreover have "matches ok (s # sigs) (k # keys)" if "matches ok sigs keys"
  proof -
    from that obtain ks where "subseq ks keys" "list_all2 ok sigs ks" by (auto simp: matches_def)
    then have "subseq (k # ks) (k # keys)" "list_all2 ok (s # sigs) (k # ks)" using True by auto
    then show ?thesis unfolding matches_def by blast
  qed
  ultimately show ?thesis using matches_drop_key by metis
next
  case False
  have "subseq ks keys" if "subseq ks (k # keys)" "list_all2 ok (s # sigs) ks" for ks
    using that False by (cases ks) (auto split: if_splits)
  then show ?thesis using False unfolding matches_def by (auto intro: list_emb_Cons)
qed

lemma greedy_iff_matches: "greedy ok sigs keys \<longleftrightarrow> matches ok sigs keys"
proof (induction ok sigs keys rule: greedy.induct)
  case (1 ok keys)
  then show ?case by (auto simp: matches_def)
next
  case (2 ok s sigs)
  then show ?case by (auto simp: matches_def list_all2_Cons1)
qed (simp add: matches_step)

lemma greedy_length: "greedy ok sigs keys \<Longrightarrow> length sigs \<le> length keys"
  using list_emb_length by (fastforce simp: greedy_iff_matches matches_def dest: list_all2_lengthD)

text \<open>A check that answers \<open>v\<close> for one signature operation's worth of script units.\<close>

definition pays :: "u64 \<Rightarrow> (RuntimeResourceMeter \<Rightarrow> (bool \<times> RuntimeResourceMeter) script_result) \<Rightarrow> bool \<Rightarrow> bool" where
  "pays u check v \<longleftrightarrow> (\<forall>m. sigop_script_units m = u \<longrightarrow> u \<le> remaining_script_units m \<longrightarrow>
     (\<exists>m'. check m = Inr (v, m') \<and> sigop_script_units m' = u \<and>
        unat (remaining_script_units m) = unat u + unat (remaining_script_units m')))"

lemma multisig_inner_greedy:
  assumes "\<And>key. key \<in> set keys \<Longrightarrow> pays u (check key) (ok s key)" and "length sigs < needed" and "needed \<le> length sigs + 1"
    and "sigop_script_units m = u" and "length keys * unat u \<le> unat (remaining_script_units m)"
  shows "\<exists>found rest m'. multisig_inner check needed keys m = Inr (found, rest, m') \<and> set rest \<subseteq> set keys \<and>
    sigop_script_units m' = u \<and> length rest * unat u \<le> unat (remaining_script_units m') \<and>
    (greedy ok (s # sigs) keys \<longleftrightarrow> found \<and> greedy ok sigs rest)"
  using assms
proof (induction keys arbitrary: m)
  case (Cons key keys)
  show ?case
  proof (cases "length (key # keys) < needed")
    case True
    then have "\<not> greedy ok (s # sigs) (key # keys)" using greedy_length [of ok "s # sigs" "key # keys"] Cons.prems(3) by auto
    then show ?thesis using True Cons.prems by auto
  next
    case False
    have "unat u \<le> unat (remaining_script_units m)" using Cons.prems(5) by simp
    then obtain m' where m': "check key m = Inr (ok s key, m')" "sigop_script_units m' = u"
      "unat (remaining_script_units m) = unat u + unat (remaining_script_units m')"
      using Cons.prems(1,4) unfolding pays_def by (metis list.set_intros(1) word_le_nat_alt)
    then have units: "length keys * unat u \<le> unat (remaining_script_units m')" using Cons.prems(5) by simp
    show ?thesis
    proof (cases "ok s key")
      case True
      then show ?thesis using False m' units by auto
    next
      case invalid: False
      from Cons.IH [OF Cons.prems(1) Cons.prems(2,3) m'(2) units] show ?thesis
        using False invalid m'(1) by fastforce
    qed
  qed
qed auto

lemma multisig_outer_greedy:
  assumes "\<And>s key. s \<in> set sigs \<Longrightarrow> key \<in> set keys \<Longrightarrow> pays u (check (last s) key (butlast s)) (ok s key)"
    and "\<And>s. s \<in> set sigs \<Longrightarrow> s \<noteq> [] \<and> SigHashType_from_u8 (last s) = Some (last s)"
    and "sigop_script_units m = u" and "length keys * unat u \<le> unat (remaining_script_units m)"
  shows "\<exists>m'. multisig_outer check sigs keys m = Inr (\<not> greedy ok sigs keys, m')"
  using assms
proof (induction sigs arbitrary: keys m)
  case (Cons s sigs)
  have s: "s \<noteq> []" "SigHashType_from_u8 (last s) = Some (last s)" using Cons.prems(2) by auto
  obtain found rest m' where inner: "multisig_inner (\<lambda>key. check (last s) key (butlast s)) (length (s # sigs)) keys m = Inr (found, rest, m')"
    "set rest \<subseteq> set keys" "sigop_script_units m' = u" "length rest * unat u \<le> unat (remaining_script_units m')"
    "greedy ok (s # sigs) keys \<longleftrightarrow> found \<and> greedy ok sigs rest"
    using multisig_inner_greedy [of keys u "\<lambda>key. check (last s) key (butlast s)" ok s sigs "length (s # sigs)" m] Cons.prems(1,3,4)
    by auto
  have "\<exists>m''. multisig_outer check sigs rest m' = Inr (\<not> greedy ok sigs rest, m'')"
    using Cons.IH [OF Cons.prems(1) Cons.prems(2) inner(3,4)] inner(2) by auto
  then show ?case using s inner(1,5) by (cases found) auto
qed simp

text \<open>The answer of the signature library for a signature with its hash type and a key.\<close>

definition signs_input :: "ScriptEnv \<Rightarrow> PopulatedTransaction \<Rightarrow> nat \<Rightarrow> bytes \<Rightarrow> bytes \<Rightarrow> bool" where
  "signs_input env tx idx sig key \<longleftrightarrow>
     schnorr_verify env (butlast sig) (calc_schnorr_signature_hash env tx idx (last sig)) key"

lemma schnorr_pays:
  assumes "script_source env = TxInput tx input idx e p" and "sound_cache env" and "xonly_from_slice env key"
    and "schnorr_from_slice env (butlast sig)"
  shows "pays u (check_schnorr_signature env (last sig) key (butlast sig)) (signs_input env tx idx sig key)"
  unfolding pays_def
proof (intro allI impI)
  fix m :: RuntimeResourceMeter assume m: "sigop_script_units m = u" "u \<le> remaining_script_units m"
  let ?m = "m\<lparr>used_sig_ops := saturating_add (used_sig_ops m) 1, remaining_script_units := remaining_script_units m - u\<rparr>"
  have "consume_sig_op_cost 1 m = Inr ?m"
    using m by (simp add: consume_sig_op_cost_def consume_enough saturating_mul_one)
  then have "check_schnorr_signature env (last sig) key (butlast sig) m = Inr (signs_input env tx idx sig key, ?m)"
    using assms by (simp add: signs_input_def check_schnorr_signature_def check_schnorr_signature_with_msg_hash_def sound_cache_verify)
  moreover have "unat (remaining_script_units m) = unat u + unat (remaining_script_units m - u)"
    using m(2) by (simp add: unat_sub word_le_nat_alt)
  ultimately show "\<exists>m'. check_schnorr_signature env (last sig) key (butlast sig) m = Inr (signs_input env tx idx sig key, m') \<and>
      sigop_script_units m' = u \<and> unat (remaining_script_units m) = unat u + unat (remaining_script_units m')"
    using m(1) by (intro exI [of _ ?m]) simp
qed

lemma take_items_split: "inner s = st @ xs \<Longrightarrow> take_items (length xs) s = Inr (xs, s\<lparr>inner := st\<rparr>)"
  by (simp add: take_items_def split_top_def)

lemma pop_item_split:
  "inner s = st @ [x] \<Longrightarrow> deser x = Inr y \<Longrightarrow> pop_items deser 1 s = Inr ([y], s\<lparr>inner := st\<rparr>)"
  by (simp add: pop_items_def split_top_def)

text \<open>C16: \<^verbatim>\<open>OpCheckMultiSig\<close> on well-formed keys and signatures with enough script units pushes true exactly
  when some of the keys, in their order, accept the signatures one by one; otherwise it fails.  The
  early exit and the single pass through the keys lose no valid combination.\<close>

theorem multisig_exact:
  assumes src: "script_source env = TxInput tx input idx e p" "sound_cache env" and vm: "vm_ok 0 vm"
    and stack: "inner (dstack vm) = st @ sigs @ [num_sigs] @ keys @ [num_keys]"
    and counts: "deserialize_entry_i32 num_sigs = Inr (int (length sigs))"
      "deserialize_entry_i32 num_keys = Inr (int (length keys))" "0 < length sigs" "length sigs \<le> length keys" "length keys \<le> 20"
    and good: "list_all (xonly_from_slice env) keys"
      "list_all (\<lambda>s. s \<noteq> [] \<and> SigHashType_from_u8 (last s) = Some (last s) \<and> schnorr_from_slice env (butlast s)) sigs"
    and units: "length keys * unat (sigop_script_units (runtime_resource_meter vm)) \<le>
      unat (remaining_script_units (runtime_resource_meter vm))" "num_ops vm + int (length keys) \<le> MAX_OPS_PER_SCRIPT"
  shows "if matches (signs_input env tx idx) sigs keys
    then \<exists>vm'. OpCheckMultiSig env vm = Inr vm' \<and> inner (dstack vm') = st @ [[1]]
    else OpCheckMultiSig env vm = Inl (Err NullFail)"
proof -
  let ?ok = "signs_input env tx idx"
  let ?m = "runtime_resource_meter vm"
  have ops: "count_ops (int (length keys)) vm = Inr (vm\<lparr>num_ops := num_ops vm + int (length keys)\<rparr>)"
    using vm units(2) by (simp add: count_ops_def vm_ok_def i32_range_def MAX_OPS_PER_SCRIPT_def)
  have "\<exists>m'. multisig_outer (check_schnorr_signature env) sigs keys ?m = Inr (\<not> greedy ?ok sigs keys, m')"
  proof (rule multisig_outer_greedy [where u = "sigop_script_units ?m"])
    fix s key assume s: "s \<in> set sigs" and "key \<in> set keys"
    then show "pays (sigop_script_units ?m) (check_schnorr_signature env (last s) key (butlast s)) (?ok s key)"
      using good by (intro schnorr_pays [OF src]) (simp_all add: list_all_iff)
  qed (use good units(1) in \<open>simp_all add: list_all_iff\<close>)
  then obtain m' where outer: "multisig_outer (check_schnorr_signature env) sigs keys ?m = Inr (\<not> matches ?ok sigs keys, m')"
    unfolding greedy_iff_matches by blast
  let ?s = "\<lambda>es. (dstack vm)\<lparr>inner := es\<rparr>"
  have "pushed_bytes (dstack vm) = 0" using vm_okD(1) [OF vm] by (simp add: stack_ok_def unat_eq_0)
  then have push: "push_bool True (?s st) = Inr ((dstack vm)\<lparr>inner := st @ [[1]], pushed_bytes := 1\<rparr>)"
    by (simp add: push_bool_fresh serialize_bool_def)
  have run: "pop_items deserialize_entry_i32 1 (dstack vm) = Inr ([int (length keys)], ?s (st @ sigs @ [num_sigs] @ keys))"
    using pop_item_split [of "dstack vm" "st @ sigs @ [num_sigs] @ keys" num_keys deserialize_entry_i32] counts(2) stack by simp
  have run2: "pop_items deserialize_entry_i32 1 (?s (st @ sigs @ [num_sigs])) = Inr ([int (length sigs)], ?s (st @ sigs))"
    using pop_item_split [of "?s (st @ sigs @ [num_sigs])" "st @ sigs" num_sigs] counts(1) by simp
  have take: "take_items (length keys) (?s (st @ sigs @ [num_sigs] @ keys)) = Inr (keys, ?s (st @ sigs @ [num_sigs]))"
    "take_items (length sigs) (?s (st @ sigs)) = Inr (sigs, ?s st)"
    using take_items_split [of "?s (st @ sigs @ [num_sigs] @ keys)" "st @ sigs @ [num_sigs]" keys]
      take_items_split [of "?s (st @ sigs)" st sigs] by simp_all
  have range: "(int (length keys) < 0 \<or> MAX_PUB_KEYS_PER_MUTLTISIG < int (length keys)) = False"
    "(int (length sigs) < 0 \<or> int (length keys) < int (length sigs)) = False"
    using counts(4,5) by (simp_all add: MAX_PUB_KEYS_PER_MUTLTISIG_def)
  have some: "(\<exists>s \<in> set sigs. s \<noteq> []) = True" using counts(3) good(2) by (cases sigs) auto
  have "OpCheckMultiSig env vm = (if matches ?ok sigs keys
      then Inr (vm\<lparr>num_ops := num_ops vm + int (length keys), dstack := (dstack vm)\<lparr>inner := st @ [[1]], pushed_bytes := 1\<rparr>,
        runtime_resource_meter := m'\<rparr>) else Inl (Err NullFail))"
    unfolding OpCheckMultiSig_def op_check_multisig_def
    by (simp only: run bindR_simps prod.case Let_def nth_Cons_0 range if_False nat_int ops take run2 ScriptVm.simps outer some
        simp_thms split: if_split) (simp add: outer push)
  then show ?thesis by simp
qed

definition sample_multisig_env :: ScriptEnv where
  "sample_multisig_env = ScriptCrypto.extend sample_crypto
     \<lparr>script_source = TxInput sample_p2pk_spend sample_p2pk_input 0 sample_p2pk_entry False,
      covenants_ctx = sample_ctx, seq_commit_accessor = None\<rparr>"

definition sample_keys :: "bytes list" where
  "sample_keys = [replicate 32 5, replicate 32 6, replicate 32 7]"

definition sample_sigs :: "bytes list" where
  "sample_sigs = [replicate 32 5 @ replicate 32 1 @ [1], replicate 32 7 @ replicate 32 2 @ [2]]"

definition sample_multisig_vm :: ScriptVm where
  "sample_multisig_vm = (new_engine 100000 1000000)
     \<lparr>dstack := \<lparr>inner = sample_sigs @ [[2]] @ sample_keys @ [[3]], pushed_bytes = 0\<rparr>\<rparr>"

theorem multisig_exact_witness:
  "\<exists>vm'. OpCheckMultiSig sample_multisig_env sample_multisig_vm = Inr vm' \<and> inner (dstack vm') = [[1]]"
proof -
  let ?env = sample_multisig_env and ?vm = sample_multisig_vm
  have src: "script_source ?env = TxInput sample_p2pk_spend sample_p2pk_input 0 sample_p2pk_entry False" "sound_cache ?env"
    by (simp_all add: sample_multisig_env_def ScriptCrypto.defs sample_crypto_def sound_cache_def)
  have vm: "vm_ok 0 ?vm"
    by (simp add: vm_ok_def stack_ok_def sample_multisig_vm_def new_engine_def new_script_units_def meter_ok_def
        sample_sigs_def sample_keys_def Stack_new_def MAX_SCRIPT_ELEMENT_SIZE_def MAX_OPS_PER_SCRIPT_def)
  have stack: "inner (dstack ?vm) = [] @ sample_sigs @ [[2]] @ sample_keys @ [[3]]" by (simp add: sample_multisig_vm_def)
  have counts: "deserialize_entry_i32 [2] = Inr (int (length sample_sigs))"
    "deserialize_entry_i32 [3] = Inr (int (length sample_keys))" "0 < length sample_sigs"
    "length sample_sigs \<le> length sample_keys" "length sample_keys \<le> 20"
    by (simp_all add: sample_sigs_def sample_keys_def) code_simp+
  have good: "list_all (xonly_from_slice ?env) sample_keys"
    "list_all (\<lambda>s. s \<noteq> [] \<and> SigHashType_from_u8 (last s) = Some (last s) \<and> schnorr_from_slice ?env (butlast s)) sample_sigs"
    by (simp_all add: sample_multisig_env_def ScriptCrypto.defs sample_crypto_def sample_sigs_def sample_keys_def
        SigHashType_from_u8_def butlast_append)
  have units: "length sample_keys * unat (sigop_script_units (runtime_resource_meter ?vm)) \<le>
      unat (remaining_script_units (runtime_resource_meter ?vm))" "num_ops ?vm + int (length sample_keys) \<le> MAX_OPS_PER_SCRIPT"
    by (simp_all add: sample_multisig_vm_def new_engine_def new_script_units_def sample_keys_def MAX_OPS_PER_SCRIPT_def)
  have "matches (signs_input ?env sample_p2pk_spend 0) sample_sigs sample_keys"
    by (simp add: greedy_iff_matches [symmetric] sample_sigs_def sample_keys_def signs_input_def sample_multisig_env_def
        ScriptCrypto.defs sample_crypto_def butlast_append)
  with multisig_exact [OF src vm stack counts good units] show ?thesis by simp
qed

end
