(* ===== verification/Script_Sigops.thy ===== *)
theory Script_Sigops
  imports Script_Spend
begin

text \<open>
  The signature operations of a script, and pay-to-script-hash outputs.

  \<^item> What the opcodes charge: at most one signature operation, and a multisignature opcode at
    most the number of keys on the stack (\<open>used_opcode\<close>).
  \<^item> The loop of \<^verbatim>\<open>p2sh_sig_scanner\<close> follows the engine: \<open>scan_inv\<close> relates its state to the engine's
    and is kept by every opcode (\<open>scan_step_inv\<close>, \<open>execute_script_used\<close>).
  \<^item> A signature script only pushes, the script public key compares the hash of the last push
    (\<open>p2sh_key_run\<close>), and the redeem script is the one the scanner reads (\<open>redeem_script_run\<close>).
  \<^item> The static count of \<^verbatim>\<open>get_sig_op_count_upper_bound\<close> panics on sixteen keys.
\<close>

section \<open>The signature operations a script uses\<close>

abbreviation used :: "ScriptVm \<Rightarrow> nat" where
  "used vm \<equiv> unat (used_sig_ops (runtime_resource_meter vm))"

lemma consume_used: "consume_script_units u m = Inr m' \<Longrightarrow> used_sig_ops m' = used_sig_ops m"
  by (auto simp: consume_script_units_def bindR_eq_Inr split: option.splits)

lemma unat_saturating_add_le: "unat (saturating_add a b) \<le> unat a + unat (b :: 'a::len word)"
  by (simp add: unat_saturating_add)

text \<open>A check that counts at most one signature operation.\<close>

definition counts_one :: "(RuntimeResourceMeter \<Rightarrow> (bool \<times> RuntimeResourceMeter) script_result) \<Rightarrow> bool" where
  "counts_one check \<longleftrightarrow> (\<forall>m b m'. check m = Inr (b, m') \<longrightarrow> unat (used_sig_ops m') \<le> unat (used_sig_ops m) + 1)"

lemma sig_op_counts: "consume_sig_op_cost 1 m = Inr m' \<Longrightarrow> unat (used_sig_ops m') \<le> unat (used_sig_ops m) + 1"
proof -
  assume "consume_sig_op_cost 1 m = Inr m'"
  then obtain m1 where "consume_script_units (saturating_mul 1 (sigop_script_units m)) m = Inr m1"
    and m': "m' = m1\<lparr>used_sig_ops := saturating_add (used_sig_ops m1) 1\<rparr>"
    by (auto simp: consume_sig_op_cost_def bindR_eq_Inr)
  then show ?thesis using consume_used unat_saturating_add_le [of "used_sig_ops m1" 1] by simp
qed

lemma checks_count:
  "counts_one (check_schnorr_signature_with_msg_hash env key sig h)"
  "counts_one (check_ecdsa_signature_with_msg_hash env key sig h)"
  "counts_one (check_schnorr_signature env t key sig)"
  "counts_one (check_ecdsa_signature env t key sig)"
proof -
  show *: "counts_one (check_schnorr_signature_with_msg_hash env key sig h)"
    "counts_one (check_ecdsa_signature_with_msg_hash env key sig h)" for h
    by (auto simp: counts_one_def check_schnorr_signature_with_msg_hash_def check_ecdsa_signature_with_msg_hash_def bindR_eq_Inr
        split: if_splits dest!: sig_op_counts)
  show "counts_one (check_schnorr_signature env t key sig)" "counts_one (check_ecdsa_signature env t key sig)"
    using * by (auto simp: counts_one_def check_schnorr_signature_def check_ecdsa_signature_def split: ScriptSource.splits)
qed

lemma used_on_dstack: "on_dstack f vm = Inr vm' \<Longrightarrow> used vm' = used vm"
  by (auto simp: on_dstack_def bindR_eq_Inr)

lemma used_control: "control_op op vm = Inr vm' \<Longrightarrow> used vm' = used vm"
  by (auto simp: control_op_def Let_def OpIf_def OpNotIf_def OpElse_def OpEndIf_def bindR_eq_Inr
      split: if_splits dest: used_on_dstack)

lemma used_stack_opcode: "stack_opcode v vm = Inr vm' \<Longrightarrow> used vm' = used vm"
  by (auto simp: stack_opcode_def OpToAltStack_def OpFromAltStack_def bindR_eq_Inr split: if_splits dest: used_on_dstack)

lemma used_hash:
  "hash_op price h vm = Inr vm' \<Longrightarrow> used vm' = used vm"
  "OpBlake2bWithKey env vm = Inr vm' \<Longrightarrow> used vm' = used vm"
  "OpBlake3WithKey env vm = Inr vm' \<Longrightarrow> used vm' = used vm"
  by (auto simp: hash_op_def OpBlake2bWithKey_def OpBlake3WithKey_def vm_consume_script_units_def bindR_eq_Inr Let_def
      split: if_splits dest!: used_on_dstack consume_used)

lemma used_zk: "verifier_pops env \<Longrightarrow> OpZkPrecompile env vm = Inr vm' \<Longrightarrow> used vm' = used vm"
proof -
  assume zk: "verifier_pops env" and "OpZkPrecompile env vm = Inr vm'"
  then obtain tag s m s' m' where m: "consume_script_units (ZkTag_cost tag) (runtime_resource_meter vm) = Inr m"
    "verify_zk env tag s m = Inr (s', m')" "runtime_resource_meter vm' = m'"
    by (auto simp: OpZkPrecompile_def bindR_eq_Inr)
  then obtain r where "m' = m\<lparr>remaining_script_units := r\<rparr>" using zk unfolding verifier_pops_def by blast
  then show ?thesis using m consume_used by auto
qed

lemma used_check_sig:
  assumes "\<And>t key sig. counts_one (check t key sig)" and "check_sig_op check vm = Inr vm'"
  shows "used vm' \<le> used vm + 1"
  using assms(2) assms(1)
  by (fastforce simp: check_sig_op_def counts_one_def bindR_eq_Inr Let_def split: if_splits)

lemma used_check_from_stack:
  assumes "\<And>key sig h. counts_one (check key sig h)" and "check_sig_from_stack check vm = Inr vm'"
  shows "used vm' \<le> used vm + 1"
  using assms(2) assms(1)
  by (fastforce simp: check_sig_from_stack_def counts_one_def bindR_eq_Inr Let_def split: if_splits)

lemma used_multisig_inner:
  assumes "\<And>key. counts_one (check key)"
  shows "multisig_inner check needed keys m = Inr (found, rest, m') \<Longrightarrow>
    unat (used_sig_ops m') + length rest \<le> unat (used_sig_ops m) + length keys"
proof (induction keys arbitrary: m)
  case (Cons key keys)
  show ?case
  proof (cases "length (key # keys) < needed")
    case False
    then obtain b m1 where c: "check key m = Inr (b, m1)"
      and r: "(if b then Inr (True, keys, m1) else multisig_inner check needed keys m1) = Inr (found, rest, m')"
      using Cons.prems by (auto simp: bindR_eq_Inr)
    have "unat (used_sig_ops m1) \<le> unat (used_sig_ops m) + 1" using assms c by (auto simp: counts_one_def)
    then show ?thesis using r Cons.IH [of m1] by (cases b) fastforce+
  qed (use Cons.prems in auto)
qed (auto split: if_splits)

lemma used_multisig_outer:
  assumes "\<And>t key sig. counts_one (check t key sig)"
  shows "multisig_outer check sigs keys m = Inr (failed, m') \<Longrightarrow>
    unat (used_sig_ops m') \<le> unat (used_sig_ops m) + length keys"
proof (induction sigs arbitrary: keys m)
  case (Cons sig sigs)
  show ?case
  proof (cases "sig = []")
    case False
    then obtain t found rest m1 where
      i: "multisig_inner (\<lambda>key. check t key (butlast sig)) (length (sig # sigs)) keys m = Inr (found, rest, m1)"
      and r: "(if found then multisig_outer check sigs rest m1 else Inr (True, m1)) = Inr (failed, m')"
      using Cons.prems by (auto simp: bindR_eq_Inr)
    have "unat (used_sig_ops m1) + length rest \<le> unat (used_sig_ops m) + length keys"
      by (rule used_multisig_inner [OF _ i]) (rule assms)
    then show ?thesis using r Cons.IH [of rest m1] by (cases found) fastforce+
  qed (use Cons.prems in auto)
qed simp

text \<open>The number of keys a multisignature opcode takes off the stack.\<close>

lemma used_multisig:
  assumes "\<And>t key sig. counts_one (check t key sig)" and run: "op_check_multisig check vm = Inr vm'"
  shows "\<exists>st e n. inner (dstack vm) = st @ [e] \<and> deserialize_entry_i32 e = Inr n \<and> n \<le> 20 \<and> used vm' \<le> used vm + nat n"
proof -
  obtain xs s where pop: "pop_items deserialize_entry_i32 1 (dstack vm) = Inr (xs, s)"
    and range: "0 \<le> xs ! 0" "xs ! 0 \<le> 20"
    and "\<exists>vm1 keys s1 sigs failed. count_ops (xs ! 0) vm = Inr vm1 \<and> take_items (nat (xs ! 0)) s = Inr (keys, s1) \<and>
      multisig_outer check sigs keys (runtime_resource_meter vm1) = Inr (failed, runtime_resource_meter vm')"
    using run
    by (auto simp: op_check_multisig_def bindR_eq_Inr Let_def MAX_PUB_KEYS_PER_MUTLTISIG_def split: if_splits) blast+
  then obtain vm1 keys s1 sigs failed where m: "count_ops (xs ! 0) vm = Inr vm1"
    "take_items (nat (xs ! 0)) s = Inr (keys, s1)"
    "multisig_outer check sigs keys (runtime_resource_meter vm1) = Inr (failed, runtime_resource_meter vm')" by blast
  have "length keys = nat (xs ! 0)"
    using m(2) by (auto simp: take_items_def split_top_def split: if_splits)
  moreover have "used vm' \<le> used vm + length keys"
    using used_multisig_outer [OF assms(1) m(3)] m(1) by (auto dest: count_ops_Inr)
  moreover have "\<exists>st e. inner (dstack vm) = st @ [e] \<and> deserialize_entry_i32 e = Inr (xs ! 0)"
    using pop by (cases "inner (dstack vm)" rule: rev_cases)
      (auto simp: pop_items_def split_top_def bindR_eq_Inr map_err_eq split: if_splits)
  ultimately show ?thesis using range(2) by metis
qed

abbreviation counted :: "u8 \<Rightarrow> ScriptVm \<Rightarrow> ScriptVm \<Rightarrow> bool" where
  "counted v vm vm' \<equiv> used vm' \<le> used vm + (if v \<in> single_sig_ops then 1 else 0) \<or> v \<in> multi_sig_ops \<and>
     (\<exists>st e n. inner (dstack vm) = st @ [e] \<and> deserialize_entry_i32 e = Inr n \<and> n \<le> 20 \<and> used vm' \<le> used vm + nat n)"

lemma used_crypto:
  assumes zk: "verifier_pops env" and run: "crypto_op env v vm = Inr vm'"
  shows "counted v vm vm'"
proof -
  have verify: "\<exists>vm1. f vm = Inr vm1 \<and> used vm' = used vm1" if "bindR (f vm) (on_dstack OpVerify) = Inr vm'" for f
    using that used_on_dstack by (auto simp: bindR_eq_Inr)
  consider "v \<in> {0xa6, 0xa7, 0xa8, 0xaa, 0xd9}" | "v \<in> {0xab, 0xac, 0xad}" | "v \<in> {0xa9, 0xae, 0xaf}" | "v \<in> {0xd7, 0xd8}"
    | "crypto_op env v = OpBlake3WithKey env"
    by (cases "v \<in> {0xa6, 0xa7, 0xa8, 0xaa, 0xd9, 0xab, 0xac, 0xad, 0xa9, 0xae, 0xaf, 0xd7, 0xd8}") (auto simp: crypto_op_def)
  then show ?thesis
  proof cases
    case 1
    then show ?thesis using run used_zk [OF zk] used_hash
      by (auto simp: crypto_op_def OpSHA256_def OpBlake2b_def OpBlake3_def)
  next
    case 2
    have "used vm' \<le> used vm + 1"
      using 2 run used_check_sig [OF checks_count(3)] used_check_sig [OF checks_count(4)] verify [of "OpCheckSig env"]
      by (auto simp: crypto_op_def OpCheckSig_def OpCheckSigECDSA_def OpCheckSigVerify_def)
    then show ?thesis using 2 by (auto simp: single_sig_ops_def)
  next
    case 3
    then show ?thesis
      using run used_multisig [OF checks_count(3)] used_multisig [OF checks_count(4)] verify [of "OpCheckMultiSig env"]
      by (auto simp: crypto_op_def OpCheckMultiSig_def OpCheckMultiSigECDSA_def OpCheckMultiSigVerify_def multi_sig_ops_def)
  next
    case 4
    then show ?thesis
      using run used_check_from_stack [OF checks_count(1)] used_check_from_stack [OF checks_count(2)]
      by (auto simp: crypto_op_def OpCheckSigFromStack_def OpCheckSigFromStackECDSA_def single_sig_ops_def)
  next
    case 5
    then show ?thesis using run used_hash by auto
  qed
qed

lemma used_opcode:
  assumes zk: "verifier_pops env" and run: "opcode_execute env op vm = Inr vm'"
  shows "counted (op_value op) vm vm'"
proof -
  have "crypto_op env (op_value op) vm = Inr vm' \<or> used vm' = used vm"
    using run
    by (auto simp: opcode_execute_def Let_def split: if_splits dest: used_on_dstack used_control used_stack_opcode)
  then show ?thesis
  proof
    assume "crypto_op env (op_value op) vm = Inr vm'"
    then show ?thesis by (rule used_crypto [OF zk])
  qed simp
qed

section \<open>What the scanner counts\<close>

lemma small_number_bytes: "0 < n \<Longrightarrow> n < 128 \<Longrightarrow> number_bytes False n = [of_nat n]"
  by (simp add: number_bytes_pos)

text \<open>A push opcode of a running engine, and the entry it leaves.\<close>

definition pushed_entry :: "OpCode \<Rightarrow> bytes" where
  "pushed_entry op =
     (if op_value op = 0 then [] else if op_value op \<le> 0x4e then op_data op
      else if op_value op = 0x4f then [0x81] else [op_value op - 0x50])"

lemma push_op_Inr:
  assumes "push_op op s = Inr s'" and "op_value op \<le> 0x60"
  shows "inner s' = inner s @ [pushed_entry op] \<and> op_value op \<noteq> 0x50"
proof -
  let ?v = "op_value op"
  have lit: "push_literal_data d s = Inr s' \<Longrightarrow> inner s' = inner s @ [d]" for d
    by (auto simp: push_literal_data_def push_unmetered_def split: if_splits)
  have num: "push_literal_number n s = Inr s' \<Longrightarrow> serialize_entry_i64 n = Inr e \<Longrightarrow> inner s' = inner s @ [e]" for n e
    by (auto simp: push_literal_number_def push_item_unmetered_def bindR_eq_Inr)
  have small: "serialize_entry_i64 (int k) = Inr [of_nat k]" if "0 < k" "k < 128" for k
    using that by (simp add: serialize_entry_i64_eq small_number_bytes)
  have minus: "serialize_entry_i64 (- 1) = Inr [0x81]"
    by (simp add: serialize_entry_i64_eq small_number_bytes negate_bytes_def)
  show ?thesis
  proof (cases "?v \<le> 0x4e \<or> ?v = 0x4f \<or> ?v = 0x50")
    case True
    then show ?thesis using assms(1) lit num [OF _ minus]
      by (auto simp: push_op_def Let_def pushed_entry_def split: if_splits)
  next
    case False
    then have big: "0x50 < unat ?v" "unat ?v \<le> 0x60"
      using assms(2) by (auto simp: word_le_nat_alt word_unat_eq_iff)
    then have "int (unat ?v) - 0x50 = int (unat ?v - 0x50)" by simp
    moreover have "?v \<noteq> 0" using big by auto
    moreover have "(of_nat (unat ?v - 0x50) :: u8) = ?v - 0x50"
      using big by (simp add: of_nat_diff)
    ultimately show ?thesis
      using False assms(1) num [OF _ small [of "unat ?v - 0x50"]] big
      by (simp add: push_op_def Let_def pushed_entry_def)
  qed
qed

lemma execute_push_entry:
  assumes run: "execute_opcode env op vm = Inr vm'" and exec: "is_executing vm" and push: "is_push_opcode op"
  shows "inner (dstack vm') = inner (dstack vm) @ [pushed_entry op]" "cond_stack vm' = cond_stack vm" "used vm' = used vm"
    "op_value op \<noteq> 0x50"
proof -
  have v: "op_value op \<le> 0x60" using push by (simp add: is_push_opcode_def NO_COST_OPCODE_def)
  obtain vm0 vm1 where "opcode_execute env op vm0 = Inr vm1" and vm0: "dstack vm0 = dstack vm" "cond_stack vm0 = cond_stack vm"
    "runtime_resource_meter vm0 = runtime_resource_meter vm" "inner (dstack vm') = inner (dstack vm1)"
    "cond_stack vm' = cond_stack vm1" "used_sig_ops (runtime_resource_meter vm') = used_sig_ops (runtime_resource_meter vm1)"
    using execute_opcode_Inr [OF run] exec by metis
  then obtain s where s: "push_op op (dstack vm) = Inr s" "vm1 = vm0\<lparr>dstack := s\<rparr>"
    using v by (auto simp: opcode_execute_def on_dstack_def bindR_eq_Inr)
  show "inner (dstack vm') = inner (dstack vm) @ [pushed_entry op]" "cond_stack vm' = cond_stack vm" "used vm' = used vm"
    "op_value op \<noteq> 0x50"
    using push_op_Inr [OF s(1) v] s(2) vm0 by auto
qed

lemma execute_skipped:
  assumes "execute_opcode env op vm = Inr vm'" and "\<not> is_executing vm" and "\<not> is_conditional op"
  shows "dstack vm' = dstack vm \<and> cond_stack vm' = cond_stack vm \<and> used vm' = used vm"
proof -
  have "vm' = vm \<or> count_ops 1 vm = Inr vm'"
    using assms count_ops_Inr by (fastforce simp: execute_opcode_def bindR_eq_Inr is_executing_def split: if_splits)
  then show ?thesis by (auto dest: count_ops_Inr)
qed

text \<open>The scanner's state describes the engine's: the count bounds the signature operations used,
  and the remembered number of keys is what a running engine has on top of its stack.\<close>

definition scan_inv :: "nat \<Rightarrow> u64 \<times> u64 option \<Rightarrow> ScriptVm \<Rightarrow> bool" where
  "scan_inv u st vm \<longleftrightarrow> used vm \<le> u + unat (fst st) \<and>
     (\<forall>c. snd st = Some c \<longrightarrow> is_executing vm \<longrightarrow>
        (\<exists>es e. inner (dstack vm) = es @ [e] \<and> (\<forall>n. deserialize_entry_i32 e = Inr n \<longrightarrow> n = int (unat c))))"

lemma deserialize_entry_i32_Inr: "deserialize_entry_i32 e = Inr n \<Longrightarrow> deserialize_i64 e = Inr n"
  by (auto simp: deserialize_entry_i32_def deserialize_sized_def bindR_eq_Inr split: if_splits)

lemma saturating_bound:
  assumes "x \<le> u + unat a + d" and "x < 2 ^ 16" and "d \<le> unat b"
  shows "x \<le> u + unat (saturating_add a (b :: u64))"
  using assms by (simp add: unat_saturating_add)

lemma used_small: "used vm < 2 ^ 16"
  using unat_less_two_power [of "used_sig_ops (runtime_resource_meter vm)"] by simp

text \<open>The number of keys the scanner remembers after a push.\<close>

definition scanned_count :: "OpCode \<Rightarrow> u64 option" where
  "scanned_count op =
     (if 0x51 \<le> op_value op \<and> op_value op \<le> 0x60 then Some (ucast (op_value op - 0x51 + 1))
      else if op_value op \<le> 0x4e then pushed_key_count (op_data op) else None)"

lemma scanned_count_pushed:
  assumes "scanned_count op = Some c" and "wf_opcode op" and "deserialize_entry_i32 (pushed_entry op) = Inr n"
  shows "n = int (unat c)"
proof (cases "0x51 \<le> op_value op \<and> op_value op \<le> 0x60")
  case True
  let ?v = "op_value op"
  have big: "0x51 \<le> unat ?v" "unat ?v \<le> 0x60" using True by (auto simp: word_le_nat_alt)
  have sub: "unat (?v - 0x50) = unat ?v - 0x50" using big by (simp add: unat_sub word_le_nat_alt)
  have entry: "pushed_entry op = [?v - 0x50]"
    using big by (auto simp: pushed_entry_def word_le_nat_alt word_unat_eq_iff)
  have "c = ucast (?v - 0x50)" using assms(1) True by (simp add: scanned_count_def)
  then have "unat c = unat ?v - 0x50" using sub big by (simp add: unsigned_ucast_eq take_bit_nat_eq_self_iff)
  moreover have "deserialize_i64 [?v - 0x50] = Inr (int (unat ?v - 0x50))"
    using deserialize_signed(1) [of "[?v - 0x50]"] big sub by simp
  ultimately show ?thesis using deserialize_entry_i32_Inr [OF assms(3)] by (simp add: entry)
next
  case False
  then have le: "op_value op \<le> 0x4e" and c: "pushed_key_count (op_data op) = Some c"
    using assms(1) by (auto simp: scanned_count_def split: if_splits)
  then obtain k where k: "deserialize_i64 (op_data op) = Inr k" "1 \<le> k" "k \<le> 20" "c = of_int k"
    by (auto simp: pushed_key_count_def MAX_PUB_KEYS_PER_MUTLTISIG_def split: sum.splits if_splits)
  have "op_value op \<noteq> 0"
  proof
    assume "op_value op = 0"
    then have "op_data op = []" using assms(2) by (simp add: wf_opcode_def push_len_width_def fixed_data_len_def)
    then show False using k by (simp add: deserialize_i64_def)
  qed
  then have "pushed_entry op = op_data op" using le by (simp add: pushed_entry_def)
  then have "n = k" using deserialize_entry_i32_Inr [OF assms(3)] k(1) by simp
  moreover have "int (unat c) = k" using k by (simp add: uint_word_of_int)
  ultimately show ?thesis by simp
qed
lemma used_execute:
  assumes zk: "verifier_pops env" and run: "execute_opcode env op vm = Inr vm'"
  shows "used vm' \<le> used vm + (if op_value op \<in> single_sig_ops then 1 else 0) \<or>
    op_value op \<in> multi_sig_ops \<and> is_executing vm \<and>
    (\<exists>st e n. inner (dstack vm) = st @ [e] \<and> deserialize_entry_i32 e = Inr n \<and> n \<le> 20 \<and> used vm' \<le> used vm + nat n)"
proof (cases "is_executing vm \<or> is_conditional op")
  case True
  obtain vm0 vm1 where op: "opcode_execute env op vm0 = Inr vm1" and vm0: "dstack vm0 = dstack vm"
    "runtime_resource_meter vm0 = runtime_resource_meter vm"
    "used_sig_ops (runtime_resource_meter vm') = used_sig_ops (runtime_resource_meter vm1)"
    using execute_opcode_Inr [OF run True] by metis
  have "counted (op_value op) vm vm'"
    using used_opcode [OF zk op] unfolding vm0 .
  moreover have "op_value op \<in> multi_sig_ops \<Longrightarrow> \<not> is_conditional op"
    by (auto simp: multi_sig_ops_def is_conditional_def)
  ultimately show ?thesis using True by argo
next
  case False
  then show ?thesis using execute_skipped [OF run] by auto
qed

lemma scan_step_eq:
  "scan_step (s, c) (Inr op) = Inr
    (if op_value op \<in> single_sig_ops then (saturating_add s 1, None)
     else if op_value op \<in> multi_sig_ops then (saturating_add s (case c of Some c \<Rightarrow> c | None \<Rightarrow> 20), None)
     else (s, scanned_count op))"
  by (cases c) (simp_all add: scan_step_def scanned_count_def MAX_PUB_KEYS_PER_MUTLTISIG_def Let_def)

lemma scan_step_inv:
  assumes zk: "verifier_pops env" and run: "execute_opcode env op vm = Inr vm'" and wf: "wf_opcode op"
    and inv: "scan_inv u (s, c) vm"
  shows "\<exists>st. scan_step (s, c) (Inr op) = Inr st \<and> scan_inv u st vm'"
proof -
  have le: "used vm \<le> u + unat s" using inv by (simp add: scan_inv_def)
  consider (single) "op_value op \<in> single_sig_ops" | (multi) "op_value op \<in> multi_sig_ops" "op_value op \<notin> single_sig_ops"
    | (other) "op_value op \<notin> single_sig_ops" "op_value op \<notin> multi_sig_ops" by blast
  then show ?thesis
  proof cases
    case single
    then have "op_value op \<notin> multi_sig_ops" by (auto simp: single_sig_ops_def multi_sig_ops_def)
    then have "used vm' \<le> u + unat s + 1" using used_execute [OF zk run] single le by auto
    then have "used vm' \<le> u + unat (saturating_add s 1)" by (rule saturating_bound [OF _ used_small]) simp
    then show ?thesis using single by (simp add: scan_step_eq scan_inv_def)
  next
    case multi
    let ?k = "case c of Some c \<Rightarrow> c | None \<Rightarrow> 20"
    have "used vm' \<le> u + unat s + unat ?k"
    proof (cases "used vm' \<le> used vm")
      case False
      then obtain st e n where e: "is_executing vm" "inner (dstack vm) = st @ [e]" "deserialize_entry_i32 e = Inr n" "n \<le> 20"
        "used vm' \<le> used vm + nat n" using used_execute [OF zk run] multi(2) by auto
      have "nat n \<le> unat ?k"
        using inv e(1-4) by (cases c) (auto simp: scan_inv_def)
      then show ?thesis using e(5) le by linarith
    qed (use le in linarith)
    then have "used vm' \<le> u + unat (saturating_add s ?k)" by (rule saturating_bound [OF _ used_small]) simp
    then show ?thesis using multi by (simp add: scan_step_eq scan_inv_def)
  next
    case other
    then have same: "used vm' \<le> u + unat s" using used_execute [OF zk run] le by auto
    have "\<exists>es e. inner (dstack vm') = es @ [e] \<and> (\<forall>n. deserialize_entry_i32 e = Inr n \<longrightarrow> n = int (unat k))"
      if k: "scanned_count op = Some k" and exec: "is_executing vm'" for k
    proof -
      have push: "is_push_opcode op"
        using k by (auto simp: scanned_count_def is_push_opcode_def NO_COST_OPCODE_def split: if_splits elim: order_trans)
      then have "\<not> is_conditional op" by (auto simp: is_push_opcode_def NO_COST_OPCODE_def is_conditional_def word_le_nat_alt)
      have "is_executing vm"
      proof (rule ccontr)
        assume "\<not> is_executing vm"
        then have "cond_stack vm' = cond_stack vm" using execute_skipped [OF run _ \<open>\<not> is_conditional op\<close>] by blast
        then show False using exec \<open>\<not> is_executing vm\<close> by (simp add: is_executing_def)
      qed
      then have "inner (dstack vm') = inner (dstack vm) @ [pushed_entry op]" using execute_push_entry(1) [OF run _ push] by simp
      then show ?thesis using scanned_count_pushed [OF k wf] by blast
    qed
    then show ?thesis using other same by (simp add: scan_step_eq scan_inv_def)
  qed
qed

lemma scan_loop_inv:
  assumes zk: "verifier_pops env"
  shows "fold_result (script_step env b) vm (map Inr ops) = Inr vm' \<Longrightarrow> list_all wf_opcode ops \<Longrightarrow> scan_inv u st vm \<Longrightarrow>
    \<exists>st'. fold_result scan_step st (map Inr ops) = Inr st' \<and> scan_inv u st' vm'"
proof (induction ops arbitrary: vm st)
  case (Cons op ops)
  obtain s c where st: "st = (s, c)" by force
  obtain vm1 where step: "script_step env b vm (Inr op) = Inr vm1" and rest: "fold_result (script_step env b) vm1 (map Inr ops) = Inr vm'"
    using Cons.prems(1) by (auto simp: bindR_eq_Inr)
  have "execute_opcode env op vm = Inr vm1" using script_step_Inr [OF step] by auto
  then obtain st1 where "scan_step st (Inr op) = Inr st1" "scan_inv u st1 vm1"
    using scan_step_inv [OF zk, of op vm vm1 u s c] Cons.prems(2,3) unfolding st by auto
  then show ?case using Cons.IH [OF rest] Cons.prems(2) by auto
qed simp

lemma script_steps_parse:
  "fold_result (script_step env b) vm items = Inr vm' \<Longrightarrow> \<exists>ops. items = map Inr ops"
proof (induction items arbitrary: vm)
  case (Cons x items)
  then obtain vm1 where "script_step env b vm x = Inr vm1" "fold_result (script_step env b) vm1 items = Inr vm'"
    by (auto simp: bindR_eq_Inr)
  then obtain op ops where "x = Inr op" "items = map Inr ops" using script_step_Inr [of env b vm x vm1] Cons.IH [of vm1] by blast
  then have "x # items = map Inr (op # ops)" by simp
  then show ?case by (intro exI)
qed simp

text \<open>A script that runs to its end uses at most the signature operations the scanner counts in it.\<close>

lemma execute_script_used:
  assumes zk: "verifier_pops env" and run: "execute_script env script b vm = Inr vm'"
  shows "used vm' \<le> used vm + unat (scan_script script)"
proof -
  obtain vm1 where fold: "fold_result (script_step env b) vm (parse_script script) = Inr vm1" and "used vm' = used vm1"
    using run by (auto simp: execute_script_def bindR_eq_Inr split: if_splits)
  obtain ops where ops: "parse_script script = map Inr ops" using script_steps_parse [OF fold] by blast
  then have "list_all wf_opcode ops" using parsed_serialize by blast
  then obtain st where "fold_result scan_step (0, None) (map Inr ops) = Inr st" "scan_inv (used vm) st vm1"
    using scan_loop_inv [OF zk fold [unfolded ops], of "used vm" "(0, None)"] by (auto simp: scan_inv_def)
  then show ?thesis
    using ops \<open>used vm' = used vm1\<close> by (cases st) (simp add: scan_script_def scan_inv_def)
qed

section \<open>Pay to script hash\<close>

text \<open>A signature script only pushes.\<close>

lemma push_script_run:
  "fold_result (script_step env True) vm (map Inr ops) = Inr vm' \<Longrightarrow> cond_stack vm = [] \<Longrightarrow>
    inner (dstack vm') = inner (dstack vm) @ map pushed_entry ops \<and> cond_stack vm' = [] \<and> used vm' = used vm"
proof (induction ops arbitrary: vm)
  case (Cons op ops)
  obtain vm1 where step: "script_step env True vm (Inr op) = Inr vm1"
    and rest: "fold_result (script_step env True) vm1 (map Inr ops) = Inr vm'"
    using Cons.prems(1) by (auto simp: bindR_eq_Inr)
  have op: "execute_opcode env op vm = Inr vm1" "is_push_opcode op" using script_step_Inr [OF step] by auto
  have "is_executing vm" using Cons.prems(2) by (simp add: is_executing_def)
  note push = execute_push_entry [OF op(1) this op(2)]
  show ?case using Cons.IH [OF rest] push Cons.prems(2) by simp
qed simp

lemma push_script_used:
  assumes "execute_script env script True vm = Inr vm'" and "cond_stack vm = []"
  shows "\<exists>ops. parse_script script = map Inr ops \<and> inner (dstack vm') = inner (dstack vm) @ map pushed_entry ops \<and>
    used vm' = used vm"
proof -
  obtain vm1 where fold: "fold_result (script_step env True) vm (parse_script script) = Inr vm1" and "used vm' = used vm1"
    and "dstack vm' = dstack vm1"
    using assms(1) by (auto simp: execute_script_def bindR_eq_Inr split: if_splits)
  moreover obtain ops where ops: "parse_script script = map Inr ops" using script_steps_parse [OF fold] by blast
  ultimately show ?thesis using push_script_run [OF _ assms(2)] by auto
qed

text \<open>A one-byte script made of a push opcode with data missing, or of a disabled opcode, cannot run.\<close>

lemma one_byte_script:
  assumes run: "execute_script env [v] b vm = Inr vm'"
  shows "\<not> (1 \<le> unat v \<and> unat v \<le> 0x4b) \<and> v \<noteq> 0x81"
proof -
  obtain vm1 where fold: "fold_result (script_step env b) vm (parse_script [v]) = Inr vm1"
    using run by (auto simp: execute_script_def bindR_eq_Inr)
  obtain ops where ops: "parse_script [v] = map Inr ops" using script_steps_parse [OF fold] by blast
  have wf: "list_all wf_opcode ops" and bytes: "[v] = concat (map serialize_opcode ops)" using parsed_serialize [OF ops] by auto
  obtain op rest where cons: "ops = op # rest" using bytes by (cases ops) auto
  have short: "length (serialize_opcode op) \<le> 1" using arg_cong [OF bytes, of length] by (simp add: cons)
  have v: "op_value op = v" using bytes by (simp add: cons serialize_opcode_def split: option.splits)
  have "\<not> is_disabled op" using fold unfolding ops cons by (auto simp: bindR_eq_Inr dest!: script_step_Inr)
  moreover have "\<not> (1 \<le> unat v \<and> unat v \<le> 0x4b)"
  proof
    assume small: "1 \<le> unat v \<and> unat v \<le> 0x4b"
    then have "push_len_width v = None" "v \<le> 0x4b" by (auto simp: push_len_width_def word_le_nat_alt)
    then show False using wf short small by (simp add: cons wf_opcode_def serialize_opcode_def v fixed_data_len_def)
  qed
  ultimately show ?thesis by (auto simp: is_disabled_def v)
qed

lemma parse_p2sh:
  assumes "is_pay_to_script_hash spk"
  shows "parse_script spk = map Inr [\<lparr>op_value = 0xaa, op_data = []\<rparr>, \<lparr>op_value = 0x20, op_data = take 32 (drop 2 spk)\<rparr>,
    \<lparr>op_value = 0x87, op_data = []\<rparr>]"
proof -
  define h where "h = take 32 (drop 2 spk)"
  have len: "length spk = 35" using assms by (simp add: is_pay_to_script_hash_def)
  obtain x y r where r: "spk = x # y # r" "length r = 33"
    using len by (cases spk; cases "tl spk") auto
  then have "r = take 32 r @ [r ! 32]" using take_Suc_conv_app_nth [of 32 r] by simp
  then have "spk = [spk ! 0, spk ! 1] @ h @ [spk ! 34]" using r by (simp add: h_def)
  then have spk: "spk = concat (map serialize_opcode [\<lparr>op_value = 0xaa, op_data = []\<rparr>, \<lparr>op_value = 0x20, op_data = h\<rparr>,
      \<lparr>op_value = 0x87, op_data = []\<rparr>])"
    using assms by (simp add: is_pay_to_script_hash_def serialize_opcode_def push_len_width_def)
  show ?thesis
    by (subst spk, fold h_def, rule parse_serialized) (simp add: wf_opcode_def push_len_width_def fixed_data_len_def h_def len)
qed

lemma p2sh_script_scan: "is_pay_to_script_hash spk \<Longrightarrow> scan_script spk = 0"
  by (simp add: scan_script_def parse_p2sh scan_step_eq single_sig_ops_def multi_sig_ops_def)

text \<open>The script public key replaces the redeem script by whether its hash is the committed one.\<close>

lemma p2sh_key_run:
  assumes run: "execute_script env spk False vm = Inr vm'" and spk: "is_pay_to_script_hash spk" and cond: "cond_stack vm = []"
  shows "\<exists>st r. inner (dstack vm) = st @ [r] \<and>
    inner (dstack vm') = st @ [if blake2b_256 env r = take 32 (drop 2 spk) then [1] else []]"
proof -
  let ?h = "take 32 (drop 2 spk)"
  let ?hash = "\<lparr>op_value = 0xaa, op_data = []\<rparr> :: OpCode" and ?push = "\<lparr>op_value = 0x20, op_data = ?h\<rparr> :: OpCode"
    and ?eq = "\<lparr>op_value = 0x87, op_data = []\<rparr> :: OpCode"
  obtain vm1 vm2 vm3 where step: "script_step env False vm (Inr ?hash) = Inr vm1" "script_step env False vm1 (Inr ?push) = Inr vm2"
    "script_step env False vm2 (Inr ?eq) = Inr vm3" and vm': "dstack vm' = dstack vm3"
    using run by (auto simp: execute_script_def parse_p2sh [OF spk] bindR_eq_Inr split: if_splits)
  have ops: "execute_opcode env ?hash vm = Inr vm1" "execute_opcode env ?push vm1 = Inr vm2" "execute_opcode env ?eq vm2 = Inr vm3"
    using step [THEN script_step_Inr] by auto
  obtain w w1 where hash: "opcode_execute env ?hash w = Inr w1" and w: "dstack w = dstack vm" "cond_stack w = cond_stack vm"
    "inner (dstack vm1) = inner (dstack w1)" "cond_stack vm1 = cond_stack w1"
    using execute_opcode_Inr [OF ops(1)] cond by (metis is_executing_def)
  obtain st r where vm: "inner (dstack vm) = st @ [r]" and vm1: "inner (dstack vm1) = st @ [blake2b_256 env r]" "cond_stack vm1 = []"
    using hash cond w
    by (cases "inner (dstack vm)" rule: rev_cases)
      (auto simp: opcode_execute_def crypto_op_def OpBlake2b_def hash_op_def pop_raw_Inr vm_consume_script_units_def on_dstack_def
        stack_push_def add_pushed_bytes_def unwrap_def bindR_eq_Inr split: if_splits option.splits)
  have vm2: "inner (dstack vm2) = st @ [blake2b_256 env r, ?h]" "cond_stack vm2 = []"
    using execute_push_Inr [OF ops(2)] vm1 by (auto simp: is_executing_def)
  obtain x x1 where eq: "opcode_execute env ?eq x = Inr x1" and x: "dstack x = dstack vm2" "inner (dstack vm3) = inner (dstack x1)"
    using execute_opcode_Inr [OF ops(3)] vm2(2) by (metis is_executing_def)
  have "inner (dstack vm3) = st @ [if blake2b_256 env r = ?h then [1] else []]"
    using eq x vm2(1)
    by (auto simp: opcode_execute_def splice_op_def on_dstack_def equal_ops_pop pop_raw_Inr stack_push_def add_pushed_bytes_def
        unwrap_def bindR_eq_Inr split: if_splits option.splits)
  with vm vm' show ?thesis by auto
qed

text \<open>The redeem script the engine runs is the one the scanner reads.\<close>

lemma redeem_script_run:
  assumes ops: "parse_script sig_script = map Inr ops" "ops \<noteq> []"
    and run: "execute_script env (pushed_entry (last ops)) False vm = Inr vm'" and zk: "verifier_pops env"
    and push: "op_value (last ops) \<le> 0x60" "op_value (last ops) \<noteq> 0x50"
  shows "used vm' \<le> used vm + unat (case redeem_script sig_script of None \<Rightarrow> 0 | Some script \<Rightarrow> scan_script script)"
proof -
  let ?op = "last ops"
  have wf: "wf_opcode ?op" using parsed_serialize [OF ops(1)] ops(2) by (simp add: list_all_iff)
  have "collect_results id (parse_script sig_script) = Inr ops"
    by (simp add: ops(1) collect_results_Inr list_all2_map1 list_all2_same)
  then have red: "redeem_script sig_script = Some (op_data ?op)" using ops by (simp add: redeem_script_def)
  have "pushed_entry ?op = op_data ?op"
  proof (cases "op_value ?op \<le> 0x4e")
    case True
    then show ?thesis using wf
      by (auto simp: pushed_entry_def wf_opcode_def push_len_width_def fixed_data_len_def)
  next
    case False
    then have big: "0x4f \<le> unat (op_value ?op)" "unat (op_value ?op) \<le> 0x60" using push(1) by (auto simp: word_le_nat_alt)
    have sub: "unat (op_value ?op - 0x50) = unat (op_value ?op) - 0x50" if "op_value ?op \<noteq> 0x4f"
      using that big push(2) by (subst unat_sub) (auto simp: word_le_nat_alt word_unat_eq_iff)
    have zero: "op_value ?op \<noteq> 0" using big by auto
    have False
    proof (cases "op_value ?op = 0x4f")
      case True
      then show False using run one_byte_script [where v = "0x81"] by (simp add: pushed_entry_def)
    next
      case neq: False
      have "unat (op_value ?op) \<noteq> 0x50" "unat (op_value ?op) \<noteq> 0x4f" using push(2) neq by (auto simp: word_unat_eq_iff)
      then show False
        using run one_byte_script [where v = "op_value ?op - 0x50"] neq False zero big sub [OF neq]
        by (fastforce simp: pushed_entry_def)
    qed
    then show ?thesis ..
  qed
  then show ?thesis using execute_script_used [OF zk run] by (simp add: red)
qed

lemma push_script_last:
  assumes "execute_script env script True vm = Inr vm'" and "cond_stack vm = []" and "parse_script script = map Inr ops" and "ops \<noteq> []"
  shows "op_value (last ops) \<le> 0x60 \<and> op_value (last ops) \<noteq> 0x50"
proof -
  obtain vm1 where fold: "fold_result (script_step env True) vm (map Inr ops) = Inr vm1"
    using assms(1,3) by (auto simp: execute_script_def bindR_eq_Inr)
  obtain ops' op where ops: "ops = ops' @ [op]" using assms(4) by (metis append_butlast_last_id)
  obtain vm2 where first: "fold_result (script_step env True) vm (map Inr ops') = Inr vm2"
    and step: "script_step env True vm2 (Inr op) = Inr vm1"
    using fold by (auto simp: ops fold_result_append bindR_eq_Inr)
  have exec: "is_executing vm2" using push_script_run [OF first assms(2)] by (simp add: is_executing_def)
  have op: "execute_opcode env op vm2 = Inr vm1" "is_push_opcode op" using script_step_Inr [OF step] by auto
  have "op_value op \<noteq> 0x50" by (rule execute_push_entry(4) [OF op(1) exec op(2)])
  then show ?thesis using op(2) by (simp add: ops is_push_opcode_def NO_COST_OPCODE_def)
qed

text \<open>The shape of a successful run of the engine on a pay-to-script-hash output.\<close>

lemma execute_p2sh_Inr:
  assumes run: "execute_inner env vm = Inr (Executed, vm')" and src: "script_source env = TxInput tx input idx e True"
    and spk: "spk_script (entry_spk e) \<noteq> []" and vm: "inner (dstack vm) = []" "cond_stack vm = []"
  obtains vm1 vm2 vm3 vm4 where "inner (dstack vm1) = []" and "cond_stack vm1 = []" and "used vm1 = used vm"
    and "execute_script env (signature_script input) True vm1 = Inr vm2"
    and "execute_script env (spk_script (entry_spk e)) False vm2 = Inr vm3"
    and "inner (dstack vm2) \<noteq> []" and "inner (dstack vm3) \<noteq> [] \<longrightarrow> deserialize_bool (last (inner (dstack vm3)))"
    and "inner (dstack vm4) = butlast (inner (dstack vm2))" and "used vm4 = used vm3"
    and "execute_script env (last (inner (dstack vm2))) False vm4 = Inr vm'"
proof -
  obtain units where inp: "script_inputs env = Inr (Some ([signature_script input, spk_script (entry_spk e)], True, units))"
    using run by (auto simp: execute_inner_def script_inputs_def src Let_def bindR_eq_Inr split: if_splits)
  obtain vm1 vm3 saved where vm1: "vm_consume_script_units units vm = Inr vm1"
    and scripts: "run_scripts env True vm1 [signature_script input, spk_script (entry_spk e)] = Inr (vm3, saved)"
    and rest: "bindR (check_error_condition False vm3) (\<lambda>vm.
               bindR (ok_or (Err EmptyStack) saved) (\<lambda>saved.
               bindR (stack_pop saved) (\<lambda>(script, s).
               bindR (execute_script env script False (vm\<lparr>dstack := s\<rparr>)) (\<lambda>vm.
               Inr (Executed, vm))))) = Inr (Executed, vm')"
    using run inp by (auto simp: execute_inner_def bindR_eq_Inr split: if_splits option.splits prod.splits)
  have meter: "inner (dstack vm1) = []" "cond_stack vm1 = []" "used vm1 = used vm"
    using vm1 vm consume_used by (auto simp: vm_consume_script_units_def bindR_eq_Inr)
  have src': "from_tx_input env" by (simp add: from_tx_input_def src)
  obtain vm2 where sig: "if signature_script input = [] then vm2 = vm1 else execute_script env (signature_script input) True vm1 = Inr vm2"
    and key: "execute_script env (spk_script (entry_spk e)) False vm2 = Inr vm3" and saved: "saved = Some (dstack vm2)"
    using scripts spk src' by (auto simp: run_scripts_def bindR_eq_Inr enumerate_eq_zip Let_def split: if_splits)
  define s where "s = (dstack vm2)\<lparr>inner := butlast (inner (dstack vm2))\<rparr>"
  obtain vm3' where top: "inner (dstack vm2) \<noteq> []" and ok: "check_error_condition False vm3 = Inr vm3'"
    and redeem: "execute_script env (last (inner (dstack vm2))) False (vm3'\<lparr>dstack := s\<rparr>) = Inr vm'"
    using rest by (auto simp: s_def saved ok_or_def stack_pop_def bindR_eq_Inr split: if_splits)
  have "inner (dstack vm3) \<noteq> [] \<longrightarrow> deserialize_bool (last (inner (dstack vm3)))" "used vm3' = used vm3"
    using ok by (cases "inner (dstack vm3)" rule: rev_cases;
      auto simp: check_error_condition_def pop_bool_def pop_items_def split_top_def bindR_eq_Inr map_err_eq split: if_splits)+
  moreover have "execute_script env (signature_script input) True vm1 = Inr vm2" using sig top meter(1) by (auto split: if_splits)
  ultimately show ?thesis using that [of vm1 vm2 vm3 "vm3'\<lparr>dstack := s\<rparr>"] meter key top redeem by (simp add: s_def)
qed

lemma p2sh_engine:
  fixes crypto :: ScriptCrypto
  assumes "from_transaction_input crypto tx input idx e ctx acc sigop_units limit = Inr (env, vm)"
    and "is_pay_to_script_hash (spk_script (entry_spk e))"
  shows "script_source env = TxInput tx input idx e True" "verifier_pops crypto \<Longrightarrow> verifier_pops env"
    "blake2b_256 env = blake2b_256 crypto" "used vm = 0" "inner (dstack vm) = []" "cond_stack vm = []"
    "spk_script (entry_spk e) \<noteq> []"
proof -
  have "env = ScriptCrypto.extend crypto
      \<lparr>script_source = TxInput tx input idx e True, covenants_ctx = ctx, seq_commit_accessor = acc\<rparr>"
    and "vm = new_engine sigop_units limit"
    using assms by (auto simp: from_transaction_input_def split: if_splits)
  then show "script_source env = TxInput tx input idx e True" "verifier_pops crypto \<Longrightarrow> verifier_pops env"
    "blake2b_256 env = blake2b_256 crypto" "used vm = 0" "inner (dstack vm) = []" "cond_stack vm = []"
    by (simp_all add: verifier_pops_def ScriptCrypto.defs new_engine_def new_script_units_def Stack_new_def)
qed (use assms in \<open>auto simp: is_pay_to_script_hash_def\<close>)

text \<open>C14: a pay-to-script-hash output is spent only by revealing its script.  When the engine accepts, the
  last push of the signature script is a script with the committed hash, and this script ran on
  the other pushes and left a single true entry.\<close>

theorem p2sh_spend_reveals_script:
  fixes crypto :: ScriptCrypto
  assumes "from_transaction_input crypto tx input idx e ctx acc sigop_units limit = Inr (env, vm)"
    and "ScriptClass_from_script (entry_spk e) = ScriptHash" and "execute env vm = Inr ()"
  shows "\<exists>ops vm1 vm2 v. parse_script (signature_script input) = map Inr ops \<and> ops \<noteq> [] \<and>
    blake2b_256 crypto (pushed_entry (last ops)) = take 32 (drop 2 (spk_script (entry_spk e))) \<and>
    inner (dstack vm1) = map pushed_entry (butlast ops) \<and>
    execute_script env (pushed_entry (last ops)) False vm1 = Inr vm2 \<and> inner (dstack vm2) = [v] \<and> deserialize_bool v"
proof -
  have spk: "is_pay_to_script_hash (spk_script (entry_spk e))" and ver: "spk_version (entry_spk e) = MAX_SCRIPT_PUBLIC_KEY_VERSION"
    using assms(2) by (auto simp: ScriptClass_from_script_def split: if_splits)
  note engine = p2sh_engine [OF assms(1) spk]
  obtain out vm' where run: "execute_inner env vm = Inr (out, vm')"
    and final: "out = Executed \<longrightarrow> check_error_condition True vm' \<noteq> Inl (Err EvalFalse) \<and> (\<exists>w. check_error_condition True vm' = Inr w)"
    using assms(3) by (auto simp: execute_def bindR_eq_Inr split: ScriptExecutionOutput.splits)
      (meson ScriptExecutionOutput.exhaust)
  have out: "out = Executed"
    using run ver by (auto simp: execute_inner_def script_inputs_def engine(1) Let_def bindR_eq_Inr split: if_splits option.splits prod.splits)
  obtain vm1 vm2 vm3 vm4 where vm1: "inner (dstack vm1) = []" "cond_stack vm1 = []"
    and sig: "execute_script env (signature_script input) True vm1 = Inr vm2"
    and key: "execute_script env (spk_script (entry_spk e)) False vm2 = Inr vm3"
    and top: "inner (dstack vm2) \<noteq> []" "inner (dstack vm3) \<noteq> [] \<longrightarrow> deserialize_bool (last (inner (dstack vm3)))"
    and redeem: "inner (dstack vm4) = butlast (inner (dstack vm2))"
      "execute_script env (last (inner (dstack vm2))) False vm4 = Inr vm'"
    by (rule execute_p2sh_Inr [OF run [unfolded out] engine(1,7,5,6)])
  obtain ops where ops: "parse_script (signature_script input) = map Inr ops" "inner (dstack vm2) = map pushed_entry ops"
    using push_script_used [OF sig vm1(2)] vm1(1) by auto
  have some: "ops \<noteq> []" using top(1) ops(2) by auto
  obtain st r where "inner (dstack vm2) = st @ [r]"
    "inner (dstack vm3) = st @ [if blake2b_256 env r = take 32 (drop 2 (spk_script (entry_spk e))) then [1] else []]"
    using p2sh_key_run [OF key spk execute_script_cond [OF sig]] by blast
  then have hash: "blake2b_256 crypto (pushed_entry (last ops)) = take 32 (drop 2 (spk_script (entry_spk e)))"
    using top(2) ops(2) some engine(3) by (auto simp: deserialize_bool_def last_map [symmetric] split: if_splits)
  have "\<exists>v. inner (dstack vm') = [v] \<and> deserialize_bool v"
    using final out by (cases "inner (dstack vm')"; cases "tl (inner (dstack vm'))")
      (auto simp: check_error_condition_def pop_bool_def pop_items_def split_top_def bindR_eq_Inr map_err_eq split: if_splits)
  then show ?thesis using ops some hash redeem by (auto simp: last_map map_butlast)
qed

text \<open>C15: the mempool's scanner is an upper bound.  Whatever the redeem script of a pay-to-script-hash
  input does, branches and loops of verification opcodes included, an engine that runs it to its
  end has used no more signature operations than \<^verbatim>\<open>p2sh_sig_scanner\<close> reads off the script without
  running it.  Assumed: the proof verifiers only take entries off the stack and spend units.\<close>

theorem p2sh_scanner_bounds_sig_ops:
  fixes crypto :: ScriptCrypto
  assumes "from_transaction_input crypto tx input idx e ctx acc sigop_units limit = Inr (env, vm)"
    and "is_pay_to_script_hash (spk_script (entry_spk e))" and "verifier_pops crypto"
    and "execute_inner env vm = Inr (out, vm')"
  shows "unat (used_sig_ops (runtime_resource_meter vm')) \<le> unat (p2sh_sig_scanner (signature_script input) (entry_spk e))"
proof -
  note engine = p2sh_engine [OF assms(1,2)]
  have zk: "verifier_pops env" by (rule engine(2)) (rule assms(3))
  show ?thesis
  proof (cases out)
    case AcceptedUnknownVersion
    then have "vm' = vm" using assms(4) by (auto simp: execute_inner_def bindR_eq_Inr split: if_splits option.splits prod.splits)
    then show ?thesis using engine(4) by simp
  next
    case Executed
    obtain vm1 vm2 vm3 vm4 where vm1: "inner (dstack vm1) = []" "cond_stack vm1 = []" "used vm1 = used vm"
      and sig: "execute_script env (signature_script input) True vm1 = Inr vm2"
      and key: "execute_script env (spk_script (entry_spk e)) False vm2 = Inr vm3"
      and redeem: "inner (dstack vm2) \<noteq> []" "used vm4 = used vm3" "execute_script env (last (inner (dstack vm2))) False vm4 = Inr vm'"
      by (rule execute_p2sh_Inr [OF assms(4) [unfolded Executed] engine(1,7,5,6)])
    obtain ops where ops: "parse_script (signature_script input) = map Inr ops" "inner (dstack vm2) = map pushed_entry ops"
      "used vm2 = 0"
      using push_script_used [OF sig vm1(2)] vm1(1,3) engine(4) by auto
    have "used vm4 = 0" using execute_script_used [OF zk key] ops(3) redeem(2) p2sh_script_scan [OF assms(2)] by simp
    moreover have "ops \<noteq> []" using redeem(1) ops(2) by auto
    ultimately show ?thesis
      using redeem_script_run [OF ops(1) _ _ zk, of vm4 vm'] redeem(3) push_script_last [OF sig vm1(2) ops(1)] assms(2)
      by (simp add: ops(2) last_map p2sh_sig_scanner_def)
  qed
qed

section \<open>A sample spending\<close>

lemma script_step_op:
  assumes "is_executing vm" and "\<not> is_push_opcode op" and "\<not> is_disabled op" and "\<not> always_illegal op"
    and "0 \<le> num_ops vm" and "num_ops vm < MAX_OPS_PER_SCRIPT"
    and "opcode_execute env op (vm\<lparr>num_ops := num_ops vm + 1\<rparr>) = Inr vm1"
    and "pushed_bytes (astack vm1) = 0" and "pushed_bytes (dstack vm1) \<le> remaining_script_units (runtime_resource_meter vm1)"
    and "stack_len (astack vm1) + stack_len (dstack vm1) \<le> MAX_STACK_SIZE"
  shows "script_step env False vm (Inr op) = Inr (vm1\<lparr>dstack := (dstack vm1)\<lparr>pushed_bytes := 0\<rparr>,
    runtime_resource_meter := (runtime_resource_meter vm1)\<lparr>remaining_script_units :=
      remaining_script_units (runtime_resource_meter vm1) - pushed_bytes (dstack vm1)\<rparr>\<rparr>)"
proof -
  have ops: "count_ops 1 vm = Inr (vm\<lparr>num_ops := num_ops vm + 1\<rparr>)"
    using assms(5,6) by (simp add: count_ops_def i32_range_def MAX_OPS_PER_SCRIPT_def)
  have "vm1\<lparr>dstack := d, astack := (astack vm1)\<lparr>pushed_bytes := 0\<rparr>, runtime_resource_meter := m\<rparr> =
      vm1\<lparr>dstack := d, runtime_resource_meter := m\<rparr>" for d m
    using assms(8) by (cases vm1, cases "astack vm1") simp
  moreover have "is_executing (vm\<lparr>num_ops := num_ops vm + 1\<rparr>)" using assms(1) by (simp add: is_executing_def)
  moreover have "saturating_add (pushed_bytes (dstack vm1)) 0 = pushed_bytes (dstack vm1)"
    using unat_less_two_power [of "pushed_bytes (dstack vm1)"] by (simp add: saturating_add_def checked_add_def)
  ultimately show ?thesis
    using assms(2-4,7-10) ops
    by (simp add: script_step_def execute_opcode_def vm_pop_pushed_bytes_def pop_pushed_bytes_def
        charge_newly_pushed_bytes_def consume_enough)
qed

definition sample_redeem :: bytes where
  "sample_redeem = 0x20 # sample_key @ [0xac]"

definition sample_p2sh_entry :: UtxoEntry where
  "sample_p2sh_entry = sample_p2pk_entry\<lparr>entry_spk := \<lparr>spk_version = 0, spk_script = [0xaa, 0x20] @ replicate 32 0 @ [0x87]\<rparr>\<rparr>"

definition sample_p2sh_input :: TransactionInput where
  "sample_p2sh_input = sample_p2pk_input\<lparr>signature_script := (0x41 # sample_sig @ [1]) @ (0x22 # sample_redeem)\<rparr>"

definition sample_p2sh_env :: ScriptEnv where
  "sample_p2sh_env = ScriptCrypto.extend sample_crypto
     \<lparr>script_source = TxInput sample_p2pk_spend sample_p2sh_input 0 sample_p2sh_entry True,
      covenants_ctx = sample_ctx, seq_commit_accessor = None\<rparr>"

lemma sample_p2sh_engine:
  "from_transaction_input sample_crypto sample_p2pk_spend sample_p2sh_input 0 sample_p2sh_entry sample_ctx None 100000 200000 =
    Inr (sample_p2sh_env, new_engine 100000 200000)"
  by (simp add: from_transaction_input_def sample_p2sh_env_def sample_p2pk_spend_def sample_p2sh_entry_def
      is_pay_to_script_hash_def nth_append)

abbreviation sample_state :: "bytes list \<Rightarrow> int \<Rightarrow> u16 \<Rightarrow> u64 \<Rightarrow> ScriptVm" where
  "sample_state es n k r \<equiv> \<lparr>dstack = \<lparr>inner = es, pushed_bytes = 0\<rparr>, astack = \<lparr>inner = [], pushed_bytes = 0\<rparr>,
     cond_stack = [], num_ops = n, runtime_resource_meter = \<lparr>used_sig_ops = k, sigop_script_units = 100000,
     script_units_limit = 200000, remaining_script_units = r\<rparr>\<rparr>"

lemma sample_script1:
  "execute_script sample_p2sh_env (signature_script sample_p2sh_input) True (sample_state [] 0 0 200000) =
    Inr (sample_state [sample_sig @ [1], sample_redeem] 0 0 200000)"
proof -
  have "parse_script (signature_script sample_p2sh_input) = map Inr [\<lparr>op_value = 0x41, op_data = sample_sig @ [1]\<rparr>,
      \<lparr>op_value = 0x22, op_data = sample_redeem\<rparr>]"
    using parse_two [of "\<lparr>op_value = 0x41, op_data = sample_sig @ [1]\<rparr>" "\<lparr>op_value = 0x22, op_data = sample_redeem\<rparr>"]
    by (simp add: wf_opcode_def serialize_opcode_def push_len_width_def fixed_data_len_def sample_p2sh_input_def
        sample_sig_def sample_redeem_def sample_key_def)
  then show ?thesis
    by (simp add: execute_script_def script_step_literal is_executing_def MAX_SCRIPT_ELEMENT_SIZE_def MAX_STACK_SIZE_def
        stack_clear_def sample_sig_def sample_redeem_def sample_key_def)
qed

lemmas sample_step_simps = is_executing_def is_push_opcode_def NO_COST_OPCODE_def is_disabled_def always_illegal_def
  MAX_OPS_PER_SCRIPT_def MAX_STACK_SIZE_def MAX_SCRIPT_ELEMENT_SIZE_def on_dstack_def pop_raw_def split_top_def stack_push_def
  add_pushed_bytes_def checked_add_def unwrap_def

lemma sample_script2:
  "execute_script sample_p2sh_env (spk_script (entry_spk sample_p2sh_entry)) False (sample_state [sample_sig @ [1], sample_redeem] 0 0 200000) =
    Inr (sample_state [sample_sig @ [1], [1]] 0 0 199899)"
proof -
  have spk: "is_pay_to_script_hash (spk_script (entry_spk sample_p2sh_entry))"
    by (simp add: sample_p2sh_entry_def is_pay_to_script_hash_def nth_append)
  have hash: "opcode_execute sample_p2sh_env \<lparr>op_value = 0xaa, op_data = []\<rparr> (sample_state [sample_sig @ [1], sample_redeem] 1 0 200000) =
    Inr ((sample_state [sample_sig @ [1], replicate 32 0] 1 0 199932)
      \<lparr>dstack := \<lparr>inner = [sample_sig @ [1], replicate 32 0], pushed_bytes = 32\<rparr>\<rparr>)"
    by (simp add: opcode_execute_def crypto_op_def OpBlake2b_def hash_op_def sample_step_simps vm_consume_script_units_def
        consume_enough script_units_for_data_def saturating_mul_def checked_mul_def sample_redeem_def sample_key_def
        sample_p2sh_env_def sample_crypto_def ScriptCrypto.defs)
  have equal: "opcode_execute sample_p2sh_env \<lparr>op_value = 0x87, op_data = []\<rparr> (sample_state [sample_sig @ [1], replicate 32 0, replicate 32 0] 2 0 199900) =
    Inr ((sample_state [sample_sig @ [1], [1]] 2 0 199900)\<lparr>dstack := \<lparr>inner = [sample_sig @ [1], [1]], pushed_bytes = 1\<rparr>\<rparr>)"
    by (simp add: opcode_execute_def splice_op_def OpEqual_def sample_step_simps)
  have h: "take 32 (drop 2 (spk_script (entry_spk sample_p2sh_entry))) = replicate 32 0"
    by (simp add: sample_p2sh_entry_def)
  show ?thesis
    using hash equal
      script_step_op [of "sample_state [sample_sig @ [1], sample_redeem] 0 0 200000" "\<lparr>op_value = 0xaa, op_data = []\<rparr>" sample_p2sh_env]
      script_step_op [of "sample_state [sample_sig @ [1], replicate 32 0, replicate 32 0] 1 0 199900"
        "\<lparr>op_value = 0x87, op_data = []\<rparr>" sample_p2sh_env]
    by (simp add: execute_script_def parse_p2sh [OF spk] h script_step_literal sample_step_simps stack_clear_def)
qed

lemma sample_script3:
  "execute_script sample_p2sh_env sample_redeem False (sample_state [sample_sig @ [1]] 0 0 199899) = Inr (sample_state [[1]] 0 1 99898)"
proof -
  have check: "opcode_execute sample_p2sh_env \<lparr>op_value = 0xac, op_data = []\<rparr> (sample_state [sample_sig @ [1], sample_key] 1 0 199899) =
    Inr ((sample_state [[1]] 1 1 99899)\<lparr>dstack := \<lparr>inner = [[1]], pushed_bytes = 1\<rparr>\<rparr>)"
    by (simp add: opcode_execute_def crypto_op_def OpCheckSig_def check_sig_op_def sample_step_simps push_bool_def push_item_def
        serialize_bool_def check_schnorr_signature_def check_schnorr_signature_with_msg_hash_def consume_sig_op_cost_def consume_enough
        saturating_mul_one saturating_add_def cached_verify_def sample_p2sh_env_def sample_crypto_def ScriptCrypto.defs
        sample_sig_def sample_key_def SigHashType_from_u8_def butlast_append)
  have parse: "parse_script sample_redeem = map Inr [\<lparr>op_value = 0x20, op_data = sample_key\<rparr>, \<lparr>op_value = 0xac, op_data = []\<rparr>]"
    using parse_p2pk [of sample_key] by (simp add: sample_redeem_def sample_key_def)
  show ?thesis
    using check script_step_op [of "sample_state [sample_sig @ [1], sample_key] 0 0 199899" "\<lparr>op_value = 0xac, op_data = []\<rparr>" sample_p2sh_env]
    by (simp add: execute_script_def parse script_step_literal sample_step_simps stack_clear_def sample_key_def)
qed

lemma sample_p2sh_run:
  "execute_inner sample_p2sh_env (new_engine 100000 200000) = Inr (Executed, sample_state [[1]] 0 1 99898)"
proof -
  have start: "new_engine 100000 200000 = sample_state [] 0 0 200000"
    by (simp add: new_engine_def new_script_units_def Stack_new_def)
  have src: "script_source sample_p2sh_env = TxInput sample_p2pk_spend sample_p2sh_input 0 sample_p2sh_entry True"
    by (simp add: sample_p2sh_env_def ScriptCrypto.defs)
  have spk: "spk_script (entry_spk sample_p2sh_entry) \<noteq> []" "length (spk_script (entry_spk sample_p2sh_entry)) = 35"
    "spk_version (entry_spk sample_p2sh_entry) = 0"
    "signature_script sample_p2sh_input \<noteq> []" "length (signature_script sample_p2sh_input) = 101"
    by (simp_all add: sample_p2sh_entry_def sample_p2sh_input_def sample_redeem_def sample_sig_def sample_key_def)
  show ?thesis
    using sample_script3
    by (simp add: start execute_inner_def script_inputs_def src spk vm_consume_script_units_def run_scripts_def from_tx_input_def
        STANDARD_SCRIPT_PUB_KEY_MAX_SIZE_def pmul_def checked_mul_def unwrap_def MAX_SCRIPTS_SIZE_def enumerate_eq_zip
        MAX_SCRIPT_PUBLIC_KEY_VERSION_def sample_script1 sample_script2 check_error_condition_def pop_bool_def pop_items_def
        split_top_def deserialize_bool_def stack_pop_def ok_or_def)
qed

theorem p2sh_spend_reveals_script_witness:
  "\<exists>ops. parse_script (signature_script sample_p2sh_input) = map Inr ops \<and> ops \<noteq> [] \<and>
    blake2b_256 sample_crypto (pushed_entry (last ops)) = replicate 32 0"
proof -
  have spk: "ScriptClass_from_script (entry_spk sample_p2sh_entry) = ScriptHash"
    "take 32 (drop 2 (spk_script (entry_spk sample_p2sh_entry))) = replicate 32 0"
    by (simp_all add: sample_p2sh_entry_def ScriptClass_from_script_def MAX_SCRIPT_PUBLIC_KEY_VERSION_def is_pay_to_pubkey_def
        is_pay_to_pubkey_ecdsa_def is_pay_to_script_hash_def nth_append)
  have "execute sample_p2sh_env (new_engine 100000 200000) = Inr ()" by (rule execute_inner_true [OF sample_p2sh_run]) simp
  from p2sh_spend_reveals_script [OF sample_p2sh_engine spk(1) this] show ?thesis unfolding spk(2) by blast
qed

theorem p2sh_scanner_bounds_sig_ops_witness:
  "unat (p2sh_sig_scanner (signature_script sample_p2sh_input) (entry_spk sample_p2sh_entry)) \<ge> 1"
proof -
  have "is_pay_to_script_hash (spk_script (entry_spk sample_p2sh_entry))"
    by (simp add: sample_p2sh_entry_def is_pay_to_script_hash_def nth_append)
  from p2sh_scanner_bounds_sig_ops [OF sample_p2sh_engine this sample_verifier_pops sample_p2sh_run] show ?thesis by simp
qed

section \<open>The other static count\<close>


text \<open>The same function does not count the signature checks on messages from the stack, which the
  engine charges and the scanner counts.\<close>

lemma sig_op_upper_bound_misses_from_stack:
  "get_sig_op_count_upper_bound sig_script \<lparr>spk_version = 0, spk_script = [0xd7]\<rparr> = Inr 0 \<and> scan_script [0xd7] = 1"
proof -
  have parse: "parse_script [0xd7] = map Inr [\<lparr>op_value = 0xd7, op_data = []\<rparr>]"
    using parse_serialized [of "[\<lparr>op_value = 0xd7, op_data = []\<rparr>]"]
    by (simp add: wf_opcode_def serialize_opcode_def push_len_width_def fixed_data_len_def)
  show ?thesis
    by (simp add: get_sig_op_count_upper_bound_def is_pay_to_script_hash_def parse multi_sig_ops_def single_sig_ops_def
        scan_script_def scan_step_eq saturating_add_def checked_add_def)
qed

end
