(* ===== verification/Sighash.thy ===== *)
theory Sighash
  imports Pool_Hashing
begin

text \<open>
  The hash a transaction input's signature signs: \<^verbatim>\<open>src/consensus/core/src/hashing/sighash.rs\<close>, its
  hash types (\<^verbatim>\<open>sighash_type.rs\<close>) and the writers of \<^verbatim>\<open>src/consensus/core/src/hashing/mod.rs\<close>.  A hasher is a
  function of the bytes written to it; the two hashers, of another crate, are the parameters
  \<open>TransactionSigningHash\<close> and \<open>TransactionSigningHashECDSA\<close>.

  The parts of the hash that are the same for all inputs are kept in \<open>SigHashReusedValues\<close>.  The
  theorems say that reuse changes no hash, whatever inputs and hash types are asked for in whatever
  order, what a signature of each hash type binds, and what it leaves open.
\<close>

unbundle bit_operations_syntax

section \<open>Hash types\<close>

definition SIG_HASH_ALL :: u8 where "SIG_HASH_ALL = 1"
definition SIG_HASH_NONE :: u8 where "SIG_HASH_NONE = 2"
definition SIG_HASH_SINGLE :: u8 where "SIG_HASH_SINGLE = 4"
definition SIG_HASH_ANY_ONE_CAN_PAY :: u8 where "SIG_HASH_ANY_ONE_CAN_PAY = 0x80"
definition SIG_HASH_MASK :: u8 where "SIG_HASH_MASK = 7"

definition is_sighash_none :: "u8 \<Rightarrow> bool" where
  "is_sighash_none t \<longleftrightarrow> t AND SIG_HASH_MASK = SIG_HASH_NONE"

definition is_sighash_single :: "u8 \<Rightarrow> bool" where
  "is_sighash_single t \<longleftrightarrow> t AND SIG_HASH_MASK = SIG_HASH_SINGLE"

definition is_sighash_anyone_can_pay :: "u8 \<Rightarrow> bool" where
  "is_sighash_anyone_can_pay t \<longleftrightarrow> t AND SIG_HASH_ANY_ONE_CAN_PAY = SIG_HASH_ANY_ONE_CAN_PAY"

lemmas sighash_kinds = is_sighash_none_def is_sighash_single_def is_sighash_anyone_can_pay_def SIG_HASH_NONE_def
  SIG_HASH_SINGLE_def SIG_HASH_ANY_ONE_CAN_PAY_def SIG_HASH_MASK_def

section \<open>Writers\<close>

definition write_var_bytes :: "bytes \<Rightarrow> bytes" where
  "write_var_bytes bs = u64_to_le_bytes (of_nat (length bs)) @ bs"

definition write_bool :: "bool \<Rightarrow> bytes" where
  "write_bool b = (if b then [1] else [0])"

definition hash_outpoint :: "TransactionOutpoint \<Rightarrow> bytes" where
  "hash_outpoint op = transaction_id op @ u32_to_le_bytes (outpoint_index op)"

definition hash_script_public_key :: "ScriptPublicKey \<Rightarrow> bytes" where
  "hash_script_public_key spk = u16_to_le_bytes (spk_version spk) @ write_var_bytes (spk_script spk)"

definition hash_output :: "u16 \<Rightarrow> TransactionOutput \<Rightarrow> bytes" where
  "hash_output ver out =
     u64_to_le_bytes (out_value out) @ hash_script_public_key (out_spk out) @
     (if 1 \<le> ver then
        write_bool (covenant out \<noteq> None) @
        (case covenant out of
           None \<Rightarrow> []
         | Some c \<Rightarrow> u16_to_le_bytes (authorizing_input c) @ binding_covenant_id c)
      else [])"

section \<open>Reused values\<close>

record SigHashReusedValues =
  reused_previous_outputs :: "hash option"
  reused_sequences :: "hash option"
  reused_sig_op_counts :: "hash option"
  reused_outputs :: "hash option"
  reused_payload :: "hash option"

definition SigHashReusedValues_new :: SigHashReusedValues where
  "SigHashReusedValues_new = \<lparr>reused_previous_outputs = None, reused_sequences = None, reused_sig_op_counts = None,
     reused_outputs = None, reused_payload = None\<rparr>"

text \<open>The five methods of the trait, each on its field: the value kept, or the one computed now,
  which is then kept.\<close>

definition reuse ::
    "(SigHashReusedValues \<Rightarrow> hash option) \<Rightarrow> ((hash option \<Rightarrow> hash option) \<Rightarrow> SigHashReusedValues \<Rightarrow> SigHashReusedValues) \<Rightarrow>
     hash \<Rightarrow> SigHashReusedValues \<Rightarrow> hash \<times> SigHashReusedValues" where
  "reuse field upd h r = (case field r of Some v \<Rightarrow> (v, r) | None \<Rightarrow> (h, upd (\<lambda>_. Some h) r))"

definition previous_outputs_bytes :: "Transaction \<Rightarrow> bytes" where
  "previous_outputs_bytes tx = concat (map (\<lambda>input. hash_outpoint (previous_outpoint input)) (inputs tx))"

definition sequences_bytes :: "Transaction \<Rightarrow> bytes" where
  "sequences_bytes tx = concat (map (\<lambda>input. u64_to_le_bytes (sequence input)) (inputs tx))"

definition sig_op_byte :: "TransactionInput \<Rightarrow> u8" where
  "sig_op_byte input = (case sig_op_count (compute_commit input) of Some n \<Rightarrow> n | None \<Rightarrow> 0)"

definition outputs_bytes :: "Transaction \<Rightarrow> bytes" where
  "outputs_bytes tx = concat (map (hash_output (version tx)) (outputs tx))"

definition previous_outputs_hash ::
    "(bytes \<Rightarrow> hash) \<Rightarrow> Transaction \<Rightarrow> u8 \<Rightarrow> SigHashReusedValues \<Rightarrow> hash \<times> SigHashReusedValues" where
  "previous_outputs_hash H tx t r =
     (if is_sighash_anyone_can_pay t then (ZERO_HASH, r)
      else reuse reused_previous_outputs reused_previous_outputs_update (H (previous_outputs_bytes tx)) r)"

definition sequences_hash ::
    "(bytes \<Rightarrow> hash) \<Rightarrow> Transaction \<Rightarrow> u8 \<Rightarrow> SigHashReusedValues \<Rightarrow> hash \<times> SigHashReusedValues" where
  "sequences_hash H tx t r =
     (if is_sighash_single t \<or> is_sighash_anyone_can_pay t \<or> is_sighash_none t then (ZERO_HASH, r)
      else reuse reused_sequences reused_sequences_update (H (sequences_bytes tx)) r)"

definition sig_op_counts_hash ::
    "(bytes \<Rightarrow> hash) \<Rightarrow> Transaction \<Rightarrow> u8 \<Rightarrow> SigHashReusedValues \<Rightarrow> hash \<times> SigHashReusedValues" where
  "sig_op_counts_hash H tx t r =
     (if is_sighash_anyone_can_pay t then (ZERO_HASH, r)
      else reuse reused_sig_op_counts reused_sig_op_counts_update (H (map sig_op_byte (inputs tx))) r)"

definition payload_hash ::
    "(bytes \<Rightarrow> hash) \<Rightarrow> Transaction \<Rightarrow> SigHashReusedValues \<Rightarrow> hash \<times> SigHashReusedValues" where
  "payload_hash H tx r =
     (if subnetwork_id tx = SUBNETWORK_ID_NATIVE \<and> payload tx = [] then (ZERO_HASH, r)
      else reuse reused_payload reused_payload_update (H (write_var_bytes (payload tx))) r)"

definition outputs_hash ::
    "(bytes \<Rightarrow> hash) \<Rightarrow> Transaction \<Rightarrow> u8 \<Rightarrow> nat \<Rightarrow> SigHashReusedValues \<Rightarrow> hash \<times> SigHashReusedValues" where
  "outputs_hash H tx t input_index r =
     (if is_sighash_none t then (ZERO_HASH, r)
      else if is_sighash_single t then
        (if length (outputs tx) \<le> input_index then ZERO_HASH
         else H (hash_output (version tx) (outputs tx ! input_index)), r)
      else reuse reused_outputs reused_outputs_update (H (outputs_bytes tx)) r)"

section \<open>Signature hashes\<close>

text \<open>The bytes written to the last hasher, given the five hashes.\<close>

definition sighash_preimage ::
    "PopulatedTransaction \<Rightarrow> nat \<Rightarrow> u8 \<Rightarrow> hash \<Rightarrow> hash \<Rightarrow> hash \<Rightarrow> hash \<Rightarrow> hash \<Rightarrow> bytes" where
  "sighash_preimage p i t prevs seqs ops outs pay =
     (let tx = ptx p; input = inputs tx ! i; entry = entries p ! i in
      u16_to_le_bytes (version tx) @ prevs @ seqs @
      (if version tx < 1 then ops else []) @
      hash_outpoint (previous_outpoint input) @ hash_script_public_key (entry_spk entry) @
      u64_to_le_bytes (amount entry) @ u64_to_le_bytes (sequence input) @
      (if version tx < 1 then [sig_op_byte input] else []) @
      outs @ u64_to_le_bytes (lock_time tx) @ subnetwork_id tx @ u64_to_le_bytes (gas tx) @ pay @ [t])"

definition calc_schnorr_signature_hash_reusing ::
    "(bytes \<Rightarrow> hash) \<Rightarrow> PopulatedTransaction \<Rightarrow> nat \<Rightarrow> u8 \<Rightarrow> SigHashReusedValues \<Rightarrow> ('e, hash \<times> SigHashReusedValues) outcome" where
  "calc_schnorr_signature_hash_reusing H p i t r =
     (if length (inputs (ptx p)) \<le> i \<or> length (entries p) \<le> i then Inl Panic
      else
        let tx = ptx p;
            (prevs, r) = previous_outputs_hash H tx t r;
            (seqs, r) = sequences_hash H tx t r;
            (ops, r) = (if version tx < 1 then sig_op_counts_hash H tx t r else (ZERO_HASH, r));
            (outs, r) = outputs_hash H tx t i r;
            (pay, r) = payload_hash H tx r
        in Inr (H (sighash_preimage p i t prevs seqs ops outs pay), r))"

definition calc_ecdsa_signature_hash_reusing ::
    "(bytes \<Rightarrow> hash) \<Rightarrow> (bytes \<Rightarrow> hash) \<Rightarrow> PopulatedTransaction \<Rightarrow> nat \<Rightarrow> u8 \<Rightarrow> SigHashReusedValues \<Rightarrow>
     ('e, hash \<times> SigHashReusedValues) outcome" where
  "calc_ecdsa_signature_hash_reusing H HE p i t r =
     bindR (calc_schnorr_signature_hash_reusing H p i t r) (\<lambda>(h, r). Inr (HE h, r))"

section \<open>Reuse\<close>

text \<open>The hash with nothing to reuse.\<close>

definition fresh_hash :: "(SigHashReusedValues \<Rightarrow> hash \<times> SigHashReusedValues) \<Rightarrow> hash" where
  "fresh_hash f = fst (f SigHashReusedValues_new)"

definition schnorr_preimage :: "(bytes \<Rightarrow> hash) \<Rightarrow> PopulatedTransaction \<Rightarrow> nat \<Rightarrow> u8 \<Rightarrow> bytes" where
  "schnorr_preimage H p i t =
     sighash_preimage p i t (fresh_hash (previous_outputs_hash H (ptx p) t)) (fresh_hash (sequences_hash H (ptx p) t))
       (fresh_hash (sig_op_counts_hash H (ptx p) t)) (fresh_hash (outputs_hash H (ptx p) t i)) (fresh_hash (payload_hash H (ptx p)))"

definition schnorr_hash :: "(bytes \<Rightarrow> hash) \<Rightarrow> PopulatedTransaction \<Rightarrow> nat \<Rightarrow> u8 \<Rightarrow> hash" where
  "schnorr_hash H p i t = H (schnorr_preimage H p i t)"

text \<open>What is kept is what would be computed.\<close>

definition reused_ok :: "(bytes \<Rightarrow> hash) \<Rightarrow> Transaction \<Rightarrow> SigHashReusedValues \<Rightarrow> bool" where
  "reused_ok H tx r \<longleftrightarrow>
     reused_previous_outputs r \<in> {None, Some (H (previous_outputs_bytes tx))} \<and>
     reused_sequences r \<in> {None, Some (H (sequences_bytes tx))} \<and>
     reused_sig_op_counts r \<in> {None, Some (H (map sig_op_byte (inputs tx)))} \<and>
     reused_outputs r \<in> {None, Some (H (outputs_bytes tx))} \<and>
     reused_payload r \<in> {None, Some (H (write_var_bytes (payload tx)))}"

lemmas sighash_parts = previous_outputs_hash_def sequences_hash_def sig_op_counts_hash_def outputs_hash_def payload_hash_def

lemma part_reuses:
  assumes "reused_ok H tx r"
  shows "\<exists>r'. previous_outputs_hash H tx t r = (fresh_hash (previous_outputs_hash H tx t), r') \<and> reused_ok H tx r'"
    "\<exists>r'. sequences_hash H tx t r = (fresh_hash (sequences_hash H tx t), r') \<and> reused_ok H tx r'"
    "\<exists>r'. sig_op_counts_hash H tx t r = (fresh_hash (sig_op_counts_hash H tx t), r') \<and> reused_ok H tx r'"
    "\<exists>r'. outputs_hash H tx t i r = (fresh_hash (outputs_hash H tx t i), r') \<and> reused_ok H tx r'"
    "\<exists>r'. payload_hash H tx r = (fresh_hash (payload_hash H tx), r') \<and> reused_ok H tx r'"
  using assms
  by (auto simp: sighash_parts fresh_hash_def reuse_def reused_ok_def SigHashReusedValues_new_def split: option.splits)

lemma schnorr_hash_reuses:
  assumes "reused_ok H (ptx p) r" and "i < length (inputs (ptx p))" and "i < length (entries p)"
  shows "\<exists>r'. calc_schnorr_signature_hash_reusing H p i t r = Inr (schnorr_hash H p i t, r') \<and> reused_ok H (ptx p) r'"
proof -
  obtain r1 where r1: "previous_outputs_hash H (ptx p) t r = (fresh_hash (previous_outputs_hash H (ptx p) t), r1)" "reused_ok H (ptx p) r1"
    using part_reuses(1) [OF assms(1)] by blast
  obtain r2 where r2: "sequences_hash H (ptx p) t r1 = (fresh_hash (sequences_hash H (ptx p) t), r2)" "reused_ok H (ptx p) r2"
    using part_reuses(2) [OF r1(2)] by blast
  obtain ops r3 where r3: "(if version (ptx p) < 1 then sig_op_counts_hash H (ptx p) t r2 else (ZERO_HASH, r2)) = (ops, r3)"
    "reused_ok H (ptx p) r3" and v0: "version (ptx p) < 1 \<Longrightarrow> ops = fresh_hash (sig_op_counts_hash H (ptx p) t)"
    using part_reuses(3) [OF r2(2), of t] r2(2) by (cases "version (ptx p) < 1") auto
  obtain r4 where r4: "outputs_hash H (ptx p) t i r3 = (fresh_hash (outputs_hash H (ptx p) t i), r4)" "reused_ok H (ptx p) r4"
    using part_reuses(4) [OF r3(2)] by blast
  obtain r5 where r5: "payload_hash H (ptx p) r4 = (fresh_hash (payload_hash H (ptx p)), r5)" "reused_ok H (ptx p) r5"
    using part_reuses(5) [OF r4(2)] by blast
  have ops: "sighash_preimage p i t a b ops c d = sighash_preimage p i t a b (fresh_hash (sig_op_counts_hash H (ptx p) t)) c d" for a b c d
    using v0 by (cases "version (ptx p) < 1") (simp_all add: sighash_preimage_def Let_def)
  have "(length (inputs (ptx p)) \<le> i \<or> length (entries p) \<le> i) = False" using assms(2,3) by simp
  then have "calc_schnorr_signature_hash_reusing H p i t r = Inr (schnorr_hash H p i t, r5)"
    unfolding calc_schnorr_signature_hash_reusing_def Let_def r1(1) r2(1) r3(1) r4(1) r5(1) prod.case if_False ops
    by (simp only: schnorr_hash_def schnorr_preimage_def if_False)
  then show ?thesis using r5(2) by blast
qed

text \<open>The hashes of one transaction asked for one after the other, with the values shared.\<close>

fun schnorr_hashes ::
    "(bytes \<Rightarrow> hash) \<Rightarrow> PopulatedTransaction \<Rightarrow> SigHashReusedValues \<Rightarrow> (nat \<times> u8) list \<Rightarrow> ('e, hash list) outcome" where
  "schnorr_hashes H p r [] = Inr []"
| "schnorr_hashes H p r ((i, t) # qs) =
     bindR (calc_schnorr_signature_hash_reusing H p i t r) (\<lambda>(h, r). bindR (schnorr_hashes H p r qs) (\<lambda>hs. Inr (h # hs)))"

lemma schnorr_hashes_reuse:
  fixes p :: PopulatedTransaction
  shows "reused_ok H (ptx p) r \<Longrightarrow> list_all (\<lambda>(i, t). i < length (inputs (ptx p)) \<and> i < length (entries p)) qs \<Longrightarrow>
    schnorr_hashes H p r qs = (Inr (map (\<lambda>(i, t). schnorr_hash H p i t) qs) :: ('e, hash list) outcome)"
proof (induction qs arbitrary: r)
  case (Cons q qs)
  obtain i t where q: "q = (i, t)" by force
  obtain r' where "calc_schnorr_signature_hash_reusing H p i t r = (Inr (schnorr_hash H p i t, r') :: ('e, hash \<times> SigHashReusedValues) outcome)"
    "reused_ok H (ptx p) r'"
    using schnorr_hash_reuses [OF Cons.prems(1), of i t] Cons.prems(2) q by auto
  then show ?case using Cons.IH Cons.prems(2) by (simp add: q)
qed simp

section \<open>What the bytes determine\<close>

text \<open>A version 0 output is written without its covenant.\<close>

definition signed_output :: "u16 \<Rightarrow> TransactionOutput \<Rightarrow> TransactionOutput" where
  "signed_output ver out = (if 1 \<le> ver then out else out\<lparr>covenant := None\<rparr>)"

definition output_sized :: "TransactionOutput \<Rightarrow> bool" where
  "output_sized out \<longleftrightarrow> length (spk_script (out_spk out)) < 2 ^ 64 \<and>
     (case covenant out of None \<Rightarrow> True | Some c \<Rightarrow> length (binding_covenant_id c) = 32)"

lemma write_var_bytes_prefix_free:
  assumes "length a < 2 ^ 64" and "length b < 2 ^ 64" and "write_var_bytes a @ xs = write_var_bytes b @ ys"
  shows "a = b \<and> xs = ys"
proof -
  have "(of_nat (length a) :: u64) = of_nat (length b)" "a @ xs = b @ ys"
    using assms(3) by (simp_all add: write_var_bytes_def u64_u32_prefix_free)
  moreover have "length a = length b"
    using arg_cong [OF \<open>(of_nat (length a) :: u64) = of_nat (length b)\<close>, of unat] assms(1,2) by (simp add: unat_of_nat)
  ultimately show ?thesis by simp
qed

lemma hash_script_public_key_prefix_free:
  assumes "length (spk_script a) < 2 ^ 64" and "length (spk_script b) < 2 ^ 64"
    and "hash_script_public_key a @ xs = hash_script_public_key b @ ys"
  shows "a = b \<and> xs = ys"
proof -
  have ver: "spk_version a = spk_version b" and rest: "write_var_bytes (spk_script a) @ xs = write_var_bytes (spk_script b) @ ys"
    using assms(3) by (simp_all add: hash_script_public_key_def u64_u32_prefix_free)
  note script = write_var_bytes_prefix_free [OF assms(1,2) rest]
  have "a = b" by (rule ScriptPublicKey.equality) (simp_all add: ver script)
  then show ?thesis using script by simp
qed

lemma hash_output_prefix_free:
  assumes sized: "output_sized a" "output_sized b" and eq: "hash_output v a @ xs = hash_output v b @ ys"
  shows "signed_output v a = signed_output v b \<and> xs = ys"
proof -
  let ?tail = "\<lambda>out. (if 1 \<le> v then write_bool (covenant out \<noteq> None) @
      (case covenant out of None \<Rightarrow> [] | Some c \<Rightarrow> u16_to_le_bytes (authorizing_input c) @ binding_covenant_id c) else [])"
  have val: "out_value a = out_value b"
    and rest: "hash_script_public_key (out_spk a) @ ?tail a @ xs = hash_script_public_key (out_spk b) @ ?tail b @ ys"
    using eq by (simp_all add: hash_output_def u64_u32_prefix_free)
  have spk: "out_spk a = out_spk b" and tail: "?tail a @ xs = ?tail b @ ys"
    using hash_script_public_key_prefix_free [OF _ _ rest] sized by (simp_all add: output_sized_def)
  have cov: "(1 \<le> v \<longrightarrow> covenant a = covenant b) \<and> xs = ys"
  proof (cases "1 \<le> v")
    case True
    show ?thesis
    proof (cases "covenant a")
      case None
      then show ?thesis using tail True by (cases "covenant b") (simp_all add: write_bool_def)
    next
      case (Some c)
      then obtain c' where c': "covenant b = Some c'" using tail True by (cases "covenant b") (simp_all add: write_bool_def)
      have "u16_to_le_bytes (authorizing_input c) @ binding_covenant_id c @ xs =
          u16_to_le_bytes (authorizing_input c') @ binding_covenant_id c' @ ys"
        using tail True Some c' by (simp add: write_bool_def)
      moreover have "length (binding_covenant_id c) = length (binding_covenant_id c')" using sized Some c' by (simp add: output_sized_def)
      ultimately have eqs: "authorizing_input c = authorizing_input c'" "binding_covenant_id c = binding_covenant_id c'" "xs = ys"
        by (simp_all add: u64_u32_prefix_free)
      then have "c = c' \<and> xs = ys" by (intro conjI CovenantBinding.equality) simp_all
      then show ?thesis using Some c' by simp
    qed
  qed (use tail in simp)
  have "signed_output v a = signed_output v b"
    by (rule TransactionOutput.equality) (use val spk cov in \<open>simp_all add: signed_output_def\<close>)
  then show ?thesis using cov by simp
qed

lemma hash_output_nonempty: "hash_output v a \<noteq> []"
proof -
  have "u64_to_le_bytes (out_value a) \<noteq> []" using length_to_le_bytes(3) [of "out_value a"] by (metis list.size(3) zero_neq_numeral)
  then show ?thesis by (simp add: hash_output_def)
qed

lemma concat_outputs_inject:
  assumes "list_all output_sized as" and "list_all output_sized bs"
    and "concat (map (hash_output v) as) = concat (map (hash_output v) bs)"
  shows "map (signed_output v) as = map (signed_output v) bs"
  using assms
proof (induction as arbitrary: bs)
  case Nil
  then show ?case by (cases bs) (auto simp: hash_output_nonempty)
next
  case (Cons a as)
  then obtain b bs' where bs: "bs = b # bs'" by (cases bs) (auto simp: hash_output_nonempty)
  then show ?case
    using Cons.IH [of bs'] Cons.prems hash_output_prefix_free [of a b v "concat (map (hash_output v) as)"] by auto
qed

text \<open>Ids and hashes have their length and scripts are shorter than \<open>2 ^ 64\<close>.\<close>

definition populated_sized :: "PopulatedTransaction \<Rightarrow> nat \<Rightarrow> bool" where
  "populated_sized p i \<longleftrightarrow> i < length (inputs (ptx p)) \<and> i < length (entries p) \<and>
     length (subnetwork_id (ptx p)) = 20 \<and> length (payload (ptx p)) < 2 ^ 64 \<and> list_all output_sized (outputs (ptx p)) \<and>
     list_all (\<lambda>input. length (transaction_id (previous_outpoint input)) = 32) (inputs (ptx p)) \<and>
     length (spk_script (entry_spk (entries p ! i))) < 2 ^ 64"

lemma hash_outpoint_inject:
  assumes "length (transaction_id a) = 32" and "length (transaction_id b) = 32" and "hash_outpoint a @ xs = hash_outpoint b @ ys"
  shows "a = b \<and> xs = ys"
proof -
  have "transaction_id a = transaction_id b" "u32_to_le_bytes (outpoint_index a) @ xs = u32_to_le_bytes (outpoint_index b) @ ys"
    using assms by (simp_all add: hash_outpoint_def)
  then show ?thesis by (simp add: u64_u32_prefix_free TransactionOutpoint.equality)
qed

lemma previous_outputs_bytes_inject:
  assumes "list_all (\<lambda>input. length (transaction_id (previous_outpoint input)) = 32) (inputs a)"
    and "list_all (\<lambda>input. length (transaction_id (previous_outpoint input)) = 32) (inputs b)"
    and "previous_outputs_bytes a = previous_outputs_bytes b"
  shows "map previous_outpoint (inputs a) = map previous_outpoint (inputs b)"
proof -
  let ?f = "\<lambda>input. hash_outpoint (previous_outpoint input)"
  have len: "\<forall>x \<in> set (map ?f is). length x = 36"
    if "list_all (\<lambda>input. length (transaction_id (previous_outpoint input)) = 32) is" for "is"
    using that by (auto simp: hash_outpoint_def list_all_iff)
  have "map ?f (inputs a) = map ?f (inputs b)"
    by (rule concat_blocks_inject [OF _ len [OF assms(1)] len [OF assms(2)]]) (use assms(3) in \<open>simp_all add: previous_outputs_bytes_def\<close>)
  then have "map hash_outpoint (map previous_outpoint (inputs a)) = map hash_outpoint (map previous_outpoint (inputs b))" by (simp add: comp_def)
  then show ?thesis
  proof (rule map_inject_on)
    show "inj_on hash_outpoint (set (map previous_outpoint (inputs a)) \<union> set (map previous_outpoint (inputs b)))"
      using assms(1,2) hash_outpoint_inject [where xs = "[]" and ys = "[]"] by (auto simp: inj_on_def list_all_iff)
  qed
qed

lemma sequences_bytes_inject:
  assumes "sequences_bytes a = sequences_bytes b"
  shows "map sequence (inputs a) = map sequence (inputs b)"
proof -
  have "map (\<lambda>input. u64_to_le_bytes (sequence input)) (inputs a) = map (\<lambda>input. u64_to_le_bytes (sequence input)) (inputs b)"
    using assms by (intro concat_blocks_inject [where n = 8]) (simp_all add: sequences_bytes_def)
  then have "map u64_to_le_bytes (map sequence (inputs a)) = map u64_to_le_bytes (map sequence (inputs b))" by (simp add: comp_def)
  then show ?thesis by (rule map_inject_on) (simp add: inj_on_def)
qed

text \<open>The last preimage determines the five hashes and everything it writes itself.\<close>

lemma sighash_preimage_inject:
  assumes eq: "sighash_preimage p i t A B C D E = sighash_preimage p' i' t' A' B' C' D' E'"
    and len: "list_all (\<lambda>h. length h = 32) [A, B, C, D, E, A', B', C', D', E']"
    and sized: "populated_sized p i" "populated_sized p' i'"
  shows "version (ptx p) = version (ptx p') \<and> A = A' \<and> B = B' \<and> (version (ptx p) < 1 \<longrightarrow> C = C') \<and> D = D' \<and> E = E' \<and> t = t' \<and>
    previous_outpoint (inputs (ptx p) ! i) = previous_outpoint (inputs (ptx p') ! i') \<and>
    entry_spk (entries p ! i) = entry_spk (entries p' ! i') \<and> amount (entries p ! i) = amount (entries p' ! i') \<and>
    sequence (inputs (ptx p) ! i) = sequence (inputs (ptx p') ! i') \<and> lock_time (ptx p) = lock_time (ptx p') \<and>
    subnetwork_id (ptx p) = subnetwork_id (ptx p') \<and> gas (ptx p) = gas (ptx p')"
proof -
  let ?v0 = "version (ptx p) < 1"
  let ?in = "inputs (ptx p) ! i" and ?in' = "inputs (ptx p') ! i'"
  let ?tail = "\<lambda>q t D E. D @ u64_to_le_bytes (lock_time (ptx q)) @ subnetwork_id (ptx q) @ u64_to_le_bytes (gas (ptx q)) @ E @ [t]"
  have ver: "version (ptx p) = version (ptx p')" using eq by (simp add: sighash_preimage_def Let_def u64_u32_prefix_free)
  have sizes: "length (transaction_id (previous_outpoint ?in)) = 32" "length (transaction_id (previous_outpoint ?in')) = 32"
    "length (spk_script (entry_spk (entries p ! i))) < 2 ^ 64" "length (spk_script (entry_spk (entries p' ! i'))) < 2 ^ 64"
    "length (subnetwork_id (ptx p)) = length (subnetwork_id (ptx p'))"
    using sized by (simp_all add: populated_sized_def list_all_length)
  have first: "A = A'" "B = B'" and rest: "(if ?v0 then C else []) @ hash_outpoint (previous_outpoint ?in) @
      hash_script_public_key (entry_spk (entries p ! i)) @ u64_to_le_bytes (amount (entries p ! i)) @
      u64_to_le_bytes (sequence ?in) @ (if ?v0 then [sig_op_byte ?in] else []) @ ?tail p t D E =
    (if ?v0 then C' else []) @ hash_outpoint (previous_outpoint ?in') @
      hash_script_public_key (entry_spk (entries p' ! i')) @ u64_to_le_bytes (amount (entries p' ! i')) @
      u64_to_le_bytes (sequence ?in') @ (if ?v0 then [sig_op_byte ?in'] else []) @ ?tail p' t' D' E'"
    using eq ver len by (simp_all add: sighash_preimage_def Let_def u64_u32_prefix_free)
  have ops: "?v0 \<longrightarrow> C = C'" and rest2: "hash_outpoint (previous_outpoint ?in) @
      hash_script_public_key (entry_spk (entries p ! i)) @ u64_to_le_bytes (amount (entries p ! i)) @
      u64_to_le_bytes (sequence ?in) @ (if ?v0 then [sig_op_byte ?in] else []) @ ?tail p t D E =
    hash_outpoint (previous_outpoint ?in') @
      hash_script_public_key (entry_spk (entries p' ! i')) @ u64_to_le_bytes (amount (entries p' ! i')) @
      u64_to_le_bytes (sequence ?in') @ (if ?v0 then [sig_op_byte ?in'] else []) @ ?tail p' t' D' E'"
    using rest len by (auto split: if_splits)
  note out = hash_outpoint_inject [OF sizes(1,2) rest2]
  note spk = hash_script_public_key_prefix_free [OF sizes(3,4) conjunct2 [OF out]]
  have nums: "amount (entries p ! i) = amount (entries p' ! i')" "sequence ?in = sequence ?in'"
    and rest3: "(if ?v0 then [sig_op_byte ?in] else []) @ ?tail p t D E = (if ?v0 then [sig_op_byte ?in'] else []) @ ?tail p' t' D' E'"
    using spk by (simp_all add: u64_u32_prefix_free)
  have "?tail p t D E = ?tail p' t' D' E'" using rest3 by (auto split: if_splits)
  then have last: "D = D'" "lock_time (ptx p) = lock_time (ptx p')" "subnetwork_id (ptx p) = subnetwork_id (ptx p')"
    "gas (ptx p) = gas (ptx p')" "E = E'" "t = t'"
    using len sizes(5) by (simp_all add: u64_u32_prefix_free)
  show ?thesis using ver first ops out spk nums last by simp
qed

lemma fresh_parts:
  "fresh_hash (previous_outputs_hash H tx t) = (if is_sighash_anyone_can_pay t then ZERO_HASH else H (previous_outputs_bytes tx))"
  "fresh_hash (sequences_hash H tx t) =
     (if is_sighash_single t \<or> is_sighash_anyone_can_pay t \<or> is_sighash_none t then ZERO_HASH else H (sequences_bytes tx))"
  "fresh_hash (sig_op_counts_hash H tx t) = (if is_sighash_anyone_can_pay t then ZERO_HASH else H (map sig_op_byte (inputs tx)))"
  "fresh_hash (outputs_hash H tx t i) =
     (if is_sighash_none t then ZERO_HASH
      else if is_sighash_single t then if i < length (outputs tx) then H (hash_output (version tx) (outputs tx ! i)) else ZERO_HASH
      else H (outputs_bytes tx))"
  "fresh_hash (payload_hash H tx) =
     (if subnetwork_id tx = SUBNETWORK_ID_NATIVE \<and> payload tx = [] then ZERO_HASH else H (write_var_bytes (payload tx)))"
  by (simp_all add: fresh_hash_def sighash_parts reuse_def SigHashReusedValues_new_def)

text \<open>The strings hashed for one signature hash, and a hasher that separates them: no two of them have
  one hash, and none has the hash of zeros that stands for an absent part.\<close>

definition sighash_writes :: "(bytes \<Rightarrow> hash) \<Rightarrow> PopulatedTransaction \<Rightarrow> nat \<Rightarrow> u8 \<Rightarrow> bytes set" where
  "sighash_writes H p i t =
     {previous_outputs_bytes (ptx p), sequences_bytes (ptx p), map sig_op_byte (inputs (ptx p)), outputs_bytes (ptx p),
      write_var_bytes (payload (ptx p)), schnorr_preimage H p i t} \<union>
     (if i < length (outputs (ptx p)) then {hash_output (version (ptx p)) (outputs (ptx p) ! i)} else {})"

definition hash_separates :: "(bytes \<Rightarrow> hash) \<Rightarrow> bytes set \<Rightarrow> bool" where
  "hash_separates H S \<longleftrightarrow> inj_on H S \<and> (\<forall>x \<in> S. length (H x) = 32 \<and> H x \<noteq> ZERO_HASH)"

lemma hash_separatesD:
  "hash_separates H S \<Longrightarrow> x \<in> S \<Longrightarrow> y \<in> S \<Longrightarrow> H x = H y \<Longrightarrow> x = y"
  "hash_separates H S \<Longrightarrow> x \<in> S \<Longrightarrow> H x \<noteq> ZERO_HASH" "hash_separates H S \<Longrightarrow> x \<in> S \<Longrightarrow> length (H x) = 32"
  by (auto simp: hash_separates_def inj_on_def)

text \<open>The output signed by a signature for a single output, if there is one.\<close>

definition single_output :: "Transaction \<Rightarrow> nat \<Rightarrow> TransactionOutput option" where
  "single_output tx i = (if i < length (outputs tx) then Some (signed_output (version tx) (outputs tx ! i)) else None)"

lemma part_lengths:
  assumes "hash_separates H S" and "sighash_writes H p i t \<subseteq> S"
  shows "length (fresh_hash (previous_outputs_hash H (ptx p) t)) = 32" "length (fresh_hash (sequences_hash H (ptx p) t)) = 32"
    "length (fresh_hash (sig_op_counts_hash H (ptx p) t)) = 32" "length (fresh_hash (outputs_hash H (ptx p) t i)) = 32"
    "length (fresh_hash (payload_hash H (ptx p))) = 32"
  using assms hash_separatesD(3) [OF assms(1)]
  by (auto simp: fresh_parts sighash_writes_def ZERO_HASH_def subset_iff)


lemma schnorr_hash_parts:
  assumes "schnorr_hash H p i t = schnorr_hash H p' i' t'"
    and sep: "hash_separates H (sighash_writes H p i t \<union> sighash_writes H p' i' t')"
    and "populated_sized p i" and "populated_sized p' i'"
  shows "version (ptx p) = version (ptx p')" "t = t'"
    "fresh_hash (previous_outputs_hash H (ptx p) t) = fresh_hash (previous_outputs_hash H (ptx p') t')"
    "fresh_hash (sequences_hash H (ptx p) t) = fresh_hash (sequences_hash H (ptx p') t')"
    "version (ptx p) < 1 \<Longrightarrow> fresh_hash (sig_op_counts_hash H (ptx p) t) = fresh_hash (sig_op_counts_hash H (ptx p') t')"
    "fresh_hash (outputs_hash H (ptx p) t i) = fresh_hash (outputs_hash H (ptx p') t' i')"
    "fresh_hash (payload_hash H (ptx p)) = fresh_hash (payload_hash H (ptx p'))"
    "previous_outpoint (inputs (ptx p) ! i) = previous_outpoint (inputs (ptx p') ! i')"
    "entry_spk (entries p ! i) = entry_spk (entries p' ! i')" "amount (entries p ! i) = amount (entries p' ! i')"
    "sequence (inputs (ptx p) ! i) = sequence (inputs (ptx p') ! i')" "lock_time (ptx p) = lock_time (ptx p')"
    "subnetwork_id (ptx p) = subnetwork_id (ptx p')" "gas (ptx p) = gas (ptx p')"
proof -
  have eq: "schnorr_preimage H p i t = schnorr_preimage H p' i' t'"
    by (rule hash_separatesD(1) [OF sep]) (use assms(1) in \<open>simp_all add: sighash_writes_def schnorr_hash_def\<close>)
  have len: "list_all (\<lambda>h. length h = 32)
    [fresh_hash (previous_outputs_hash H (ptx p) t), fresh_hash (sequences_hash H (ptx p) t), fresh_hash (sig_op_counts_hash H (ptx p) t),
     fresh_hash (outputs_hash H (ptx p) t i), fresh_hash (payload_hash H (ptx p)),
     fresh_hash (previous_outputs_hash H (ptx p') t'), fresh_hash (sequences_hash H (ptx p') t'), fresh_hash (sig_op_counts_hash H (ptx p') t'),
     fresh_hash (outputs_hash H (ptx p') t' i'), fresh_hash (payload_hash H (ptx p'))]"
    using part_lengths [OF sep, of p i t] part_lengths [OF sep, of p' i' t'] by simp
  note parts = sighash_preimage_inject [OF eq [unfolded schnorr_preimage_def] len assms(3,4)]
  show "version (ptx p) = version (ptx p')" "t = t'"
    "fresh_hash (previous_outputs_hash H (ptx p) t) = fresh_hash (previous_outputs_hash H (ptx p') t')"
    "fresh_hash (sequences_hash H (ptx p) t) = fresh_hash (sequences_hash H (ptx p') t')"
    "version (ptx p) < 1 \<Longrightarrow> fresh_hash (sig_op_counts_hash H (ptx p) t) = fresh_hash (sig_op_counts_hash H (ptx p') t')"
    "fresh_hash (outputs_hash H (ptx p) t i) = fresh_hash (outputs_hash H (ptx p') t' i')"
    "fresh_hash (payload_hash H (ptx p)) = fresh_hash (payload_hash H (ptx p'))"
    "previous_outpoint (inputs (ptx p) ! i) = previous_outpoint (inputs (ptx p') ! i')"
    "entry_spk (entries p ! i) = entry_spk (entries p' ! i')" "amount (entries p ! i) = amount (entries p' ! i')"
    "sequence (inputs (ptx p) ! i) = sequence (inputs (ptx p') ! i')" "lock_time (ptx p) = lock_time (ptx p')"
    "subnetwork_id (ptx p) = subnetwork_id (ptx p')" "gas (ptx p) = gas (ptx p')"
    using parts by blast+
qed

lemma bound_outpoints:
  assumes "schnorr_hash H p i t = schnorr_hash H p' i' t'"
    and sep: "hash_separates H (sighash_writes H p i t \<union> sighash_writes H p' i' t')"
    and sized: "populated_sized p i" "populated_sized p' i'"
    and "\<not> is_sighash_anyone_can_pay t"
  shows "map previous_outpoint (inputs (ptx p)) = map previous_outpoint (inputs (ptx p'))"
proof -
  have "H (previous_outputs_bytes (ptx p)) = H (previous_outputs_bytes (ptx p'))"
    using schnorr_hash_parts(2,3) [OF assms(1-4)] assms(5) by (simp add: fresh_parts)
  then have "previous_outputs_bytes (ptx p) = previous_outputs_bytes (ptx p')"
    by (rule hash_separatesD(1) [OF sep, rotated 2]) (simp_all add: sighash_writes_def)
  then show "map previous_outpoint (inputs (ptx p)) = map previous_outpoint (inputs (ptx p'))"
    using sized by (intro previous_outputs_bytes_inject) (simp_all add: populated_sized_def)
qed

lemma bound_outputs:
  assumes "schnorr_hash H p i t = schnorr_hash H p' i' t'"
    and sep: "hash_separates H (sighash_writes H p i t \<union> sighash_writes H p' i' t')"
    and sized: "populated_sized p i" "populated_sized p' i'"
    and "\<not> is_sighash_none t \<and> \<not> is_sighash_single t"
  shows "map (signed_output (version (ptx p))) (outputs (ptx p)) = map (signed_output (version (ptx p))) (outputs (ptx p'))"
proof -
  have "H (outputs_bytes (ptx p)) = H (outputs_bytes (ptx p'))"
    using schnorr_hash_parts(2,6) [OF assms(1-4)] assms(5) by (simp add: fresh_parts)
  then have "outputs_bytes (ptx p) = outputs_bytes (ptx p')"
    by (rule hash_separatesD(1) [OF sep, rotated 2]) (simp_all add: sighash_writes_def)
  then show "map (signed_output (version (ptx p))) (outputs (ptx p)) = map (signed_output (version (ptx p))) (outputs (ptx p'))"
    using schnorr_hash_parts(1) [OF assms(1-4)] sized
    by (intro concat_outputs_inject) (simp_all add: populated_sized_def outputs_bytes_def)
qed

lemma single_output_bound:
  assumes "schnorr_hash H p i t = schnorr_hash H p' i' t'"
    and sep: "hash_separates H (sighash_writes H p i t \<union> sighash_writes H p' i' t')"
    and sized: "populated_sized p i" "populated_sized p' i'"
  shows "is_sighash_single t \<and> \<not> is_sighash_none t \<longrightarrow> single_output (ptx p) i = single_output (ptx p') i'"
proof
  assume t: "is_sighash_single t \<and> \<not> is_sighash_none t"
  let ?out = "\<lambda>q i. hash_output (version (ptx q)) (outputs (ptx q) ! i)"
  note parts = schnorr_hash_parts [OF assms]
  have eq: "(if i < length (outputs (ptx p)) then H (?out p i) else ZERO_HASH) = (if i' < length (outputs (ptx p')) then H (?out p' i') else ZERO_HASH)"
    using parts(2,6) t by (simp add: fresh_parts)
  have w: "i < length (outputs (ptx p)) \<Longrightarrow> ?out p i \<in> sighash_writes H p i t \<union> sighash_writes H p' i' t'"
    "i' < length (outputs (ptx p')) \<Longrightarrow> ?out p' i' \<in> sighash_writes H p i t \<union> sighash_writes H p' i' t'"
    by (simp_all add: sighash_writes_def)
  have both: "i < length (outputs (ptx p)) \<longleftrightarrow> i' < length (outputs (ptx p'))"
    using eq w hash_separatesD(2) [OF sep] by (metis (no_types, lifting))
  show "single_output (ptx p) i = single_output (ptx p') i'"
  proof (cases "i < length (outputs (ptx p))")
    case True
    then have "?out p i = ?out p' i'" using eq both w hash_separatesD(1) [OF sep] by simp
    moreover have "output_sized (outputs (ptx p) ! i)" "output_sized (outputs (ptx p') ! i')"
      using sized True both by (simp_all add: populated_sized_def list_all_length)
    ultimately show ?thesis
      using hash_output_prefix_free [of "outputs (ptx p) ! i" "outputs (ptx p') ! i'" "version (ptx p)" "[]" "[]"] parts(1) True both
      by (simp add: single_output_def)
  qed (use both in \<open>simp add: single_output_def\<close>)
qed

section \<open>Theorems\<close>

text \<open>C19: reusing values changes no signature hash.  Whatever inputs and hash types are asked for, in
  whatever order, with one set of reused values for the transaction, every answer is the hash
  computed with nothing reused.\<close>

theorem sighash_reuse_transparent:
  assumes "list_all (\<lambda>(i, t). i < length (inputs (ptx p)) \<and> i < length (entries p)) queries"
  shows "schnorr_hashes H p SigHashReusedValues_new queries = Inr (map (\<lambda>(i, t). schnorr_hash H p i t) queries)"
  by (rule schnorr_hashes_reuse [OF _ assms]) (simp add: reused_ok_def SigHashReusedValues_new_def)

text \<open>C12: what a signature binds.  If the hasher separates the strings hashed, equal signature hashes
  come from the same hash type, version, lock time, subnetwork, gas and payload and from spending the
  same outpoint with the same script, amount and sequence; unless anyone can pay, from the same
  list of spent outpoints; for the hash types of all outputs, from the same outputs, and of all inputs,
  from the same sequences; for a single output, from the same output or its absence.\<close>

theorem sighash_binds:
  assumes "schnorr_hash H p i t = schnorr_hash H p' i' t'"
    and "hash_separates H (sighash_writes H p i t \<union> sighash_writes H p' i' t')"
    and "populated_sized p i" and "populated_sized p' i'"
  shows "t = t' \<and> version (ptx p) = version (ptx p') \<and> lock_time (ptx p) = lock_time (ptx p') \<and>
    subnetwork_id (ptx p) = subnetwork_id (ptx p') \<and> gas (ptx p) = gas (ptx p') \<and> payload (ptx p) = payload (ptx p') \<and>
    previous_outpoint (inputs (ptx p) ! i) = previous_outpoint (inputs (ptx p') ! i') \<and>
    entry_spk (entries p ! i) = entry_spk (entries p' ! i') \<and> amount (entries p ! i) = amount (entries p' ! i') \<and>
    sequence (inputs (ptx p) ! i) = sequence (inputs (ptx p') ! i') \<and>
    (\<not> is_sighash_anyone_can_pay t \<longrightarrow>
       map previous_outpoint (inputs (ptx p)) = map previous_outpoint (inputs (ptx p')) \<and>
       (version (ptx p) < 1 \<longrightarrow> map sig_op_byte (inputs (ptx p)) = map sig_op_byte (inputs (ptx p')))) \<and>
    (\<not> is_sighash_anyone_can_pay t \<and> \<not> is_sighash_single t \<and> \<not> is_sighash_none t \<longrightarrow>
       map sequence (inputs (ptx p)) = map sequence (inputs (ptx p'))) \<and>
    (\<not> is_sighash_none t \<and> \<not> is_sighash_single t \<longrightarrow>
       map (signed_output (version (ptx p))) (outputs (ptx p)) = map (signed_output (version (ptx p))) (outputs (ptx p'))) \<and>
    (is_sighash_single t \<and> \<not> is_sighash_none t \<longrightarrow> single_output (ptx p) i = single_output (ptx p') i')"
proof -
  let ?S = "sighash_writes H p i t \<union> sighash_writes H p' i' t'"
  note parts = schnorr_hash_parts [OF assms]
  note inj = hash_separatesD(1) [OF assms(2)] and nz = hash_separatesD(2) [OF assms(2)]
  have in_S: "x \<in> ?S" if "x \<in> sighash_writes H p i t \<or> x \<in> sighash_writes H p' i' t'" for x using that by blast
  have ids: "list_all (\<lambda>input. length (transaction_id (previous_outpoint input)) = 32) (inputs (ptx p))"
    "list_all (\<lambda>input. length (transaction_id (previous_outpoint input)) = 32) (inputs (ptx p'))"
    "list_all output_sized (outputs (ptx p))" "list_all output_sized (outputs (ptx p'))"
    "length (payload (ptx p)) < 2 ^ 64" "length (payload (ptx p')) < 2 ^ 64"
    using assms(3,4) by (simp_all add: populated_sized_def)
  have pay: "payload (ptx p) = payload (ptx p')"
    using parts(7) inj [OF in_S in_S, of "write_var_bytes (payload (ptx p))" "write_var_bytes (payload (ptx p'))"]
      nz [OF in_S, of "write_var_bytes (payload (ptx p))"] nz [OF in_S, of "write_var_bytes (payload (ptx p'))"]
      write_var_bytes_prefix_free [OF ids(5,6), of "[]" "[]"]
    by (auto simp: fresh_parts sighash_writes_def split: if_splits)
  have ops: "map sig_op_byte (inputs (ptx p)) = map sig_op_byte (inputs (ptx p'))" if "\<not> is_sighash_anyone_can_pay t" "version (ptx p) < 1"
  proof (rule inj [OF in_S in_S])
    show "H (map sig_op_byte (inputs (ptx p))) = H (map sig_op_byte (inputs (ptx p')))" using parts(2) parts(5) [OF that(2)] that(1) by (simp add: fresh_parts)
  qed (simp_all add: sighash_writes_def)
  have seqs: "map sequence (inputs (ptx p)) = map sequence (inputs (ptx p'))"
    if "\<not> is_sighash_anyone_can_pay t \<and> \<not> is_sighash_single t \<and> \<not> is_sighash_none t"
  proof (rule sequences_bytes_inject, rule inj [OF in_S in_S])
    show "H (sequences_bytes (ptx p)) = H (sequences_bytes (ptx p'))" using parts(2,4) that by (simp add: fresh_parts)
  qed (simp_all add: sighash_writes_def)
  show ?thesis using parts(1,2,8-14) pay ops seqs bound_outpoints [OF assms] bound_outputs [OF assms] single_output_bound [OF assms] by blast
qed

text \<open>C38: what a signature leaves open.  From version 1 on, the compute budgets of the inputs are not
  part of the signature hash of any hash type: replacing them, like the signature scripts, changes no hash.\<close>

theorem sighash_v1_leaves_budgets:
  assumes "1 \<le> version (ptx p)" and "i < length (inputs (ptx p))"
  shows "schnorr_hash H (p\<lparr>ptx := (ptx p)\<lparr>inputs := map (\<lambda>input. input\<lparr>compute_commit := budget input, signature_script := script input\<rparr>)
      (inputs (ptx p))\<rparr>\<rparr>) i t = schnorr_hash H p i t"
proof -
  let ?tx = "(ptx p)\<lparr>inputs := map (\<lambda>input. input\<lparr>compute_commit := budget input, signature_script := script input\<rparr>) (inputs (ptx p))\<rparr>"
  have "previous_outputs_bytes ?tx = previous_outputs_bytes (ptx p)" "sequences_bytes ?tx = sequences_bytes (ptx p)"
    "outputs_bytes ?tx = outputs_bytes (ptx p)"
    by (simp_all add: previous_outputs_bytes_def sequences_bytes_def outputs_bytes_def comp_def)
  moreover have "version (ptx p) \<noteq> 0" using assms(1) by auto
  ultimately show ?thesis
    using assms(2) by (simp add: schnorr_hash_def schnorr_preimage_def sighash_preimage_def Let_def fresh_parts)
qed

section \<open>Witnesses\<close>

definition sample_sighash_tx :: PopulatedTransaction where
  "sample_sighash_tx =
     \<lparr>ptx = sample_covenant_tx\<lparr>inputs := [\<lparr>previous_outpoint = \<lparr>transaction_id = replicate 32 7, outpoint_index = 0\<rparr>,
        signature_script = [], sequence = 0, compute_commit = ComputeBudget 0\<rparr>], payload := [1, 2, 3]\<rparr>,
      entries = [\<lparr>amount = 5, entry_spk = \<lparr>spk_version = 0, spk_script = []\<rparr>, block_daa_score = 0,
        entry_is_coinbase = False, covenant_id = None\<rparr>]\<rparr>"

definition length_hash :: "bytes \<Rightarrow> hash" where
  "length_hash bs = le_bytes 32 (length bs)"

theorem sighash_reuse_transparent_witness:
  "schnorr_hashes length_hash sample_sighash_tx SigHashReusedValues_new [(0, 1), (0, 4), (0, 0x82), (0, 1)] =
    Inr (map (schnorr_hash length_hash sample_sighash_tx 0) [1, 4, 0x82, 1])"
  using sighash_reuse_transparent [of sample_sighash_tx "[(0, 1), (0, 4), (0, 0x82), (0, 1)]" length_hash]
  by (simp add: sample_sighash_tx_def)

lemma length_hash_inject:
  assumes "length a < 2 ^ 16" and "length b < 2 ^ 16"
  shows "length_hash a = length_hash b \<longleftrightarrow> length a = length b"
proof
  assume "length_hash a = length_hash b"
  then have "length a mod 256 ^ 32 = length b mod 256 ^ 32"
    unfolding length_hash_def using from_le_bytes_le_bytes by metis
  then show "length a = length b" using assms by simp
qed (simp add: length_hash_def)

lemma length_hash_nil: "length_hash [] = ZERO_HASH"
proof -
  have "le_bytes n 0 = replicate n 0" for n by (induction n) simp_all
  then show ?thesis by (simp add: length_hash_def ZERO_HASH_def)
qed

definition sample_sighash_tx2 :: PopulatedTransaction where
  "sample_sighash_tx2 = sample_sighash_tx\<lparr>ptx := (ptx sample_sighash_tx)\<lparr>inputs :=
     map (\<lambda>input. input\<lparr>compute_commit := ComputeBudget 9, signature_script := [5]\<rparr>) (inputs (ptx sample_sighash_tx))\<rparr>\<rparr>"

lemma sample_sighash_bytes:
  assumes "p = sample_sighash_tx \<or> p = sample_sighash_tx2"
  shows "version (ptx p) = 1" "previous_outputs_bytes (ptx p) = previous_outputs_bytes (ptx sample_sighash_tx)"
    "sequences_bytes (ptx p) = sequences_bytes (ptx sample_sighash_tx)" "map sig_op_byte (inputs (ptx p)) = [0]"
    "outputs_bytes (ptx p) = outputs_bytes (ptx sample_sighash_tx)" "payload (ptx p) = [1, 2, 3]"
    "schnorr_preimage H p 0 1 = schnorr_preimage H sample_sighash_tx 0 1" "outputs (ptx p) = outputs (ptx sample_sighash_tx)"
  using assms
  by (auto simp: sample_sighash_tx2_def sample_sighash_tx_def sample_covenant_tx_def previous_outputs_bytes_def sequences_bytes_def
      outputs_bytes_def sig_op_byte_def schnorr_preimage_def sighash_preimage_def Let_def fresh_parts)

lemma sample_sighash_lengths:
  "length (previous_outputs_bytes (ptx sample_sighash_tx)) = 36" "length (sequences_bytes (ptx sample_sighash_tx)) = 8"
  "length (outputs_bytes (ptx sample_sighash_tx)) = 38" "length (schnorr_preimage length_hash sample_sighash_tx 0 1) = 229"
  "length (hash_output 1 (outputs (ptx sample_sighash_tx) ! 0)) = 19" "length (outputs (ptx sample_sighash_tx)) = 2"
  by (simp_all add: sample_sighash_tx_def sample_covenant_tx_def previous_outputs_bytes_def sequences_bytes_def hash_outpoint_def
      outputs_bytes_def hash_output_def hash_script_public_key_def write_var_bytes_def write_bool_def schnorr_preimage_def
      sighash_preimage_def Let_def fresh_parts length_hash_def ZERO_HASH_def SUBNETWORK_ID_NATIVE_def from_byte_def SUBNETWORK_ID_SIZE_def
      sighash_kinds)

lemma sample_separates:
  "hash_separates length_hash (sighash_writes length_hash sample_sighash_tx 0 1 \<union> sighash_writes length_hash sample_sighash_tx2 0 1)"
proof -
  let ?S = "sighash_writes length_hash sample_sighash_tx 0 1 \<union> sighash_writes length_hash sample_sighash_tx2 0 1"
  have S: "?S = {previous_outputs_bytes (ptx sample_sighash_tx), sequences_bytes (ptx sample_sighash_tx), [0],
      outputs_bytes (ptx sample_sighash_tx), write_var_bytes [1, 2, 3], schnorr_preimage length_hash sample_sighash_tx 0 1,
      hash_output 1 (outputs (ptx sample_sighash_tx) ! 0)}"
    using sample_sighash_bytes [of sample_sighash_tx] sample_sighash_bytes [of sample_sighash_tx2]
    by (simp add: sighash_writes_def sample_sighash_lengths(6) insert_commute)
  have len: "length x \<in> {1, 8, 11, 19, 36, 38, 229}" if "x \<in> ?S" for x
    using that unfolding S by (auto simp: sample_sighash_lengths write_var_bytes_def)
  have short: "length x < 2 ^ 16" if "x \<in> ?S" for x using len [OF that] by auto
  have eq: "x = y" if "x \<in> ?S" "y \<in> ?S" "length x = length y" for x y
    using that unfolding S by (auto simp: sample_sighash_lengths write_var_bytes_def)
  have "inj_on length_hash ?S"
  proof (rule inj_onI)
    fix x y assume "x \<in> ?S" "y \<in> ?S" "length_hash x = length_hash y"
    then show "x = y" using eq length_hash_inject [OF short short] by blast
  qed
  moreover have "length_hash x \<noteq> ZERO_HASH" if "x \<in> ?S" for x
    using len [OF that] length_hash_inject [OF short [OF that], of "[]"] by (auto simp: length_hash_nil)
  ultimately show ?thesis by (simp add: hash_separates_def length_hash_def)
qed

theorem sighash_binds_witness:
  "map previous_outpoint (inputs (ptx sample_sighash_tx)) = map previous_outpoint (inputs (ptx sample_sighash_tx2)) \<and>
   payload (ptx sample_sighash_tx) = payload (ptx sample_sighash_tx2)"
proof -
  have "schnorr_hash length_hash sample_sighash_tx 0 1 = schnorr_hash length_hash sample_sighash_tx2 0 1"
    using sample_sighash_bytes(7) [of sample_sighash_tx2] by (simp add: schnorr_hash_def)
  moreover have "populated_sized sample_sighash_tx 0" "populated_sized sample_sighash_tx2 0" "\<not> is_sighash_anyone_can_pay 1"
    by (simp_all add: populated_sized_def sample_sighash_tx2_def sample_sighash_tx_def sample_covenant_tx_def output_sized_def
        SUBNETWORK_ID_NATIVE_def from_byte_def SUBNETWORK_ID_SIZE_def is_sighash_anyone_can_pay_def SIG_HASH_ANY_ONE_CAN_PAY_def)
  ultimately show ?thesis using sighash_binds [OF _ sample_separates] by blast
qed

theorem sighash_v1_leaves_budgets_witness:
  "schnorr_hash length_hash (sample_sighash_tx\<lparr>ptx := (ptx sample_sighash_tx)\<lparr>inputs :=
     map (\<lambda>input. input\<lparr>compute_commit := ComputeBudget 9, signature_script := [5]\<rparr>) (inputs (ptx sample_sighash_tx))\<rparr>\<rparr>) 0 1 =
   schnorr_hash length_hash sample_sighash_tx 0 1"
  by (rule sighash_v1_leaves_budgets) (simp_all add: sample_sighash_tx_def sample_covenant_tx_def)

end
