(* ===== verification/Tx_Scripts.thy ===== *)
theory Tx_Scripts
  imports Tx_Validation Script_Sigops Sighash
begin

text \<open>
  The validator with the script engine in it: \<^verbatim>\<open>check_scripts\<close> of
  \<^verbatim>\<open>src/consensus/src/processes/transaction_validator/tx_validation_in_utxo_context.rs\<close> builds an engine per input and
  runs it.  \<open>node_env\<close> puts the engine of \<open>Script_Engine\<close> in the place of the validator's parameter;
  the theorems carry what is shown of the engine over to validated transactions.
\<close>

section \<open>The engine on one input\<close>

definition engine_run ::
    "ScriptCrypto \<Rightarrow> SeqCommitAccessor option \<Rightarrow> PopulatedTransaction \<Rightarrow> CovenantsContext \<Rightarrow> u64 \<Rightarrow> nat \<Rightarrow> ScriptUnits \<Rightarrow>
     (TxScriptError, unit) outcome" where
  "engine_run crypto acc p ctx sigop_units i limit =
     bindR (from_transaction_input crypto p (inputs (ptx p) ! i) i (entries p ! i) ctx acc sigop_units limit)
       (\<lambda>(env, vm). execute env vm)"

definition node_env :: "ScriptCrypto \<Rightarrow> SeqCommitAccessor option \<Rightarrow> TxScriptError TxEnv \<Rightarrow> TxScriptError TxEnv" where
  "node_env crypto acc env = env\<lparr>vm_execute := engine_run crypto acc\<rparr>"

text \<open>The signature hashes of \<open>Sighash\<close> in the place of the engine's parameters.\<close>

definition with_sighash :: "(bytes \<Rightarrow> hash) \<Rightarrow> (bytes \<Rightarrow> hash) \<Rightarrow> ScriptCrypto \<Rightarrow> ScriptCrypto" where
  "with_sighash H HE crypto = crypto\<lparr>calc_schnorr_signature_hash := schnorr_hash H,
     calc_ecdsa_signature_hash := (\<lambda>p i t. HE (schnorr_hash H p i t))\<rparr>"

text \<open>What the engine relies on: the proof verifiers only take entries off the stack and spend
  units, and sequencing commitments are hashes.\<close>

definition script_crypto_ok :: "ScriptCrypto \<Rightarrow> SeqCommitAccessor option \<Rightarrow> bool" where
  "script_crypto_ok crypto acc \<longleftrightarrow> verifier_pops crypto \<and>
     (\<forall>a b c. acc = Some a \<longrightarrow> seq_commitment_within_depth a b = Some c \<longrightarrow> length c = 32)"

lemma engine_run_no_panic:
  assumes "script_crypto_ok crypto acc" and "i < length (inputs (ptx p))" and "length (spk_script (entry_spk (entries p ! i))) < 2 ^ 57"
  shows "engine_run crypto acc p ctx units i limit \<noteq> Inl Panic"
proof
  assume *: "engine_run crypto acc p ctx units i limit = Inl Panic"
  obtain env vm where engine: "from_transaction_input crypto p (inputs (ptx p) ! i) i (entries p ! i) ctx acc units limit = Inr (env, vm)"
    using assms(2) by (auto simp: from_transaction_input_def)
  then have "execute env vm = Inl Panic" using * by (simp add: engine_run_def)
  then show False using engine_holds(2) [OF _ _ assms(3) engine] assms(1) unfolding script_crypto_ok_def by blast
qed

lemma node_scripts_run:
  assumes "script_crypto_ok crypto acc" and "length (inputs (ptx p)) = length (entries p)" and "validator_bounds v"
    and "\<forall>e \<in> set (entries p). entry_bounds v e"
    and "set (par_order env (length (inputs (ptx p)))) = {..<length (inputs (ptx p))}"
  shows "scripts_run (node_env crypto acc env) p"
proof -
  have "length (spk_script (entry_spk (entries p ! i))) < 2 ^ 57" if "i < length (inputs (ptx p))" for i
  proof -
    have "entry_bounds v (entries p ! i)" using assms(2,4) that by auto
    then show ?thesis using assms(3) by (simp add: entry_bounds_def validator_bounds_def)
  qed
  then show ?thesis using assms(5) engine_run_no_panic [OF assms(1)] by (simp add: scripts_run_def node_env_def)
qed

text \<open>What an accepted transaction says of each of its inputs.\<close>

lemma validated_input_runs:
  assumes "validate_populated_transaction_and_get_fee (node_env crypto acc env) v p pov flags threshold pool_petals = Inr fee"
    and "flags \<noteq> SkipScriptChecks" and "i < length (inputs (ptx p))"
    and "set (par_order env (length (inputs (ptx p)))) = {..<length (inputs (ptx p))}"
  shows "\<exists>ctx units. engine_run crypto acc p ctx units i (allowed_script_units (compute_commit (inputs (ptx p) ! i))) = Inr ()"
proof -
  obtain ctx where "check_scripts (node_env crypto acc env) v p ctx = Inr ()"
    using validate_populated_Inr [OF assms(1)] assms(2) by metis
  then obtain units where "check_scripts_of (node_env crypto acc env) p ctx units = Inr ()"
    by (auto simp: check_scripts_def bindR_eq_Inr)
  then have "check_input_script (node_env crypto acc env) p ctx units i = Inr ()"
    using assms(3,4) by (auto simp: check_scripts_of_def check_scripts_par_iter_def check_scripts_sequential_def fold_units_Inr
        node_env_def split: if_splits)
  then show ?thesis by (auto simp: check_input_script_def Let_def map_err_eq node_env_def)
qed

lemma validated_input_signature:
  assumes "validate_populated_transaction_and_get_fee (node_env crypto acc env) v p pov flags threshold pool_petals = Inr fee"
    and "flags \<noteq> SkipScriptChecks" and "i < length (inputs (ptx p))"
    and "set (par_order env (length (inputs (ptx p)))) = {..<length (inputs (ptx p))}"
    and "ScriptClass_from_script (entry_spk (entries p ! i)) = PubKey" and "sound_cache crypto"
  shows "\<exists>sig t op. SigHashType_from_u8 t = Some t \<and>
    parse_script (signature_script (inputs (ptx p) ! i)) = [Inr op] \<and> pushed_entry op = sig @ [t] \<and>
    schnorr_verify crypto sig (calc_schnorr_signature_hash crypto p i t) (p2pk_key (entries p ! i))"
proof -
  obtain ctx units where "engine_run crypto acc p ctx units i (allowed_script_units (compute_commit (inputs (ptx p) ! i))) = Inr ()"
    using validated_input_runs [OF assms(1-4)] by blast
  then obtain senv vm where engine: "from_transaction_input crypto p (inputs (ptx p) ! i) i (entries p ! i) ctx acc units
      (allowed_script_units (compute_commit (inputs (ptx p) ! i))) = Inr (senv, vm)" and run: "execute senv vm = Inr ()"
    by (auto simp: engine_run_def bindR_eq_Inr)
  from p2pk_spend_is_signed [OF engine assms(5,6) run] obtain sig t vm1 vm2 where
    sig: "SigHashType_from_u8 t = Some t" "schnorr_verify crypto sig (calc_schnorr_signature_hash crypto p i t) (p2pk_key (entries p ! i))"
    and push: "execute_script senv (signature_script (inputs (ptx p) ! i)) True vm1 = Inr vm2" "inner (dstack vm1) = []"
      "cond_stack vm1 = []" "inner (dstack vm2) = [sig @ [t]]" by blast
  have "\<exists>op. parse_script (signature_script (inputs (ptx p) ! i)) = [Inr op] \<and> pushed_entry op = sig @ [t]"
    using push_script_used [OF push(1,3)] push(2,4) by auto
  then show ?thesis using sig by blast
qed

section \<open>The sample transaction\<close>

definition sample_node :: "TxScriptError TxEnv" where
  "sample_node = \<lparr>PoolOp_decode_payload = \<lambda>_. None, AnchorPayload_decode_payload = \<lambda>_. None,
     trustee_crypto = plain_trustee_crypto, covenant_id_hash = \<lambda>op _. transaction_id op,
     vm_execute = \<lambda>_ _ _ _ _. Inr (), par_order = \<lambda>n. rev [0..<n], feerate_at_most = \<lambda>fee m t. fee div m \<le> t\<rparr>"

text \<open>A hasher that tells strings apart by their length and gives the 296 bytes that are signed here the hash
  the sample signatures are for.\<close>

definition sample_hash :: "bytes \<Rightarrow> hash" where
  "sample_hash bs = (if length bs = 296 then replicate 32 1 else length_hash bs)"

definition sample_signing :: ScriptCrypto where
  "sample_signing = with_sighash sample_hash sample_hash sample_crypto"

lemma sample_verifier: "script_crypto_ok sample_signing None"
  using sample_verifier_pops by (simp add: script_crypto_ok_def sample_signing_def with_sighash_def verifier_pops_def)

lemmas sample_tx_bytes = sample_populated_def sample_tx_def sample_spk_def previous_outputs_bytes_def sequences_bytes_def
  hash_outpoint_def outputs_bytes_def hash_output_def hash_script_public_key_def write_var_bytes_def write_bool_def

lemma sample_signed_bytes:
  assumes "i < 2"
  shows "length (schnorr_preimage sample_hash sample_populated i 1) = 296"
  using assms
  by (auto simp: less_2_cases_iff sample_tx_bytes schnorr_preimage_def sighash_preimage_def Let_def fresh_parts sample_hash_def
      length_hash_def ZERO_HASH_def SUBNETWORK_ID_NATIVE_def from_byte_def SUBNETWORK_ID_SIZE_def sighash_kinds)

lemma sample_signing_hash:
  assumes "i < 2"
  shows "schnorr_hash sample_hash sample_populated i 1 = replicate 32 1"
  using sample_signed_bytes [OF assms] by (simp add: schnorr_hash_def sample_hash_def)

abbreviation sample_validate :: "(TxScriptError, u64) tx_result" where
  "sample_validate \<equiv> validate_populated_transaction_and_get_fee (node_env sample_signing None sample_node) sample_validator
     sample_populated 5000 Full None None"

lemma sample_input_runs:
  assumes "i < 2"
  shows "engine_run sample_signing None sample_populated ctx 100000 i (allowed_script_units (SigopCount 1)) = Inr ()"
proof -
  let ?tx = sample_populated
  obtain env vm where engine: "from_transaction_input sample_signing ?tx (inputs (ptx ?tx) ! i) i (entries ?tx ! i) ctx None 100000
      (allowed_script_units (SigopCount 1)) = Inr (env, vm)"
    using assms by (auto simp: from_transaction_input_def sample_populated_def sample_tx_def)
  have i: "i = 0 \<or> i = 1" using assms by auto
  have entry: "entry_spk (entries ?tx ! i) = sample_spk" using i by (auto simp: sample_populated_def)
  have "ScriptClass_from_script (entry_spk (entries ?tx ! i)) = PubKey" "sound_cache sample_signing"
    "xonly_from_slice sample_signing (p2pk_key (entries ?tx ! i))" "length (replicate 32 5 @ replicate 32 (1 :: u8)) = 64"
    "schnorr_from_slice sample_signing (replicate 32 5 @ replicate 32 1)" "SigHashType_from_u8 1 = Some 1"
    "schnorr_verify sample_signing (replicate 32 5 @ replicate 32 1) (calc_schnorr_signature_hash sample_signing ?tx i 1)
       (p2pk_key (entries ?tx ! i))"
    "signature_script (inputs (ptx ?tx) ! i) = 0x41 # (replicate 32 5 @ replicate 32 1) @ [1]"
    "unat (100000 :: u64) < unat (allowed_script_units (SigopCount 1))"
    using i sample_signing_hash [OF assms] by (auto simp: entry ScriptClass_from_script_def is_pay_to_pubkey_def sample_spk_def nth_append sound_cache_def
        sample_signing_def with_sighash_def sample_crypto_def p2pk_key_def SigHashType_from_u8_def sample_populated_def sample_tx_def MAX_SCRIPT_PUBLIC_KEY_VERSION_def
        allowed_script_units_def unat_saturating_add free_script_units_per_input_def saturating_sub_def script_unit_consts script_units_exact)
  from p2pk_engine_accepts [OF engine this] have "execute env vm = Inr ()" using execute_inner_true by blast
  then show ?thesis using engine by (simp add: engine_run_def)
qed

lemma sample_order: "set (par_order sample_node n) = {..<n}"
  by (auto simp: sample_node_def)

lemma sample_validates:
  "validate_tx_in_isolation (node_env sample_signing None sample_node) sample_validator sample_tx 5000 = Inr ()"
  "sample_validate = Inr 50000000"
proof -
  let ?env = "node_env sample_signing None sample_node"
  have "tx_well_formed ?env sample_validator sample_tx 5000"
    by (simp add: tx_well_formed_def sample_tx_def sample_validator_def sample_spk_def is_coinbase_def gas_ok_def lane_ok_def
        version_fields_ok_def payload_ok_def output_sum_def unat_MAX_SOMPI TX_VERSION_TOCCATA_def native_lane)
  moreover have "length (outputs sample_tx) < 2 ^ 64" "subnetwork_id sample_tx \<noteq> []"
    using native_lane(5) by (auto simp: sample_tx_def SUBNETWORK_ID_NATIVE_def from_byte_def SUBNETWORK_ID_SIZE_def)
  ultimately show "validate_tx_in_isolation ?env sample_validator sample_tx 5000 = Inr ()"
    by (simp add: validate_in_isolation_iff)
  have two: "length (inputs (ptx sample_populated)) = 2" "\<And>i. i < 2 \<Longrightarrow> compute_commit (inputs (ptx sample_populated) ! i) = SigopCount 1"
    by (auto simp: sample_populated_def sample_tx_def less_2_cases_iff)
  have "check_scripts_of ?env sample_populated ctx 100000 = Inr ()" for ctx
    using sample_order [of 2]
    by (simp add: check_scripts_of_def check_scripts_par_iter_def check_scripts_sequential_def check_input_script_def two
        node_env_def fold_units_Inr sample_input_runs)
  then have scripts: "check_scripts ?env sample_validator sample_populated ctx = Inr ()" for ctx
    by (simp add: check_scripts_def sample_validator_def pmul_def unwrap_def checked_mul_def SCRIPT_UNITS_PER_GRAM_def)
  have "check_covenant_info ?env sample_populated = Inr \<lparr>input_ctxs = [], shared_ctxs = []\<rparr>"
    by (simp add: check_covenant_info_def CovenantsContext_from_tx_def collect_output_def push_covenant_input_def
        node_env_def sample_node_def sample_populated_def sample_tx_def populated_inputs_def)
  then show "sample_validate = Inr 50000000"
    by (simp add: validate_populated_transaction_and_get_fee_def sample_maturity sample_amounts sample_mass sample_locks
        scripts check_feerate_threshold_def psub_def unwrap_def checked_sub_def checked_add_def)
qed

lemma sample_spends:
  assumes "i < 2"
  shows "i < length (inputs (ptx sample_populated))" "ScriptClass_from_script (entry_spk (entries sample_populated ! i)) = PubKey"
    "sound_cache sample_signing" "p2pk_key (entries sample_populated ! i) = replicate 32 5"
  using assms
  by (auto simp: less_2_cases_iff sample_populated_def sample_tx_def sample_spk_def ScriptClass_from_script_def is_pay_to_pubkey_def
      nth_append sound_cache_def sample_signing_def with_sighash_def sample_crypto_def p2pk_key_def MAX_SCRIPT_PUBLIC_KEY_VERSION_def)

section \<open>Theorems\<close>

text \<open>C9: A node cannot be crashed by a transaction.  If the transaction passed in isolation and its
  entries come from outputs that did, validation in UTXO context with the script engine in it
  returns a fee or an error: no addition, product, division or signed conversion overflows, no
  lookup fails, and no script makes the engine panic.\<close>

theorem tx_validation_no_panic:
  assumes "validator_bounds v" and "\<forall>e \<in> set (entries p). entry_bounds v e"
    and "validate_tx_in_isolation (node_env crypto acc env) v (ptx p) daa = Inr ()" and "length (outputs (ptx p)) < 2 ^ 64"
    and "subnetwork_id (ptx p) \<noteq> []" and "length (inputs (ptx p)) = length (entries p)"
    and "\<forall>m r. threshold = Some (m, r) \<longrightarrow> m \<noteq> 0" and "script_crypto_ok crypto acc"
    and "set (par_order env (length (inputs (ptx p)))) = {..<length (inputs (ptx p))}"
  shows "validate_populated_transaction_and_get_fee (node_env crypto acc env) v p pov flags threshold pool_petals \<noteq> Inl Panic"
  using validated_no_panic [OF assms(1-7) node_scripts_run [OF assms(8,6,1,2,9)]] .

theorem tx_validation_no_panic_witness:
  "validate_populated_transaction_and_get_fee (node_env sample_signing None sample_node) sample_validator sample_populated (- 1) Full
     None (Some (- 1, - 1)) \<noteq> Inl Panic"
proof (rule tx_validation_no_panic)
  show "validate_tx_in_isolation (node_env sample_signing None sample_node) sample_validator (ptx sample_populated) 5000 = Inr ()"
    using sample_validates(1) by (simp add: sample_populated_def)
  show "script_crypto_ok sample_signing None" by (rule sample_verifier)
  show "set (par_order sample_node (length (inputs (ptx sample_populated)))) = {..<length (inputs (ptx sample_populated))}"
    by (rule sample_order)
qed (simp_all add: sample_populated_def sample_tx_def sample_validator_def sample_spk_def validator_bounds_def
    entry_bounds_def SUBNETWORK_ID_NATIVE_def from_byte_def SUBNETWORK_ID_SIZE_def)

text \<open>C10: coins move only with their owner's signature.  In an accepted transaction every input that
  spends a public-key output carries a signature under the output's key for the signature hash of
  this transaction and this input: its signature script is a single push of that signature and
  its hash type.  Assumed: what the signature cache answers is what the library answers.\<close>

theorem validated_inputs_signed:
  assumes "validate_populated_transaction_and_get_fee (node_env (with_sighash H HE crypto) acc env) v p pov flags threshold pool_petals = Inr fee"
    and "flags \<noteq> SkipScriptChecks" and "i < length (inputs (ptx p))"
    and "set (par_order env (length (inputs (ptx p)))) = {..<length (inputs (ptx p))}"
    and "ScriptClass_from_script (entry_spk (entries p ! i)) = PubKey" and "sound_cache (with_sighash H HE crypto)"
  shows "\<exists>sig t op. SigHashType_from_u8 t = Some t \<and>
    parse_script (signature_script (inputs (ptx p) ! i)) = [Inr op] \<and> pushed_entry op = sig @ [t] \<and>
    schnorr_verify crypto sig (schnorr_hash H p i t) (p2pk_key (entries p ! i))"
  using validated_input_signature [OF assms] by (simp add: with_sighash_def)

theorem validated_inputs_signed_witness:
  "\<exists>sig t op. parse_script (signature_script (inputs (ptx sample_populated) ! 1)) = [Inr op] \<and> pushed_entry op = sig @ [t] \<and>
    schnorr_verify sample_crypto sig (schnorr_hash sample_hash sample_populated 1 t) (replicate 32 5)"
  using validated_inputs_signed [OF sample_validates(2) [unfolded sample_signing_def], of 1] sample_order sample_spends [of 1]
  by (auto simp: sample_signing_def)

end
