(* ===== verification/Spec2Isabelle.thy ===== *)
theory Spec2Isabelle
  imports Anchor_State Trustee_Signer Release_Statements Coinbase Utxo_Diff Pool_Hashing Merkle Tx_Scripts
begin

text \<open>
  \<^bold>\<open>Verification of the Marigold node.\<close>  Marigold is a block-DAG node in Rust.  Its ledger has two
  parts: transparent outputs (UTXOs) locked by scripts, and a note pool in which notes of fixed
  denominations change hands under serial numbers.  A quorum of three of five trustees certifies settled
  blocks with finality anchors.  This library models the consensus rules that decide whether a
  transaction, a pool operation, a script, a coinbase or an anchor is accepted and what it changes.

  \<^bold>\<open>Theories and sources\<close> (paths under \<^verbatim>\<open>src/\<close>; \<^verbatim>\<open>core\<close> is \<^verbatim>\<open>consensus/core/src\<close>).
  \<^item> \<open>Prelude\<close>: outcomes with errors and panics as values, panicking and saturating arithmetic on words,
    loops with early return, byte encodings, association lists for hash maps, sums over finite maps.
  \<^item> \<open>Diff_Algebra\<close>: the contract \<open>reversible_diffs\<close> of diffs that can be composed and undone, interpreted
    in \<open>Pool_Diff\<close> (\<^verbatim>\<open>core/notepool/diff.rs\<close>, \<^verbatim>\<open>view.rs\<close>) as \<open>pd\<close> and in \<open>Utxo_Diff\<close> (\<^verbatim>\<open>core/utxo\<close>) as \<open>ud\<close>.
  \<^item> \<open>Pool_Types\<close>, \<open>Pool_Hashing\<close>, \<open>Pool_Validate\<close>: the note pool (\<^verbatim>\<open>core/notepool\<close>).
  \<^item> \<open>Tx_Types\<close>, \<open>Mass\<close>, \<open>Sighash\<close>: transactions, masses and signature hashes (\<^verbatim>\<open>core/tx.rs\<close>, \<^verbatim>\<open>core/subnets.rs\<close>,
    \<^verbatim>\<open>core/mass\<close>, \<^verbatim>\<open>core/hashing\<close>).  \<open>Covenants\<close>: covenant bindings (\<^verbatim>\<open>crypto/txscript/src/covenants.rs\<close>).
  \<^item> \<open>Tx_Rules\<close>, \<open>Tx_Validation\<close>: the transaction validator
    (\<^verbatim>\<open>consensus/src/processes/transaction_validator\<close>) in isolation, in header context and in UTXO context.
  \<^item> \<open>Script_Stack\<close>, \<open>Script_Opcodes\<close>, \<open>Script_Engine\<close>: the script engine (\<^verbatim>\<open>crypto/txscript/src\<close>): parser, numbers,
    stack, resource meter, every opcode, the run of an input, script classes and static bounds.
    \<open>Script_Spend\<close> and \<open>Script_Sigops\<close> hold what a successful run says of signatures, hashes and costs.
  \<^item> \<open>Tx_Scripts\<close>: the validator with the engine and the signature hashes in the place of its parameters.
  \<^item> \<open>Coinbase\<close>: subsidies, payload and expected coinbase (\<^verbatim>\<open>consensus/src/processes/coinbase.rs\<close>).
  \<^item> \<open>Merkle\<close>: Merkle roots in an array and from a stream (\<^verbatim>\<open>crypto/merkle/src\<close>, \<^verbatim>\<open>core/merkle.rs\<close>).
  \<^item> \<open>Finality_Anchor\<close>, \<open>Release_Statements\<close>: statements signed by a quorum (\<^verbatim>\<open>core/finality_anchor\<close>), with the
    contract \<open>quorum_statement\<close> interpreted as \<open>fa\<close>, \<open>rn\<close> and \<open>rm\<close>.  \<open>Anchor_State\<close>: the node's anchor state
    (\<^verbatim>\<open>consensus/src/pipeline/virtual_processor/processor.rs\<close> and others).  \<open>Trustee_Signer\<close>: the signing tool
    (\<^verbatim>\<open>trustee-signer/src/lib.rs\<close>), as a step relation.

  \<^bold>\<open>How state and operations correspond.\<close>  A struct is a record, an enum a datatype, a method a definition
  that takes the old value and returns the new one.  Errors are values with the constructors of the source,
  and so is a panic: unwrapping nothing, indexing out of range or an overflowing operator, which the release
  profile checks.  Integers keep their width, except script numbers, which are integers with the range
  checked at every conversion.  Loops are recursions with a termination proof, most of them folds, and none
  needs fuel; the signer's walk over the answers of its node (\<open>walk_back\<close>) may run forever and is a partial function
  into an option type.  Hash functions, secp256k1, the borsh decoders, the proof verifiers, floating-point comparison
  and the order in which a thread pool works are parameters; what is needed of them is a named hypothesis.

  \<^bold>\<open>What is shown.\<close>
  \<^item> Note pool: exactly which operations are accepted, what they change, that value is conserved, that every
    spent note is signed for by its key, that validation never panics and that replay agrees.
  \<^item> Transactions: exactly which pass in isolation; conservation of value, maturity and relative
    locks; no transaction panics the node, its scripts included; coins move only with a signature, and a
    signature is good for one transaction (below).
  \<^item> Signature hashes: reuse of partial hashes changes no result; what each hash type binds and leaves open.
  \<^item> Scripts: the engine stays within its limits and never panics; the parser accepts exactly the serialised
    opcodes; the multisignature loop finds signers exactly when there are some in order; owners can spend;
    a script-hash output needs the script; the scanner bounds the signature operations used.
  \<^item> Ledger arithmetic: the storage mass is its formula; what the subsidy schedule emits against the cap; the
    coinbase pays its rewards; UTXO diffs compose.
  \<^item> Merkle roots: the two constructions agree, what a root commits to, how many leaves the builder takes.
  \<^item> Anchors: exactly which anchors and proofs of equivocation verify; the certified score never decreases
    in a sequential node; a signer never equivocates as long as its state file is written; and the two races
    and failures in which these guarantees are lost.

  \<^bold>\<open>Bounds.\<close>  Where a statement needs sizes, it names them: the parameters of the networks satisfy
  \<open>validator_bounds\<close>, entries made from outputs that passed in isolation satisfy \<open>entry_bounds\<close>, hashes have 32
  bytes, scripts are shorter than \<open>2 ^ 64\<close> bytes, and the Merkle builder takes fewer than \<open>2 ^ 32\<close> leaves.

  \<^bold>\<open>Not modelled.\<close>  The loops over the transactions of a block and over the merge set
  (\<^verbatim>\<open>body_processor\<close>, \<^verbatim>\<open>utxo_validation.rs\<close>); GHOSTDAG, reachability, difficulty, pruning and sync, which work on
  stores of the DAG that the modelled operations take as arguments; the sparse Merkle tree and MuHash; serialisation
  with borsh, protobuf and JSON; the mempool and block templates, which are policy; wallets, RPC, the peer-to-peer protocol,
  databases, user interfaces and bindings, which are I/O around the node.
\<close>

section \<open>One signature, one transaction\<close>

text \<open>A node with this state accepts the transaction, scripts included, at some chain position.\<close>

definition node_accepts ::
    "(bytes \<Rightarrow> hash) \<Rightarrow> (bytes \<Rightarrow> hash) \<Rightarrow> ScriptCrypto \<Rightarrow> SeqCommitAccessor option \<Rightarrow> TxScriptError TxEnv \<Rightarrow>
     TransactionValidator \<Rightarrow> PopulatedTransaction \<Rightarrow> bool" where
  "node_accepts H HE crypto acc env v p \<longleftrightarrow> (\<exists>pov threshold pool_petals fee.
     validate_populated_transaction_and_get_fee (node_env (with_sighash H HE crypto) acc env) v p pov Full threshold pool_petals = Inr fee) \<and>
     set (par_order env (length (inputs (ptx p)))) = {..<length (inputs (ptx p))}"

lemma accepted_input_signature:
  assumes "node_accepts H HE crypto acc env v p" and "i < length (inputs (ptx p))"
    and "ScriptClass_from_script (entry_spk (entries p ! i)) = PubKey" and "sound_cache (with_sighash H HE crypto)"
  shows "\<exists>sig t op. parse_script (signature_script (inputs (ptx p) ! i)) = [Inr op] \<and> pushed_entry op = sig @ [t] \<and>
    schnorr_verify crypto sig (schnorr_hash H p i t) (p2pk_key (entries p ! i))"
proof -
  obtain pov threshold pool_petals fee where
    "validate_populated_transaction_and_get_fee (node_env (with_sighash H HE crypto) acc env) v p pov Full threshold pool_petals = Inr fee"
    "set (par_order env (length (inputs (ptx p)))) = {..<length (inputs (ptx p))}"
    using assms(1) unfolding node_accepts_def by blast
  from validated_input_signature [OF this(1) _ assms(2) this(2) assms(3,4)] show ?thesis
    by (auto simp: with_sighash_def)
qed

text \<open>C11: a signature is good for one transaction only.  If two accepted transactions spend public-key
  outputs of one key with the same signature script, the signature in it is over the same outpoint,
  and, when its hash type is \<^verbatim>\<open>SIG_HASH_ALL\<close>, the two transactions spend the same outpoints and create
  the same outputs (in version 0 up to the covenants, which the hash leaves out there).  Assumed of the
  libraries: a signature verifies one message under a key, the cache answers as the library does, and
  the hasher separates the strings hashed here.\<close>

theorem signature_good_for_one_transaction:
  assumes "node_accepts H HE crypto acc env v p" and "node_accepts H HE crypto acc env v p'"
    and "i < length (inputs (ptx p))" and "i' < length (inputs (ptx p'))"
    and "ScriptClass_from_script (entry_spk (entries p ! i)) = PubKey" and "ScriptClass_from_script (entry_spk (entries p' ! i')) = PubKey"
    and "p2pk_key (entries p ! i) = p2pk_key (entries p' ! i')"
    and "signature_script (inputs (ptx p) ! i) = signature_script (inputs (ptx p') ! i')"
    and "parse_script (signature_script (inputs (ptx p) ! i)) = [Inr op]" and "pushed_entry op = sig @ [t]"
    and "sound_cache (with_sighash H HE crypto)"
    and "\<And>s h h' k. schnorr_verify crypto s h k \<Longrightarrow> schnorr_verify crypto s h' k \<Longrightarrow> h = h'"
    and "hash_separates H (sighash_writes H p i t \<union> sighash_writes H p' i' t)"
    and "populated_sized p i" and "populated_sized p' i'"
  shows "previous_outpoint (inputs (ptx p) ! i) = previous_outpoint (inputs (ptx p') ! i') \<and>
    (t = SIG_HASH_ALL \<longrightarrow> map previous_outpoint (inputs (ptx p)) = map previous_outpoint (inputs (ptx p')) \<and>
       map (signed_output (version (ptx p))) (outputs (ptx p)) = map (signed_output (version (ptx p))) (outputs (ptx p')))"
proof -
  have signed: "schnorr_verify crypto sig (schnorr_hash H q j t) (p2pk_key (entries q ! j))"
    if "node_accepts H HE crypto acc env v q" and "j < length (inputs (ptx q))"
      and "ScriptClass_from_script (entry_spk (entries q ! j)) = PubKey" and "parse_script (signature_script (inputs (ptx q) ! j)) = [Inr op]" for q j
    using accepted_input_signature [OF that(1-3) assms(11)] that(4) assms(10) by auto
  have "schnorr_hash H p i t = schnorr_hash H p' i' t"
    using assms(12) [OF signed [OF assms(1,3,5,9)]] signed [OF assms(2,4,6)] assms(7,8,9) by simp
  note same = this assms(13-15)
  have "\<not> is_sighash_anyone_can_pay SIG_HASH_ALL" "\<not> is_sighash_none SIG_HASH_ALL \<and> \<not> is_sighash_single SIG_HASH_ALL"
    by (simp_all add: sighash_kinds SIG_HASH_ALL_def)
  then show ?thesis using schnorr_hash_parts(8) [OF same] bound_outpoints [OF same] bound_outputs [OF same] by metis
qed

lemma sample_tx_accepted: "node_accepts sample_hash sample_hash sample_crypto None sample_node sample_validator sample_populated"
  using sample_validates(2) sample_order unfolding node_accepts_def sample_signing_def by blast

lemma sample_populated_tx: "ptx sample_populated = sample_tx"
  by (simp add: sample_populated_def)

lemma sample_tx_lengths:
  "length (previous_outputs_bytes sample_tx) = 72" "length (sequences_bytes sample_tx) = 16"
  "length (map sig_op_byte (inputs sample_tx)) = 2" "length (outputs_bytes sample_tx) = 52"
  "length (write_var_bytes (payload sample_tx)) = 8" "outputs_bytes sample_tx = hash_output (version sample_tx) (outputs sample_tx ! 0)"
  by (simp_all add: sample_tx_bytes)

lemma sample_tx_separates:
  "hash_separates sample_hash (sighash_writes sample_hash sample_populated 0 1)"
proof -
  let ?S = "sighash_writes sample_hash sample_populated 0 1"
  define L where "L = [previous_outputs_bytes sample_tx, sequences_bytes sample_tx, map sig_op_byte (inputs sample_tx), outputs_bytes sample_tx,
      write_var_bytes (payload sample_tx), schnorr_preimage sample_hash sample_populated 0 1]"
  have "outputs sample_tx \<noteq> []" by (simp add: sample_tx_def)
  then have S: "?S = set L"
    unfolding L_def sighash_writes_def using sample_tx_lengths(6) sample_populated_tx by (simp add: insert_commute)
  have lengths: "map length L = [72, 16, 2, 52, 8, 296]" using sample_tx_lengths sample_signed_bytes [of 0] by (simp add: L_def)
  have len: "length x \<in> {2, 8, 16, 52, 72, 296}" if "x \<in> ?S" for x
  proof -
    have "length x \<in> set (map length L)" using that unfolding S set_map by (rule imageI)
    then show ?thesis unfolding lengths by auto
  qed
  have "distinct (map length L)" unfolding lengths by simp
  then have eq: "x = y" if "x \<in> ?S" "y \<in> ?S" "length x = length y" for x y
    using that unfolding S distinct_map by (metis inj_onD)
  have short: "length x < 2 ^ 16" if "x \<in> ?S" for x using len [OF that] by auto
  have ones: "length_hash x \<noteq> replicate 32 1" if "x \<in> ?S" "length x \<noteq> 296" for x
  proof
    assume *: "length_hash x = replicate 32 1"
    have "length x < 256" using len [OF that(1)] that(2) by auto
    moreover have "(32 :: nat) = Suc (Suc 30)" by simp
    ultimately have "length_hash x ! 1 = 0" unfolding length_hash_def by (simp only: le_bytes.simps) simp
    then show False using * by simp
  qed
  have "inj_on sample_hash ?S"
  proof (rule inj_onI)
    fix x y assume "x \<in> ?S" "y \<in> ?S" "sample_hash x = sample_hash y"
    then show "x = y" using eq [of x y] ones [of x] ones [of y] length_hash_inject [OF short [of x] short [of y]]
      by (simp add: sample_hash_def split: if_splits)
  qed
  moreover have "length_hash x \<noteq> ZERO_HASH" if "x \<in> ?S" for x
    using len [OF that] length_hash_inject [OF short [OF that], of "[]"] by (auto simp: length_hash_nil)
  then have "sample_hash x \<noteq> ZERO_HASH" if "x \<in> ?S" for x
    using that by (simp add: sample_hash_def ZERO_HASH_def)
  ultimately show ?thesis by (simp add: hash_separates_def sample_hash_def length_hash_def)
qed

theorem signature_good_for_one_transaction_witness:
  "node_accepts sample_hash sample_hash sample_crypto None sample_node sample_validator sample_populated \<and>
   map (signed_output 0) (outputs (ptx sample_populated)) = map (signed_output 0) (outputs (ptx sample_populated))"
proof -
  have one: "schnorr_verify sample_crypto s h k \<Longrightarrow> schnorr_verify sample_crypto s h' k \<Longrightarrow> h = h'" for s h h' k
    by (simp add: sample_crypto_def)
  have sized: "populated_sized sample_populated 0"
    by (simp add: populated_sized_def output_sized_def sample_populated_def sample_tx_def sample_spk_def
        SUBNETWORK_ID_NATIVE_def from_byte_def SUBNETWORK_ID_SIZE_def)
  have script: "signature_script (inputs (ptx sample_populated) ! 0) = 0x41 # (replicate 32 5 @ replicate 32 1) @ [1]"
    by (simp add: sample_populated_def sample_tx_def)
  show ?thesis
    using sample_tx_accepted sample_tx_separates signature_good_for_one_transaction [OF sample_tx_accepted sample_tx_accepted
        sample_spends(1,1,2,2) [of 0, OF _] refl refl _ _ sample_spends(3) [of 0, unfolded sample_signing_def] one _ sized sized,
        unfolded script, OF _ _ _ _ parse_signature_push]
    by simp
qed

end
